(* ===== verification/Prelude.thy ===== *)
theory Prelude
  imports Main "HOL-Library.Word"
begin

text \<open>
  Shared vocabulary of the development: machine integers and byte strings, the
  outcome type of Rust functions (a value, a returned error or a panic), checked
  indexing, slicing and arithmetic, byte-order conversions, and the generic
  lemmas on lists and words that the component theories use.

  A Rust function that returns \<open>Result<A, E>\<close> is modelled by a value of type
  \<open>('a, 'e) res\<close>. A panic (an index or slice out of range, an arithmetic
  overflow in a build with overflow checks) is the separate value \<open>panic\<close>, so
  that freedom from panics is a theorem and not a convention. The flag \<open>dbg\<close>
  of some operations tells the build profile: \<open>True\<close> is a build with overflow
  checks and debug assertions (the dev profile), \<open>False\<close> a release build, in
  which machine arithmetic wraps around.
\<close>

unbundle bit_operations_syntax

section \<open>Machine types, time\<close>

type_synonym u8 = "8 word"
type_synonym u16 = "16 word"
type_synonym u32 = "32 word"
type_synonym bytes = "u8 list"

text \<open>Durations and clock readings in nanoseconds, as Rust's \<open>Duration\<close> keeps them.\<close>

type_synonym duration = nat
type_synonym instant = nat

abbreviation from_millis :: "nat \<Rightarrow> duration" where
  "from_millis n \<equiv> n * 1000000"

abbreviation from_secs :: "nat \<Rightarrow> duration" where
  "from_secs n \<equiv> n * 1000000000"

section \<open>Outcomes\<close>

datatype 'e fault = Fail 'e | Panic

type_synonym ('a, 'e) res = "'e fault + 'a"

abbreviation Ok :: "'a \<Rightarrow> ('a, 'e) res" where
  "Ok v \<equiv> Inr v"

abbreviation Err :: "'e \<Rightarrow> ('a, 'e) res" where
  "Err e \<equiv> Inl (Fail e)"

abbreviation panic :: "('a, 'e) res" where
  "panic \<equiv> Inl Panic"

text \<open>The question mark operator: stop at the first error or panic.\<close>

definition rbind :: "('a, 'e) res \<Rightarrow> ('a \<Rightarrow> ('b, 'e) res) \<Rightarrow> ('b, 'e) res" where
  "rbind r f = (case r of Inl e \<Rightarrow> Inl e | Inr v \<Rightarrow> f v)"

lemma rbind_simps [simp]:
  "rbind (Inl e) f = Inl e"
  "rbind (Inr v) f = f v"
  by (simp_all add: rbind_def)

lemma rbind_eq_Ok: "rbind r f = Ok b \<longleftrightarrow> (\<exists>a. r = Ok a \<and> f a = Ok b)"
  by (cases r) simp_all

lemma rbind_eq_panic: "rbind r f = panic \<longleftrightarrow> r = panic \<or> (\<exists>a. r = Ok a \<and> f a = panic)"
  by (cases r) auto

text \<open>The same with a state that is threaded through (methods on \<open>&mut self\<close>).\<close>

type_synonym ('a, 'e, 's) op = "'s \<Rightarrow> ('a, 'e) res \<times> 's"

definition sreturn :: "'a \<Rightarrow> ('a, 'e, 's) op" where
  "sreturn v s = (Ok v, s)"

definition sthrow :: "'e \<Rightarrow> ('a, 'e, 's) op" where
  "sthrow e s = (Err e, s)"

definition slift :: "('a, 'e) res \<Rightarrow> ('a, 'e, 's) op" where
  "slift r s = (r, s)"

definition sbind :: "('a, 'e, 's) op \<Rightarrow> ('a \<Rightarrow> ('b, 'e, 's) op) \<Rightarrow> ('b, 'e, 's) op" where
  "sbind m f s = (case m s of (r, s') \<Rightarrow> (case r of Inl e \<Rightarrow> (Inl e, s') | Inr v \<Rightarrow> f v s'))"

lemma sreturn_apply [simp]: "sreturn v s = (Ok v, s)"
  by (simp add: sreturn_def)

lemma sthrow_apply [simp]: "sthrow e s = (Err e, s)"
  by (simp add: sthrow_def)

lemma slift_apply [simp]: "slift r s = (r, s)"
  by (simp add: slift_def)

lemma sbind_simps [simp]:
  "m s = (Inl e, s') \<Longrightarrow> sbind m f s = (Inl e, s')"
  "m s = (Inr v, s') \<Longrightarrow> sbind m f s = f v s'"
  by (simp_all add: sbind_def)

lemma sbind_eq_Ok:
  "sbind m f s = (Ok b, s'') \<longleftrightarrow> (\<exists>a s'. m s = (Ok a, s') \<and> f a s' = (Ok b, s''))"
  by (auto simp: sbind_def split: prod.splits sum.splits)

lemma sbind_eq_Inl:
  "sbind m f s = (Inl e, s'') \<longleftrightarrow>
     m s = (Inl e, s'') \<or> (\<exists>a s'. m s = (Ok a, s') \<and> f a s' = (Inl e, s''))"
  by (auto simp: sbind_def split: prod.splits sum.splits)

text \<open>\<open>From\<close> conversions of the error type, which the question mark inserts.\<close>

fun map_err :: "('e \<Rightarrow> 'f) \<Rightarrow> ('a, 'e) res \<Rightarrow> ('a, 'f) res" where
  "map_err g (Inl (Fail e)) = Inl (Fail (g e))"
| "map_err g (Inl Panic) = Inl Panic"
| "map_err g (Inr v) = Inr v"

lemma map_err_eq_Ok [simp]: "map_err g r = Ok v \<longleftrightarrow> r = Ok v"
  by (cases "(g, r)" rule: map_err.cases) auto

lemma map_err_eq_panic [simp]: "map_err g r = panic \<longleftrightarrow> r = panic"
  by (cases "(g, r)" rule: map_err.cases) auto

lemma map_err_eq_Err: "map_err g r = Err e \<longleftrightarrow> (\<exists>e'. r = Err e' \<and> e = g e')"
  by (cases "(g, r)" rule: map_err.cases) auto

section \<open>Checked accesses and arithmetic\<close>

definition idx :: "'a list \<Rightarrow> nat \<Rightarrow> ('a, 'e) res" where
  "idx xs i = (if i < length xs then Ok (xs ! i) else panic)"

definition slice :: "'a list \<Rightarrow> nat \<Rightarrow> nat \<Rightarrow> ('a list, 'e) res" where
  "slice xs a b = (if a \<le> b \<and> b \<le> length xs then Ok (take (b - a) (drop a xs)) else panic)"

definition usize_sub :: "bool \<Rightarrow> nat \<Rightarrow> nat \<Rightarrow> (nat, 'e) res" where
  "usize_sub dbg a b =
     (if b \<le> a then Ok (a - b) else if dbg then panic else Ok (2 ^ 64 + a - b))"

definition u8_add :: "bool \<Rightarrow> u8 \<Rightarrow> u8 \<Rightarrow> (u8, 'e) res" where
  "u8_add dbg a b = (if dbg \<and> 256 \<le> unat a + unat b then panic else Ok (a + b))"

definition u32_add :: "bool \<Rightarrow> u32 \<Rightarrow> u32 \<Rightarrow> (u32, 'e) res" where
  "u32_add dbg a b = (if dbg \<and> 2 ^ 32 \<le> unat a + unat b then panic else Ok (a + b))"

lemma idx_Ok [simp]: "i < length xs \<Longrightarrow> idx xs i = Ok (xs ! i)"
  by (simp add: idx_def)

lemma slice_Ok [simp]:
  "a \<le> b \<Longrightarrow> b \<le> length xs \<Longrightarrow> slice xs a b = Ok (take (b - a) (drop a xs))"
  by (simp add: slice_def)

lemma usize_sub_Ok [simp]: "b \<le> a \<Longrightarrow> usize_sub dbg a b = Ok (a - b)"
  by (simp add: usize_sub_def)

lemma u8_add_release [simp]: "u8_add False a b = Ok (a + b)"
  by (simp add: u8_add_def)

lemma u8_add_Ok: "unat a + unat b < 256 \<Longrightarrow> u8_add dbg a b = Ok (a + b)"
  by (simp add: u8_add_def)

text \<open>\<open>Vec::resize\<close>: truncate or fill up.\<close>

definition vec_resize :: "nat \<Rightarrow> 'a \<Rightarrow> 'a list \<Rightarrow> 'a list" where
  "vec_resize n x xs = take n xs @ replicate (n - length xs) x"

lemma length_vec_resize [simp]: "length (vec_resize n x xs) = n"
  by (simp add: vec_resize_def)

lemma vec_resize_ge: "length xs \<le> n \<Longrightarrow> vec_resize n x xs = xs @ replicate (n - length xs) x"
  by (simp add: vec_resize_def)

text \<open>\<open>option\<close> values as a Rust \<open>usize\<close>: \<open>o.is_some() as usize\<close>.\<close>

definition is_some_n :: "'a option \<Rightarrow> nat" where
  "is_some_n x = (case x of None \<Rightarrow> 0 | Some _ \<Rightarrow> 1)"

lemma is_some_n_simps [simp]: "is_some_n None = 0" "is_some_n (Some x) = 1"
  by (simp_all add: is_some_n_def)

lemma is_some_n_le [simp]: "is_some_n x \<le> Suc 0"
  by (cases x) simp_all

lemma is_some_n_less [simp]: "Suc 0 < n \<Longrightarrow> is_some_n x < n"
  by (rule le_less_trans [OF is_some_n_le])

section \<open>Byte order\<close>

definition u16_le :: "u16 \<Rightarrow> bytes" where
  "u16_le v = [ucast v, ucast (drop_bit 8 v)]"

text \<open>\<open>(n as u16).to_le_bytes()\<close>: the cast keeps the low sixteen bits.\<close>

definition len16 :: "nat \<Rightarrow> bytes" where
  "len16 n = u16_le (of_nat n)"

definition u16_be :: "u16 \<Rightarrow> bytes" where
  "u16_be v = [ucast (drop_bit 8 v), ucast v]"

definition u32_le :: "u32 \<Rightarrow> bytes" where
  "u32_le v = [ucast v, ucast (drop_bit 8 v), ucast (drop_bit 16 v), ucast (drop_bit 24 v)]"

definition u32_be :: "u32 \<Rightarrow> bytes" where
  "u32_be v = [ucast (drop_bit 24 v), ucast (drop_bit 16 v), ucast (drop_bit 8 v), ucast v]"

text \<open>\<open>u32::from_le_bytes\<close> and \<open>u32::from_be_bytes\<close> of a four-byte array.\<close>

definition u32_from_le :: "bytes \<Rightarrow> u32" where
  "u32_from_le b =
     ucast (b ! 0) OR push_bit 8 (ucast (b ! 1)) OR push_bit 16 (ucast (b ! 2))
       OR push_bit 24 (ucast (b ! 3))"

definition u32_from_be :: "bytes \<Rightarrow> u32" where
  "u32_from_be b = u32_from_le (rev (take 4 b))"

lemma length_byte_order [simp]:
  "length (u16_le v) = 2" "length (u16_be v) = 2"
  "length (u32_le w) = 4" "length (u32_be w) = 4" "length (len16 n) = 2"
  by (simp_all add: len16_def u16_le_def u16_be_def u32_le_def u32_be_def)

lemma u32_be_rev: "u32_be v = rev (u32_le v)"
  by (simp add: u32_be_def u32_le_def)

lemma u32_from_le_le [simp]: "u32_from_le (u32_le v @ r) = v"
proof (rule bit_word_eqI)
  fix n
  assume "n < LENGTH(32)"
  then have "n < 8 \<or> 8 \<le> n \<and> n < 16 \<or> 16 \<le> n \<and> n < 24 \<or> 24 \<le> n \<and> n < 32"
    by auto
  then show "bit (u32_from_le (u32_le v @ r)) n = bit v n"
    by (auto simp: u32_from_le_def u32_le_def bit_simps)
qed

lemma u32_from_le_le' [simp]: "u32_from_le (u32_le v) = v"
  using u32_from_le_le [of v "[]"] by simp

lemma u32_from_be_be [simp]: "u32_from_be (u32_be v) = v"
  by (simp add: u32_from_be_def u32_be_rev)

lemma u32_le_inject [simp]: "u32_le v = u32_le w \<longleftrightarrow> v = w"
  using u32_from_le_le' by metis

lemma u32_be_inject [simp]: "u32_be v = u32_be w \<longleftrightarrow> v = w"
  using u32_from_be_be by metis

section \<open>Words\<close>

lemma unat_u8_less [simp]: "unat (x :: u8) < 256"
  using unsigned_less [of x] by simp

lemma unat_of_nat_u8: "n < 256 \<Longrightarrow> unat (of_nat n :: u8) = n"
  by (simp add: unat_of_nat)

lemma unat_of_nat_u16: "n < 65536 \<Longrightarrow> unat (of_nat n :: u16) = n"
  by (simp add: unat_of_nat)

lemma or_push_bit_nat_add:
  assumes "a < 2 ^ k"
  shows "a OR push_bit k b = a + push_bit k (b :: nat)"
proof (rule disjunctive_add [symmetric])
  fix n
  from assms have "take_bit k a = a"
    by (simp add: take_bit_nat_eq_self)
  then have "bit a n \<Longrightarrow> n < k"
    by (metis bit_take_bit_iff)
  then show "\<not> bit a n \<or> \<not> bit (push_bit k b) n"
    by (auto simp: bit_push_bit_iff)
qed

lemma len16_split:
  obtains l0 l1 where "len16 n = [l0, l1]"
    and "n < 65536 \<Longrightarrow> unat l0 + 256 * unat l1 = n"
proof
  let ?w = "of_nat n :: u16"
  show "len16 n = [ucast ?w, ucast (drop_bit 8 ?w)]"
    by (simp add: len16_def u16_le_def)
  assume "n < 65536"
  then have n: "unat ?w = n"
    by (rule unat_of_nat_u16)
  have "unat (ucast ?w :: u8) = n mod 256"
    using n by (simp add: unsigned_ucast_eq take_bit_eq_mod)
  moreover have "unat (ucast (drop_bit 8 ?w) :: u8) = n div 256"
  proof -
    have "unat (drop_bit 8 ?w) = drop_bit 8 n"
      using n \<open>n < 65536\<close> by (simp add: unsigned_drop_bit_eq take_bit_eq_mod)
    with \<open>n < 65536\<close> show ?thesis
      by (simp add: unsigned_ucast_eq take_bit_eq_mod drop_bit_eq_div [of 8 n])
  qed
  ultimately show "unat (ucast ?w :: u8) + 256 * unat (ucast (drop_bit 8 ?w) :: u8) = n"
    by simp
qed

lemma unat_or_shift8: "unat (a :: u8) OR push_bit 8 n = unat a + 256 * n"
proof -
  have "unat a < 2 ^ 8"
    by simp
  from or_push_bit_nat_add [OF this, of n] show ?thesis
    by (simp add: push_bit_eq_mult mult.commute)
qed

section \<open>Lists\<close>

lemma take_Suc_drop_nth: "n < length xs \<Longrightarrow> take (Suc k) (drop n xs) = xs ! n # take k (drop (Suc n) xs)"
  by (metis Cons_nth_drop_Suc take_Suc_Cons)

lemma take_min_length [simp]: "take (min n (length xs)) xs = take n xs"
  by (simp add: min_def)

lemma take_drop_append_take: "take n xs @ take k (drop n xs) = take (n + k) xs"
  by (simp add: take_add)

end
