(* ===== verification/Wire_Types.thy ===== *)
theory Wire_Types
  imports Prelude
begin

text \<open>
  The value types of the wire and the error types: \<open>rmvci-core/src/types.rs\<close> and
  \<open>rmvci-core/src/error.rs\<close>. A Rust enum is a datatype with the source's
  constructors (renamed where two enums share one: \<open>CmdOpen\<close>, \<open>StTimeout\<close>), a
  bitflags word is a \<open>u32\<close> with the named bits, \<open>RxMsg\<close> is a record. The text of an
  operating-system error is opaque, a string.
\<close>

section \<open>Limits\<close>

definition MAX_MSG :: nat where "MAX_MSG = 4100"

definition MAX_INNER :: nat where "MAX_INNER = 4112"

definition MAX_FRAME :: nat where "MAX_FRAME = 3 + MAX_INNER"

definition ISO15765_ALIAS :: u32 where "ISO15765_ALIAS = 0x10000001"

section \<open>Protocols\<close>

datatype protocol_id = J1850Vpw | J1850Pwm | Iso9141 | Iso14230 | Can | Iso15765

text \<open>The discriminants of the \<open>repr(u32)\<close> enum.\<close>

fun wire :: "protocol_id \<Rightarrow> u32" where
  "wire J1850Vpw = 1"
| "wire J1850Pwm = 2"
| "wire Iso9141 = 3"
| "wire Iso14230 = 4"
| "wire Can = 5"
| "wire Iso15765 = 6"

text \<open>\<open>TryFrom<u32>\<close>; the error is \<open>InvalidProtocolId\<close> with the rejected value.\<close>

definition protocol_try_from :: "u32 \<Rightarrow> (protocol_id, u32) res" where
  "protocol_try_from v =
     (if v = 1 then Ok J1850Vpw
      else if v = 2 then Ok J1850Pwm
      else if v = 3 then Ok Iso9141
      else if v = 4 then Ok Iso14230
      else if v = 5 then Ok Can
      else if v = 6 \<or> v = ISO15765_ALIAS then Ok Iso15765
      else Err v)"

fun is_can :: "protocol_id \<Rightarrow> bool" where
  "is_can Can = True"
| "is_can Iso15765 = True"
| "is_can _ = False"

lemma wire_inject [simp]: "wire p = wire q \<longleftrightarrow> p = q"
  by (cases p; cases q) simp_all

lemma protocol_try_from_wire [simp]: "protocol_try_from (wire p) = Ok p"
  by (cases p) (simp_all add: protocol_try_from_def)

section \<open>Commands\<close>

datatype cmd = CmdOpen | CloseSession | ReadVersion | CmdConnect | CmdDisconnect | ReadMsg
  | WriteMsg | StartMsgFilter | StopMsgFilter | SetProgrammingVoltage | Ioctl
  | StartPeriodicMsg | StopPeriodicMsg

fun cmd_u8 :: "cmd \<Rightarrow> u8" where
  "cmd_u8 CmdOpen = 0x01"
| "cmd_u8 CloseSession = 0x02"
| "cmd_u8 ReadVersion = 0x03"
| "cmd_u8 CmdConnect = 0x07"
| "cmd_u8 CmdDisconnect = 0x08"
| "cmd_u8 ReadMsg = 0x09"
| "cmd_u8 WriteMsg = 0x0a"
| "cmd_u8 StartMsgFilter = 0x0b"
| "cmd_u8 StopMsgFilter = 0x0c"
| "cmd_u8 SetProgrammingVoltage = 0x0d"
| "cmd_u8 Ioctl = 0x0e"
| "cmd_u8 StartPeriodicMsg = 0x0f"
| "cmd_u8 StopPeriodicMsg = 0x10"

lemma cmd_u8_inject [simp]: "cmd_u8 c = cmd_u8 d \<longleftrightarrow> c = d"
  by (cases c; cases d) simp_all

section \<open>Device status\<close>

datatype device_status = NoError | NotSupported | InvalidChannelId | NullParameter | StFailed
  | DeviceNotConnected | StTimeout | InvalidMsg | InvalidMsgId | StBufferEmpty | BufferFull
  | ChannelInUse | InvalidFilterId | InvalidDeviceId | Unknown u8

definition device_status_from :: "u8 \<Rightarrow> device_status" where
  "device_status_from v =
     (if v = 0x00 then NoError
      else if v = 0x01 then NotSupported
      else if v = 0x02 then InvalidChannelId
      else if v = 0x04 then NullParameter
      else if v = 0x07 then StFailed
      else if v = 0x08 then DeviceNotConnected
      else if v = 0x09 then StTimeout
      else if v = 0x0a then InvalidMsg
      else if v = 0x0d then InvalidMsgId
      else if v = 0x10 then StBufferEmpty
      else if v = 0x11 then BufferFull
      else if v = 0x14 then ChannelInUse
      else if v = 0x16 then InvalidFilterId
      else if v = 0x1a then InvalidDeviceId
      else Unknown v)"

definition status_is_ok :: "device_status \<Rightarrow> bool" where
  "status_is_ok s \<longleftrightarrow> s = NoError"

fun status_code :: "device_status \<Rightarrow> u8" where
  "status_code NoError = 0x00"
| "status_code NotSupported = 0x01"
| "status_code InvalidChannelId = 0x02"
| "status_code NullParameter = 0x04"
| "status_code StFailed = 0x07"
| "status_code DeviceNotConnected = 0x08"
| "status_code StTimeout = 0x09"
| "status_code InvalidMsg = 0x0a"
| "status_code InvalidMsgId = 0x0d"
| "status_code StBufferEmpty = 0x10"
| "status_code BufferFull = 0x11"
| "status_code ChannelInUse = 0x14"
| "status_code InvalidFilterId = 0x16"
| "status_code InvalidDeviceId = 0x1a"
| "status_code (Unknown v) = v"

lemma status_code_from [simp]: "status_code (device_status_from v) = v"
  by (simp add: device_status_from_def)

lemma status_is_ok_from: "status_is_ok (device_status_from v) \<longleftrightarrow> v = 0"
  by (simp add: device_status_from_def status_is_ok_def)

section \<open>Flag words, messages\<close>

definition NOT_DATA :: u32 where "NOT_DATA = 0x0002"
definition RX_ADDR_TYPE :: u32 where "RX_ADDR_TYPE = 0x0080"
definition CAN_29BIT :: u32 where "CAN_29BIT = 0x0100"

definition ISO15765_FRAME_PAD :: u32 where "ISO15765_FRAME_PAD = 0x0040"
definition ISO15765_ADDR_TYPE :: u32 where "ISO15765_ADDR_TYPE = 0x0080"
definition CAN_29BIT_ID :: u32 where "CAN_29BIT_ID = 0x0100"

text \<open>\<open>bitflags\<close>' \<open>contains\<close>.\<close>

definition flags_contain :: "u32 \<Rightarrow> u32 \<Rightarrow> bool" where
  "flags_contain s f \<longleftrightarrow> s AND f = f"

datatype filter_type = Pass | Block | FlowControl

fun filter_type_u32 :: "filter_type \<Rightarrow> u32" where
  "filter_type_u32 Pass = 1"
| "filter_type_u32 Block = 2"
| "filter_type_u32 FlowControl = 3"

record rx_msg =
  rx_status :: u32
  rx_data :: bytes

definition is_indication :: "rx_msg \<Rightarrow> bool" where
  "is_indication m \<longleftrightarrow> flags_contain (rx_status m) NOT_DATA"

section \<open>Errors\<close>

datatype io_error_kind = UnexpectedEof | InvalidData | InvalidInput | TimedOut | OtherIo

datatype transport_error =
    Io io_error_kind string
  | OpenFailed string string

datatype codec_error =
    TooShort nat
  | TooLong nat
  | LengthMismatch nat nat
  | BadChecksum u8 u8
  | BadEncryptedChecksum u8 u8 u8
  | BadCipherLength nat
  | BadIdLen protocol_id nat
  | FilterFieldTooShort nat nat
  | MsgTooLong nat
  | MalformedReply string

datatype isotp_error =
    PayloadTooLong nat
  | FirmwareFfDlLimit nat
  | FcTimeout
  | CfTimeout
  | WaitLimit u8
  | Overflow
  | SequenceError u8 u8
  | Malformed string

datatype error =
    Transport transport_error
  | Codec codec_error
  | Protocol u32
  | IsoTpErr isotp_error
  | Timeout duration
  | Rejected cmd device_status
  | NoFilterInstalled protocol_id
  | BufferEmpty
  | Wedged u8
  | Closed

end
