(* ===== verification/Frame.thy ===== *)
theory Frame
  imports Wire_Types
begin

text \<open>
  The outer wire frame \<open>[LEN u16 LE][PAYLOAD][XORSUM]\<close>: \<open>rmvci-core/src/codec/frame.rs\<close>
  and the block loop of \<open>codec/crypto.rs\<close>. The DES primitive is the external crate
  \<open>des\<close>: its two block functions are the arguments \<open>enc\<close> and \<open>dec\<close> (key, block), and
  the only thing assumed of them is \<open>block_cipher\<close>, that decryption inverts encryption
  on eight-byte blocks and keeps the length.
\<close>

section \<open>Definitions\<close>

definition xorsum :: "bytes \<Rightarrow> u8" where
  "xorsum bs = foldl (\<lambda>c b. c XOR b) 0 bs"

definition rd_u16 :: "bytes \<Rightarrow> (nat, 'e) res" where
  "rd_u16 p = rbind (idx p 0) (\<lambda>lo. rbind (idx p 1) (\<lambda>hi. Ok (unat lo OR push_bit 8 (unat hi))))"

definition encode_plain :: "bytes \<Rightarrow> (bytes, codec_error) res" where
  "encode_plain payload =
     (let total = length payload + 3 in
      if total > 0xffff then Err (TooLong total)
      else let out = len16 total @ payload in Ok (out @ [xorsum out]))"

text \<open>
  \<open>as_chunks_mut::<8>().0\<close>: the whole eight-byte blocks, each replaced in place; a
  shorter rest is left alone. The debug assertion on the length comes first.
\<close>

function block_map :: "(bytes \<Rightarrow> bytes) \<Rightarrow> bytes \<Rightarrow> bytes" where
  "block_map f buf =
     (if length buf < 8 then buf else f (take 8 buf) @ block_map f (drop 8 buf))"
  by pat_completeness auto
termination
  by (relation "measure (\<lambda>(f, buf). length buf)") auto

declare block_map.simps [simp del]

definition crypt_in_place :: "bool \<Rightarrow> (bytes \<Rightarrow> bytes \<Rightarrow> bytes) \<Rightarrow> bytes \<Rightarrow> bytes \<Rightarrow> (bytes, 'e) res" where
  "crypt_in_place dbg f key buf =
     (if dbg \<and> length buf mod 8 \<noteq> 0 then panic else Ok (block_map (f key) buf))"

definition encode_encrypted ::
  "bool \<Rightarrow> (bytes \<Rightarrow> bytes \<Rightarrow> bytes) \<Rightarrow> bytes \<Rightarrow> bytes \<Rightarrow> (bytes, codec_error) res" where
  "encode_encrypted dbg enc key inner =
     (let clen = (length inner + 7) div 8 * 8; total = clen + 3 in
      if total > 0xffff then Err (TooLong total)
      else let hdr = len16 total;
               out = vec_resize (2 + clen) 0 (hdr @ inner)
           in rbind (crypt_in_place dbg enc key (drop 2 out)) (\<lambda>c.
              let out = take 2 out @ c in Ok (out @ [xorsum out])))"

definition decode_plain :: "bytes \<Rightarrow> (bytes, codec_error) res" where
  "decode_plain frame =
     (if length frame < 3 then Err (TooShort (length frame))
      else rbind (rd_u16 frame) (\<lambda>field.
        if field \<noteq> length frame then Err (LengthMismatch field (length frame))
        else rbind (slice frame 0 (length frame - 1)) (\<lambda>body.
          rbind (idx frame (length frame - 1)) (\<lambda>wire.
            let computed = xorsum body in
            if computed \<noteq> wire then Err (BadChecksum wire computed)
            else slice frame 2 (length frame - 1)))))"

definition decode_encrypted ::
  "bool \<Rightarrow> (bytes \<Rightarrow> bytes \<Rightarrow> bytes) \<Rightarrow> bytes \<Rightarrow> bytes \<Rightarrow> (bytes, codec_error) res" where
  "decode_encrypted dbg dec key frame =
     (if length frame < 3 then Err (TooShort (length frame))
      else rbind (rd_u16 frame) (\<lambda>field.
        if field \<noteq> length frame then Err (LengthMismatch field (length frame))
        else let plen = length frame - 3 in
        if plen = 0 \<or> plen mod 8 \<noteq> 0 then Err (BadCipherLength plen)
        else
          rbind (idx frame (length frame - 1)) (\<lambda>wire.
          rbind (slice frame 0 (length frame - 1)) (\<lambda>body.
          rbind (slice frame 2 (length frame - 1)) (\<lambda>ct.
          rbind (crypt_in_place dbg dec key ct) (\<lambda>inner.
          rbind (idx frame 0) (\<lambda>l0.
          rbind (idx frame 1) (\<lambda>l1.
            let cipher_sum = xorsum body; plain_sum = l0 XOR l1 XOR xorsum inner in
            if wire \<noteq> cipher_sum \<and> wire \<noteq> plain_sum
            then Err (BadEncryptedChecksum wire cipher_sum plain_sum)
            else Ok inner))))))))"

section \<open>Checksums and length fields\<close>

lemma xorsum_foldl: "foldl (\<lambda>c b. c XOR b) a bs = a XOR xorsum bs"
proof (induction bs arbitrary: a)
  case Nil
  then show ?case by (simp add: xorsum_def)
next
  case (Cons b bs)
  have "foldl (\<lambda>c b. c XOR b) a (b # bs) = (a XOR b) XOR xorsum bs"
    using Cons [of "a XOR b"] by simp
  moreover have "xorsum (b # bs) = b XOR xorsum bs"
    using Cons [of "0 XOR b"] by (simp add: xorsum_def)
  ultimately show ?case by (simp add: ac_simps)
qed

lemma xorsum_Nil [simp]: "xorsum [] = 0"
  by (simp add: xorsum_def)

lemma xorsum_Cons [simp]: "xorsum (b # bs) = b XOR xorsum bs"
  using xorsum_foldl [of "0 XOR b" bs] by (simp add: xorsum_def)

lemma xorsum_append [simp]: "xorsum (bs @ cs) = xorsum bs XOR xorsum cs"
  by (induction bs) (simp_all add: ac_simps)

lemma rd_u16_Cons [simp]: "rd_u16 (l0 # l1 # r) = Ok (unat l0 + 256 * unat l1)"
  by (simp add: rd_u16_def unat_or_shift8)

text \<open>The value of a length field, where it can be read.\<close>

definition len_field :: "bytes \<Rightarrow> nat" where
  "len_field p = unat (p ! 0) + 256 * unat (p ! 1)"

lemma len_field_Cons [simp]: "len_field (l0 # l1 # r) = unat l0 + 256 * unat l1"
  by (simp add: len_field_def)

lemma rd_u16_eq: "2 \<le> length p \<Longrightarrow> rd_u16 p = Ok (len_field p)"
  by (cases p; cases "tl p") auto

lemma len_field_append: "2 \<le> length p \<Longrightarrow> len_field (p @ r) = len_field p"
  by (cases p; cases "tl p") auto

lemma rd_u16_len16 [simp]: "n < 65536 \<Longrightarrow> rd_u16 (len16 n @ r) = Ok n"
  by (rule len16_split [of n]) simp

lemma len_field_len16 [simp]: "n < 65536 \<Longrightarrow> len_field (len16 n @ r) = n"
  by (rule len16_split [of n]) simp

lemma rd_u16_not_panic: "2 \<le> length p \<Longrightarrow> rd_u16 p \<noteq> panic"
  by (simp add: rd_u16_eq)

text \<open>A frame is at least a length field, a body and a checksum byte.\<close>

lemma frame_split:
  assumes "3 \<le> length frame"
  obtains l0 l1 p c where "frame = l0 # l1 # p @ [c]"
proof -
  from assms obtain l0 l1 r where f: "frame = l0 # l1 # r" and "r \<noteq> []"
    by (cases frame; cases "tl frame"; force)
  moreover from \<open>r \<noteq> []\<close> obtain p c where "r = p @ [c]"
    by (cases r rule: rev_cases) auto
  ultimately show thesis using that by blast
qed

section \<open>Plain frames\<close>

lemma encode_plain_Ok:
  "length payload + 3 \<le> 0xffff \<Longrightarrow>
   encode_plain payload =
     Ok (len16 (length payload + 3) @ payload @ [xorsum (len16 (length payload + 3) @ payload)])"
  by (simp add: encode_plain_def Let_def)

lemma decode_plain_frame:
  "decode_plain (l0 # l1 # p @ [c]) =
     (if unat l0 + 256 * unat l1 \<noteq> length p + 3
      then Err (LengthMismatch (unat l0 + 256 * unat l1) (length p + 3))
      else if l0 XOR l1 XOR xorsum p \<noteq> c then Err (BadChecksum c (l0 XOR l1 XOR xorsum p))
      else Ok p)"
  by (simp add: decode_plain_def Let_def nth_append)

lemma decode_plain_short: "length frame < 3 \<Longrightarrow> decode_plain frame = Err (TooShort (length frame))"
  by (simp add: decode_plain_def)

lemma decode_plain_Ok_iff:
  "decode_plain frame = Ok payload \<longleftrightarrow>
     (\<exists>l0 l1 c. frame = l0 # l1 # payload @ [c]
        \<and> unat l0 + 256 * unat l1 = length frame
        \<and> c = xorsum (l0 # l1 # payload))"
proof (cases "length frame < 3")
  case True
  then show ?thesis by (auto simp: decode_plain_short)
next
  case False
  then obtain l0 l1 p c where "frame = l0 # l1 # p @ [c]"
    using frame_split [of frame] by (metis not_less)
  then show ?thesis by (auto simp: decode_plain_frame)
qed

lemma decode_plain_encode: "encode_plain payload = Ok f \<Longrightarrow> decode_plain f = Ok payload"
  by (rule len16_split [of "length payload + 3"])
    (auto simp: encode_plain_def Let_def decode_plain_Ok_iff split: if_splits)

lemma decode_plain_not_panic: "decode_plain frame \<noteq> panic"
proof (cases "length frame < 3")
  case False
  then obtain l0 l1 p c where "frame = l0 # l1 # p @ [c]"
    using frame_split [of frame] by (metis not_less)
  then show ?thesis by (simp add: decode_plain_frame)
qed (simp add: decode_plain_short)

section \<open>Block ciphers\<close>

text \<open>What the codec relies on from the \<open>des\<close> crate.\<close>

definition block_cipher :: "(bytes \<Rightarrow> bytes \<Rightarrow> bytes) \<Rightarrow> (bytes \<Rightarrow> bytes \<Rightarrow> bytes) \<Rightarrow> bool" where
  "block_cipher enc dec \<longleftrightarrow>
     (\<forall>key block. length block = 8 \<longrightarrow>
        length (enc key block) = 8 \<and> length (dec key block) = 8
        \<and> dec key (enc key block) = block)"

lemma length_block_map:
  "(\<And>b. length b = 8 \<Longrightarrow> length (f b) = 8) \<Longrightarrow> length (block_map f buf) = length buf"
proof (induction f buf rule: block_map.induct)
  case (1 f buf)
  show ?case
  proof (cases "length buf < 8")
    case False
    with 1 have "length (block_map f (drop 8 buf)) = length (drop 8 buf)" by blast
    with False 1(2) [of "take 8 buf"] show ?thesis
      by (simp add: block_map.simps [of f buf])
  qed (simp add: block_map.simps)
qed

lemma block_map_inverse:
  assumes "\<And>b. length b = 8 \<Longrightarrow> length (f b) = 8" and "\<And>b. length b = 8 \<Longrightarrow> g (f b) = b"
  shows "block_map g (block_map f buf) = buf"
  using assms
proof (induction f buf rule: block_map.induct)
  case (1 f buf)
  show ?case
  proof (cases "length buf < 8")
    case True
    then show ?thesis by (simp add: block_map.simps)
  next
    case False
    have f: "length (f (take 8 buf)) = 8" "g (f (take 8 buf)) = take 8 buf"
      using False 1(2,3) [of "take 8 buf"] by simp_all
    have "block_map g (block_map f (drop 8 buf)) = drop 8 buf"
      using 1 False by blast
    moreover have "block_map f buf = f (take 8 buf) @ block_map f (drop 8 buf)"
      using False by (simp add: block_map.simps [of f buf])
    moreover have "block_map g (f (take 8 buf) @ r) = take 8 buf @ block_map g r" for r
      using f by (simp add: block_map.simps [of g "f (take 8 buf) @ r"])
    ultimately show ?thesis by simp
  qed
qed

lemma block_cipher_length:
  "block_cipher enc dec \<Longrightarrow> length (block_map (enc key) buf) = length buf"
  "block_cipher enc dec \<Longrightarrow> length (block_map (dec key) buf) = length buf"
  by (rule length_block_map; simp add: block_cipher_def)+

lemma block_cipher_inverse:
  "block_cipher enc dec \<Longrightarrow> block_map (dec key) (block_map (enc key) buf) = buf"
  by (rule block_map_inverse) (simp_all add: block_cipher_def)

section \<open>Encrypted frames\<close>

definition pad8 :: "nat \<Rightarrow> nat" where
  "pad8 n = (n + 7) div 8 * 8"

lemma pad8_props: "pad8 n mod 8 = 0" "n \<le> pad8 n" "pad8 n < n + 8" "pad8 n = 0 \<longleftrightarrow> n = 0"
  unfolding pad8_def by presburger+

lemma pad8_mono: "m \<le> n \<Longrightarrow> pad8 m \<le> pad8 n"
  unfolding pad8_def by (simp add: div_le_mono)

definition padded :: "bytes \<Rightarrow> bytes" where
  "padded inner = inner @ replicate (pad8 (length inner) - length inner) 0"

lemma length_padded [simp]: "length (padded inner) = pad8 (length inner)"
  using pad8_props(2) [of "length inner"] by (simp add: padded_def)

lemma crypt_padded [simp]:
  "crypt_in_place dbg f key (padded inner) = Ok (block_map (f key) (padded inner))"
  by (simp add: crypt_in_place_def pad8_props)

lemma encode_encrypted_eq:
  "encode_encrypted dbg enc key inner =
     (let total = pad8 (length inner) + 3;
          body = len16 total @ block_map (enc key) (padded inner) in
      if total > 0xffff then Err (TooLong total) else Ok (body @ [xorsum body]))"
proof -
  have "vec_resize (2 + pad8 (length inner)) 0 (len16 n @ inner) = len16 n @ padded inner" for n
    using pad8_props(2) [of "length inner"] by (simp add: vec_resize_ge padded_def)
  then show ?thesis
    by (simp add: encode_encrypted_def Let_def pad8_def [symmetric])
qed

lemma encode_encrypted_total:
  "pad8 (length inner) \<le> 65532 \<Longrightarrow> \<exists>f. encode_encrypted dbg enc key inner = Ok f"
  by (simp add: encode_encrypted_eq Let_def)

text \<open>The decoder on a frame split into length field, body and checksum byte.\<close>

lemma decode_encrypted_frame:
  "decode_encrypted dbg dec key (l0 # l1 # p @ [c]) =
     (let field = unat l0 + 256 * unat l1; inner = block_map (dec key) p;
          cs = l0 XOR l1 XOR xorsum p; ps = l0 XOR l1 XOR xorsum inner in
      if field \<noteq> length p + 3 then Err (LengthMismatch field (length p + 3))
      else if p = [] \<or> length p mod 8 \<noteq> 0 then Err (BadCipherLength (length p))
      else if c \<noteq> cs \<and> c \<noteq> ps then Err (BadEncryptedChecksum c cs ps)
      else Ok inner)"
  by (auto simp: decode_encrypted_def Let_def nth_append crypt_in_place_def ac_simps)

lemma decode_encrypted_short:
  "length frame < 3 \<Longrightarrow> decode_encrypted dbg dec key frame = Err (TooShort (length frame))"
  by (simp add: decode_encrypted_def)

lemma decode_encrypted_cases:
  obtains "length frame < 3" "decode_encrypted dbg dec key frame = Err (TooShort (length frame))"
  | l0 l1 p c where "frame = l0 # l1 # p @ [c]"
  using frame_split [of frame] decode_encrypted_short [of frame] by (metis not_less)

lemma encrypted_decodes:
  assumes "block_cipher enc dec" and "inner \<noteq> []" and "encode_encrypted dbg enc key inner = Ok f"
  shows "decode_encrypted dbg dec key f = Ok (padded inner)"
proof -
  let ?n = "pad8 (length inner) + 3"
  let ?ct = "block_map (enc key) (padded inner)"
  obtain l0 l1 where l: "len16 ?n = [l0, l1]" "?n < 65536 \<Longrightarrow> unat l0 + 256 * unat l1 = ?n"
    by (rule len16_split [of ?n], rule that)
  from assms(3) l(1) have n: "?n \<le> 0xffff"
    and f: "f = l0 # l1 # ?ct @ [l0 XOR l1 XOR xorsum ?ct]"
    by (auto simp: encode_encrypted_eq Let_def ac_simps split: if_splits)
  have ct: "length ?ct = pad8 (length inner)" "block_map (dec key) ?ct = padded inner"
    using assms(1) by (simp_all add: block_cipher_length block_cipher_inverse)
  have "?ct \<noteq> []"
    using ct(1) assms(2) by (metis length_0_conv pad8_props(4))
  then show ?thesis
    using f ct n l(2) by (simp add: decode_encrypted_frame Let_def pad8_props)
qed

lemma decode_encrypted_not_panic: "decode_encrypted dbg dec key frame \<noteq> panic"
  by (cases rule: decode_encrypted_cases [of frame dbg dec key])
    (auto simp: decode_encrypted_frame Let_def)

section \<open>Properties\<close>

text \<open>C18: an encrypted frame decodes, with the same key, to the inner command padded with
  zeros to the block size, whatever the key and the length (above 255 bytes too).\<close>

theorem encrypted_round_trip:
  assumes "block_cipher enc dec" and "inner \<noteq> []" and "encode_encrypted dbg enc key inner = Ok f"
  shows "decode_encrypted dbg dec key f = Ok (padded inner)"
  using assms by (rule encrypted_decodes)

definition xor_cipher :: "bytes \<Rightarrow> bytes \<Rightarrow> bytes" where
  "xor_cipher key block = map2 (XOR) block (take 8 (key @ replicate 8 0))"

lemma map2_xor_cancel: "length xs \<le> length ys \<Longrightarrow> map2 (XOR) (map2 (XOR) xs ys) ys = (xs :: bytes)"
proof (induction xs arbitrary: ys)
  case (Cons x xs)
  then show ?case by (cases ys) (simp_all add: xor.assoc)
qed simp

lemma xor_cipher_block: "block_cipher xor_cipher xor_cipher"
  by (simp add: block_cipher_def xor_cipher_def map2_xor_cancel)

theorem encrypted_round_trip_witness:
  "\<exists>f. encode_encrypted True xor_cipher [1, 2, 3, 4, 5, 6, 7, 8] [0xAA, 0xBB] = Ok f
     \<and> decode_encrypted True xor_cipher [1, 2, 3, 4, 5, 6, 7, 8] f = Ok [0xAA, 0xBB, 0, 0, 0, 0, 0, 0]"
proof -
  let ?k = "[1, 2, 3, 4, 5, 6, 7, 8] :: bytes" and ?i = "[0xAA, 0xBB] :: bytes"
  have "\<exists>f. encode_encrypted True xor_cipher ?k ?i = Ok f"
    by (rule encode_encrypted_total) (simp add: pad8_def)
  then obtain f where f: "encode_encrypted True xor_cipher ?k ?i = Ok f" ..
  have "decode_encrypted True xor_cipher ?k f = Ok (padded ?i)"
    by (rule encrypted_round_trip [OF xor_cipher_block _ f]) simp
  moreover have "padded ?i = [0xAA, 0xBB, 0, 0, 0, 0, 0, 0]"
    by code_simp
  ultimately show ?thesis
    using f by metis
qed

text \<open>C19: the decoder accepts exactly the frames whose length field is the frame length,
  whose body is a positive multiple of eight bytes and whose last byte is the XOR sum over
  the ciphertext (status replies) or over the plaintext (message replies), and it returns
  the decrypted body.\<close>

theorem decode_encrypted_accepts:
  "decode_encrypted dbg dec key frame = Ok inner \<longleftrightarrow>
     (\<exists>l0 l1 p c. frame = l0 # l1 # p @ [c]
        \<and> unat l0 + 256 * unat l1 = length frame
        \<and> p \<noteq> [] \<and> length p mod 8 = 0
        \<and> inner = block_map (dec key) p
        \<and> (c = xorsum (l0 # l1 # p) \<or> c = xorsum (l0 # l1 # inner)))"
proof (cases rule: decode_encrypted_cases [of frame dbg dec key])
  case 1
  then show ?thesis by auto
next
  case (2 l0 l1 p c)
  then show ?thesis
    by (auto simp: decode_encrypted_frame Let_def)
qed

text \<open>No byte string makes either decoder panic, in either build profile: every index
  and slice of the frame decoders is in range and the debug assertion of the block loop
  holds.\<close>

theorem decoders_never_panic:
  "decode_plain frame \<noteq> panic \<and> decode_encrypted dbg dec key frame \<noteq> panic"
  using decode_plain_not_panic decode_encrypted_not_panic by blast

text \<open>A plaintext (handshake) frame round-trips, and the encoder refuses exactly the
  payloads whose frame would not fit the sixteen-bit length field.\<close>

theorem plain_round_trip:
  "(length payload \<le> 65532 \<longleftrightarrow> (\<exists>f. encode_plain payload = Ok f))
   \<and> rbind (encode_plain payload) decode_plain
       = (if length payload \<le> 65532 then Ok payload else Err (TooLong (length payload + 3)))"
proof (cases "length payload \<le> 65532")
  case True
  then have "encode_plain payload =
      Ok (len16 (length payload + 3) @ payload @ [xorsum (len16 (length payload + 3) @ payload)])"
    by (simp add: encode_plain_Ok)
  with decode_plain_encode [OF this] True show ?thesis by simp
qed (simp add: encode_plain_def)

end
