(* ===== verification/Inner.thy ===== *)
theory Inner
  imports Frame
begin

text \<open>
  Inner command builders and reply parsers, \<open>rmvci-core/src/codec/inner.rs\<close>. A command is
  \<open>[ILEN u16 LE][CMD][ARGS]\<close> with \<open>ILEN = 1 + length ARGS\<close>; some builders add a pad byte
  that \<open>ILEN\<close> does not count. \<open>decode_command\<close> states that rule as a reference decoder,
  against which every builder is checked.
\<close>

section \<open>Builders\<close>

definition ilen :: "nat \<Rightarrow> bytes" where
  "ilen args = len16 (1 + args)"

definition identify :: bytes where
  "identify = ilen 6 @ [cmd_u8 CmdOpen] @ [0x4D, 0x56, 0x43, 0x49, 0x2D, 0x54]"

definition read_version :: bytes where
  "read_version = [0x01, 0x00, cmd_u8 ReadVersion]"

definition connect :: "protocol_id \<Rightarrow> u32 \<Rightarrow> u32 \<Rightarrow> bytes" where
  "connect proto flags baud =
     ilen 12 @ [cmd_u8 CmdConnect] @ u32_le (wire proto) @ u32_le flags @ u32_le baud"

definition disconnect :: "protocol_id \<Rightarrow> bytes" where
  "disconnect proto = ilen 4 @ [cmd_u8 CmdDisconnect] @ u32_le (wire proto) @ [0x00]"

definition session_close :: bytes where
  "session_close = [0x01, 0x00, cmd_u8 CloseSession, 0, 0, 0, 0, 0]"

definition read_poll :: "protocol_id \<Rightarrow> bytes" where
  "read_poll proto = ilen 4 @ [cmd_u8 ReadMsg] @ u32_le (wire proto) @ [0x00]"

definition write_msg :: "protocol_id \<Rightarrow> u32 \<Rightarrow> bytes \<Rightarrow> (bytes, codec_error) res" where
  "write_msg proto txflags msg =
     (if length msg > MAX_MSG then Err (MsgTooLong (length msg))
      else Ok (ilen (8 + length msg) @ [cmd_u8 WriteMsg] @ u32_le (wire proto) @ u32_le txflags @ msg))"

definition start_filter ::
  "protocol_id \<Rightarrow> u32 \<Rightarrow> u32 \<Rightarrow> bytes \<Rightarrow> bytes \<Rightarrow> bytes option \<Rightarrow> nat \<Rightarrow> (bytes, codec_error) res" where
  "start_filter proto filter_id ftype msk pattern flow idlen =
     (if \<not> (idlen = 1 \<or> idlen = 4 \<or> idlen = 5) \<or> (is_can proto \<and> idlen = 1)
      then Err (BadIdLen proto idlen)
      else case find (\<lambda>field. length field < idlen) ([msk, pattern] @ (case flow of None \<Rightarrow> [] | Some f \<Rightarrow> [f])) of
        Some field \<Rightarrow> Err (FilterFieldTooShort (length field) idlen)
      | None \<Rightarrow>
          rbind (slice msk 0 idlen) (\<lambda>m.
          rbind (slice pattern 0 idlen) (\<lambda>p.
          rbind (case flow of Some f \<Rightarrow> slice f 0 idlen | None \<Rightarrow> Ok (replicate idlen 0)) (\<lambda>fl.
            let args = 12 + 3 * idlen in
            Ok (ilen args @ [cmd_u8 StartMsgFilter] @ u32_le (wire proto) @ u32_le filter_id
                @ u32_le ftype @ m @ p @ fl)))))"

definition set_programming_voltage :: "u32 \<Rightarrow> u32 \<Rightarrow> bytes" where
  "set_programming_voltage pin millivolts =
     ilen 8 @ [cmd_u8 SetProgrammingVoltage] @ u32_le pin @ u32_le millivolts"

definition stop_filter :: "protocol_id \<Rightarrow> u32 \<Rightarrow> bytes" where
  "stop_filter proto filter_id =
     ilen 12 @ [cmd_u8 StopMsgFilter] @ u32_le (wire proto) @ u32_le filter_id @ u32_le 0"

definition start_periodic ::
  "protocol_id \<Rightarrow> u32 \<Rightarrow> u32 \<Rightarrow> u32 \<Rightarrow> bytes \<Rightarrow> (bytes, codec_error) res" where
  "start_periodic proto msg_id txflags interval_ms msg =
     (if length msg \<ge> 13 then Err (MsgTooLong (length msg))
      else Ok (ilen (16 + length msg) @ [cmd_u8 StartPeriodicMsg] @ u32_le (wire proto)
               @ u32_le msg_id @ u32_le txflags @ u32_le interval_ms @ msg))"

definition stop_periodic :: "protocol_id \<Rightarrow> u32 \<Rightarrow> bytes" where
  "stop_periodic proto msg_id =
     ilen 12 @ [cmd_u8 StopPeriodicMsg] @ u32_le (wire proto) @ u32_le msg_id @ u32_le 0"

definition set_config :: "protocol_id \<Rightarrow> u32 \<Rightarrow> u32 \<Rightarrow> bytes" where
  "set_config proto param v =
     ilen 13 @ [cmd_u8 Ioctl] @ [0x02] @ u32_le (wire proto) @ u32_le param @ u32_le v"

definition get_config :: "protocol_id \<Rightarrow> u32 \<Rightarrow> bytes" where
  "get_config proto param = ilen 9 @ [cmd_u8 Ioctl] @ [0x01] @ u32_le (wire proto) @ u32_le param"

definition read_vbatt :: "protocol_id \<Rightarrow> bytes" where
  "read_vbatt proto = ilen 5 @ [cmd_u8 Ioctl] @ [0x03] @ u32_le (wire proto)"

definition five_baud_init :: "protocol_id \<Rightarrow> bytes \<Rightarrow> bytes" where
  "five_baud_init proto init =
     ilen (5 + length init) @ [cmd_u8 Ioctl] @ [0x04] @ u32_le (wire proto) @ init"

definition clear_periodic :: "protocol_id \<Rightarrow> bytes" where
  "clear_periodic proto = ilen 5 @ [cmd_u8 Ioctl] @ [0x09] @ u32_le (wire proto)"

definition clear_rx :: "protocol_id \<Rightarrow> bytes" where
  "clear_rx proto = ilen 5 @ [cmd_u8 Ioctl] @ [0x08] @ u32_le (wire proto)"

definition fast_init :: "protocol_id \<Rightarrow> bytes \<Rightarrow> bytes" where
  "fast_init proto init =
     ilen (5 + length init) @ [cmd_u8 Ioctl] @ [0x05] @ u32_le (wire proto) @ init"

section \<open>Reply parsers\<close>

definition parse_u32_reply :: "string \<Rightarrow> bytes \<Rightarrow> (u32, codec_error) res" where
  "parse_u32_reply what inner =
     (if length inner < 7 then Err (MalformedReply what)
      else rbind (idx inner 2) (\<lambda>c.
        if c \<noteq> cmd_u8 Ioctl then Err (MalformedReply what)
        else rbind (slice inner 3 7) (\<lambda>v. Ok (u32_from_le v))))"

definition parse_get_config :: "bytes \<Rightarrow> (u32, codec_error) res" where
  "parse_get_config = parse_u32_reply ''not a get-config reply''"

definition parse_vbatt :: "bytes \<Rightarrow> (u32, codec_error) res" where
  "parse_vbatt = parse_u32_reply ''not a read-vbatt reply''"

definition parse_challenge :: "bytes \<Rightarrow> (bytes, codec_error) res" where
  "parse_challenge payload =
     (if length payload < 11 then Err (MalformedReply ''challenge payload too short'')
      else rbind (idx payload 0) (\<lambda>b0.
        if b0 \<noteq> 0x09 then Err (MalformedReply ''challenge is not a key reply'')
        else slice payload 3 11))"

definition status_of :: "bytes \<Rightarrow> cmd \<Rightarrow> (device_status, codec_error) res" where
  "status_of inner c =
     (if length inner < 4 then Err (MalformedReply ''status reply too short'')
      else rbind (rd_u16 inner) (\<lambda>il.
        if il \<noteq> 2 then Err (MalformedReply ''status reply has wrong ILEN'')
        else rbind (idx inner 2) (\<lambda>b.
          if b \<noteq> cmd_u8 c then Err (MalformedReply ''status reply echoes a different command'')
          else rbind (idx inner 3) (\<lambda>st. Ok (device_status_from st)))))"

record read_reply =
  rr_status :: u32
  rr_msg :: bytes

definition parse_read_reply :: "bytes \<Rightarrow> (read_reply, codec_error) res" where
  "parse_read_reply inner =
     (if length inner < 4 then Err (MalformedReply ''not a read reply'')
      else rbind (idx inner 2) (\<lambda>c.
        if c \<noteq> cmd_u8 ReadMsg then Err (MalformedReply ''not a read reply'')
        else rbind (if length inner \<ge> 7 then rbind (slice inner 3 7) (\<lambda>b. Ok (u32_from_le b))
                    else rbind (idx inner 3) (\<lambda>b. Ok (ucast b))) (\<lambda>st.
          rbind (rd_u16 inner) (\<lambda>field.
            let mlen = field - 9 in
            if mlen = 0 then Ok \<lparr>rr_status = st, rr_msg = []\<rparr>
            else if 11 + mlen > length inner
            then Err (MalformedReply ''read reply message overruns the inner'')
            else rbind (slice inner 11 (11 + mlen)) (\<lambda>m. Ok \<lparr>rr_status = st, rr_msg = m\<rparr>)))))"

section \<open>The reference decoder\<close>

text \<open>The layout rule of the module: \<open>ILEN\<close> counts the command byte and its arguments.\<close>

definition decode_command :: "bytes \<Rightarrow> (u8 \<times> bytes) option" where
  "decode_command inner =
     (if length inner < 3 \<or> len_field inner = 0 \<or> length inner < 2 + len_field inner then None
      else Some (inner ! 2, take (len_field inner - 1) (drop 3 inner)))"

lemma decode_command_ilen:
  assumes "n = length args" and "length args < 65535"
  shows "decode_command (ilen n @ c # args @ pad) = Some (c, args)"
proof -
  obtain l0 l1 where "ilen n = [l0, l1]" "unat l0 + 256 * unat l1 = Suc n"
    using len16_split [of "Suc n"] assms by (auto simp: ilen_def)
  then show ?thesis
    using assms(1) by (simp add: decode_command_def)
qed

lemma decode_command_ilen0:
  "n = length args \<Longrightarrow> length args < 65535 \<Longrightarrow> decode_command (ilen n @ c # args) = Some (c, args)"
  using decode_command_ilen [of n args c "[]"] by simp

lemma length_ilen [simp]: "length (ilen n) = 2"
  by (simp add: ilen_def)

lemma start_filter_Ok_iff:
  "start_filter proto fid ft msk pattern flow idlen = Ok c \<longleftrightarrow>
     idlen \<in> {1, 4, 5} \<and> \<not> (is_can proto \<and> idlen = 1)
     \<and> idlen \<le> length msk \<and> idlen \<le> length pattern
     \<and> (case flow of None \<Rightarrow> True | Some f \<Rightarrow> idlen \<le> length f)
     \<and> c = ilen (12 + 3 * idlen) @ cmd_u8 StartMsgFilter # u32_le (wire proto) @ u32_le fid @ u32_le ft
           @ take idlen msk @ take idlen pattern
           @ (case flow of None \<Rightarrow> replicate idlen 0 | Some f \<Rightarrow> take idlen f)"
  by (cases flow) (auto simp: start_filter_def not_less split: if_splits)

lemma start_filter_not_panic: "start_filter proto fid ft msk pattern flow idlen \<noteq> panic"
  by (cases flow) (auto simp: start_filter_def Let_def not_less)

section \<open>Properties\<close>

lemmas builder_defs = identify_def read_version_def connect_def disconnect_def session_close_def
  read_poll_def set_programming_voltage_def stop_filter_def stop_periodic_def set_config_def
  get_config_def read_vbatt_def five_baud_init_def clear_periodic_def clear_rx_def fast_init_def

text \<open>Every fixed builder emits a command that the layout rule reads back as its command
  byte and its argument words, the protocol id first for the channel-scoped ones; a pad
  byte beyond \<open>ILEN\<close> is never read as an argument.\<close>

theorem fixed_builders_decode:
  "decode_command identify = Some (cmd_u8 CmdOpen, [0x4D, 0x56, 0x43, 0x49, 0x2D, 0x54])
   \<and> decode_command read_version = Some (cmd_u8 ReadVersion, [])
   \<and> decode_command session_close = Some (cmd_u8 CloseSession, [])
   \<and> decode_command (connect p a b) = Some (cmd_u8 CmdConnect, u32_le (wire p) @ u32_le a @ u32_le b)
   \<and> decode_command (disconnect p) = Some (cmd_u8 CmdDisconnect, u32_le (wire p))
   \<and> decode_command (read_poll p) = Some (cmd_u8 ReadMsg, u32_le (wire p))
   \<and> decode_command (set_programming_voltage a b) =
       Some (cmd_u8 SetProgrammingVoltage, u32_le a @ u32_le b)
   \<and> decode_command (stop_filter p a) = Some (cmd_u8 StopMsgFilter, u32_le (wire p) @ u32_le a @ u32_le 0)
   \<and> decode_command (stop_periodic p a) =
       Some (cmd_u8 StopPeriodicMsg, u32_le (wire p) @ u32_le a @ u32_le 0)
   \<and> decode_command (set_config p a b) =
       Some (cmd_u8 Ioctl, 2 # u32_le (wire p) @ u32_le a @ u32_le b)
   \<and> decode_command (get_config p a) = Some (cmd_u8 Ioctl, 1 # u32_le (wire p) @ u32_le a)
   \<and> decode_command (read_vbatt p) = Some (cmd_u8 Ioctl, 3 # u32_le (wire p))
   \<and> decode_command (clear_rx p) = Some (cmd_u8 Ioctl, 8 # u32_le (wire p))
   \<and> decode_command (clear_periodic p) = Some (cmd_u8 Ioctl, 9 # u32_le (wire p))"
  by (intro conjI)
    (simp_all add: builder_defs decode_command_ilen0
      decode_command_ilen [where args = "u32_le (wire p)" and pad = "[0]", simplified],
     simp_all add: decode_command_def)

text \<open>The builders with a message argument: a message within the limits is emitted whole
  after its header words, with a sixteen-bit \<open>ILEN\<close> that has no cliff at 255; a longer one
  is refused with its length.\<close>

theorem message_builders_decode:
  "write_msg p a m =
     (if length m \<le> 4100 then Ok (ilen (8 + length m) @ cmd_u8 WriteMsg # u32_le (wire p) @ u32_le a @ m)
      else Err (MsgTooLong (length m)))
   \<and> rbind (write_msg p a m) (\<lambda>c. Ok (decode_command c, length c \<le> MAX_INNER)) =
       (if length m \<le> 4100
        then Ok (Some (cmd_u8 WriteMsg, u32_le (wire p) @ u32_le a @ m), True)
        else Err (MsgTooLong (length m)))
   \<and> rbind (start_periodic p i a t m) (\<lambda>c. Ok (decode_command c)) =
       (if length m \<le> 12
        then Ok (Some (cmd_u8 StartPeriodicMsg, u32_le (wire p) @ u32_le i @ u32_le a @ u32_le t @ m))
        else Err (MsgTooLong (length m)))"
  by (auto simp: write_msg_def start_periodic_def MAX_MSG_def MAX_INNER_def decode_command_ilen0)

text \<open>\<open>start_filter\<close> accepts exactly the identifier widths 1 (not on CAN), 4 and 5 with
  every given field at least that wide, and then emits a command from which the adapter's
  rule \<open>N = (length ARGS - 12) / 3\<close> recovers the width and the three fields, an absent flow
  field being zero-filled; otherwise the error names the width or the first short field.\<close>

theorem start_filter_spec:
  "start_filter p fid ft m pat flow n =
     (if n \<notin> {1, 4, 5} \<or> is_can p \<and> n = 1 then Err (BadIdLen p n)
      else if length m < n then Err (FilterFieldTooShort (length m) n)
      else if length pat < n then Err (FilterFieldTooShort (length pat) n)
      else if (case flow of None \<Rightarrow> False | Some f \<Rightarrow> length f < n)
        then Err (FilterFieldTooShort (length (the flow)) n)
      else Ok (ilen (12 + 3 * n) @ cmd_u8 StartMsgFilter # u32_le (wire p) @ u32_le fid @ u32_le ft
             @ take n m @ take n pat @ (case flow of None \<Rightarrow> replicate n 0 | Some f \<Rightarrow> take n f)))
   \<and> (\<forall>c. start_filter p fid ft m pat flow n = Ok c \<longrightarrow>
        (\<exists>args. decode_command c = Some (cmd_u8 StartMsgFilter, args)
          \<and> (length args - 12) div 3 = n
          \<and> take n (drop 12 args) = take n m \<and> take n (drop (12 + n) args) = take n pat))"
  (is "?E \<and> ?D")
proof
  show ?E
    by (cases flow) (auto simp: start_filter_def Let_def not_less)
  show ?D
  proof (intro allI impI)
    fix c
    assume "start_filter p fid ft m pat flow n = Ok c"
    then have n: "n \<in> {1, 4, 5}" "n \<le> length m" "n \<le> length pat"
        "case flow of None \<Rightarrow> True | Some f \<Rightarrow> n \<le> length f"
      and c: "c = ilen (12 + 3 * n) @ cmd_u8 StartMsgFilter # u32_le (wire p) @ u32_le fid @ u32_le ft
           @ take n m @ take n pat @ (case flow of None \<Rightarrow> replicate n 0 | Some f \<Rightarrow> take n f)"
      by (auto simp: start_filter_Ok_iff)
    let ?fl = "case flow of None \<Rightarrow> replicate n 0 | Some f \<Rightarrow> take n f"
    let ?args = "u32_le (wire p) @ u32_le fid @ u32_le ft @ take n m @ take n pat @ ?fl"
    have "length ?fl = n"
      using n(4) by (cases flow) simp_all
    then have len: "length ?args = 12 + 3 * n"
      using n by simp
    moreover from n(1) have "n \<le> 5" by auto
    ultimately have "decode_command c = Some (cmd_u8 StartMsgFilter, ?args)"
      unfolding c by (intro decode_command_ilen0) simp_all
    moreover have "take n (drop 12 ?args) = take n m" "take n (drop (12 + n) ?args) = take n pat"
      using n by simp_all
    ultimately show "\<exists>args. decode_command c = Some (cmd_u8 StartMsgFilter, args)
        \<and> (length args - 12) div 3 = n
        \<and> take n (drop 12 args) = take n m \<and> take n (drop (12 + n) args) = take n pat"
      using len by (intro exI [of _ ?args]) simp
  qed
qed

theorem start_filter_spec_witness:
  "\<exists>c. start_filter Can 7 1 [1, 2, 3, 4] [0, 0, 7, 0xE8] None 4 = Ok c
     \<and> (\<exists>args. decode_command c = Some (cmd_u8 StartMsgFilter, args) \<and> (length args - 12) div 3 = 4)"
proof -
  have "\<exists>c. start_filter Can 7 1 [1, 2, 3, 4] [0, 0, 7, 0xE8] None 4 = Ok c"
    by (simp add: start_filter_Ok_iff)
  then obtain c where c: "start_filter Can 7 1 [1, 2, 3, 4] [0, 0, 7, 0xE8] None 4 = Ok c" ..
  with conjunct2 [OF start_filter_spec [of Can 7 1 "[1, 2, 3, 4]" "[0, 0, 7, 0xE8]" None 4]]
  show ?thesis by blast
qed

lemma parse_read_reply_built:
  assumes "length m + 9 < 65536" and "length resv = 4"
  shows "parse_read_reply (len16 (9 + length m) @ cmd_u8 ReadMsg # u32_le st @ resv @ m @ pad)
         = Ok \<lparr>rr_status = st, rr_msg = m\<rparr>"
proof -
  obtain l0 l1 where l: "len16 (9 + length m) = [l0, l1]" "unat l0 + 256 * unat l1 = 9 + length m"
    using len16_split [of "9 + length m"] assms(1) by auto
  obtain a b c d where "u32_le st = [a, b, c, d]" "u32_from_le [a, b, c, d] = st"
    using u32_from_le_le' [of st] by (simp add: u32_le_def)
  with l assms(2) show ?thesis
    by (auto simp: parse_read_reply_def Let_def)
qed

text \<open>A ReadMsgs reply \<open>[ILEN][09][RxStatus][reserved][msg]\<close> parses back to its status
  word and exactly its message, past 255 bytes too and whatever padding the cipher block
  left behind it.\<close>

theorem read_reply_round_trip:
  assumes "length m + 9 < 65536" and "length resv = 4"
  shows "parse_read_reply (len16 (9 + length m) @ cmd_u8 ReadMsg # u32_le st @ resv @ m @ pad)
         = Ok \<lparr>rr_status = st, rr_msg = m\<rparr>"
  using assms by (rule parse_read_reply_built)

theorem read_reply_round_trip_witness:
  "parse_read_reply (len16 (9 + 300) @ cmd_u8 ReadMsg # u32_le 0x100 @ [0, 0, 0, 0] @ replicate 300 0xAB @ [0])
     = Ok \<lparr>rr_status = 0x100, rr_msg = replicate 300 0xAB\<rparr>"
  using read_reply_round_trip [of "replicate 300 0xAB" "[0, 0, 0, 0]" "0x100" "[0]"] by simp

lemma status_of_Ok_iff:
  "status_of inner c = Ok st \<longleftrightarrow>
     (\<exists>l0 l1 b junk. inner = l0 # l1 # cmd_u8 c # b # junk \<and> unat l0 + 256 * unat l1 = 2
        \<and> st = device_status_from b \<and> status_code st = b \<and> (status_is_ok st \<longleftrightarrow> b = 0))"
proof (cases "length inner < 4")
  case True
  then show ?thesis by (auto simp: status_of_def)
next
  case False
  then obtain l0 l1 x b junk where "inner = l0 # l1 # x # b # junk"
    by (cases inner; cases "tl inner"; cases "tl (tl inner)"; cases "tl (tl (tl inner))") auto
  then show ?thesis
    by (auto simp: status_of_def status_is_ok_from)
qed

text \<open>A status reply is accepted exactly when it has four bytes, \<open>ILEN = 2\<close> and echoes the
  command; the status is the fourth byte, its code is that byte again, and the bytes after
  it (the adapter's uninitialised stack) never matter.\<close>

theorem status_of_spec:
  "status_of inner c = Ok st \<longleftrightarrow>
     (\<exists>l0 l1 b junk. inner = l0 # l1 # cmd_u8 c # b # junk \<and> unat l0 + 256 * unat l1 = 2
        \<and> st = device_status_from b \<and> status_code st = b \<and> (status_is_ok st \<longleftrightarrow> b = 0))"
  by (rule status_of_Ok_iff)

lemma parsers_not_panic:
  "parse_challenge b \<noteq> panic" "status_of b c \<noteq> panic" "parse_read_reply b \<noteq> panic"
  "parse_get_config b \<noteq> panic" "parse_vbatt b \<noteq> panic"
proof -
  show "parse_challenge b \<noteq> panic"
    by (cases b) (auto simp: parse_challenge_def)
  have "parse_u32_reply s b \<noteq> panic" for s
    by (auto simp: parse_u32_reply_def not_less)
  then show "parse_get_config b \<noteq> panic" "parse_vbatt b \<noteq> panic"
    by (simp_all add: parse_get_config_def parse_vbatt_def)
  show "status_of b c \<noteq> panic" "parse_read_reply b \<noteq> panic"
    by (auto simp: status_of_def parse_read_reply_def rd_u16_eq Let_def not_less)
qed

text \<open>No reply parser panics on any bytes.\<close>

theorem inner_parsers_never_panic:
  "parse_challenge b \<noteq> panic \<and> status_of b c \<noteq> panic \<and> parse_read_reply b \<noteq> panic
   \<and> parse_get_config b \<noteq> panic \<and> parse_vbatt b \<noteq> panic"
  by (simp add: parsers_not_panic)

end
