(* ===== verification/Deframe.thy ===== *)
theory Deframe
  imports Frame "HOL-Library.Sublist"
begin

text \<open>
  The incremental deframer, \<open>rmvci-core/src/codec/deframe.rs\<close>: raw serial bytes are
  pushed in, complete frames are taken out. \<open>drain\<close> is the reading loop of its users
  (\<open>while let Ok(Some(f)) = d.next_frame()\<close>), \<open>feed\<close> a sequence of pushes, each
  followed by that loop, \<open>listen\<close> the same with the buffer cleared after an error.
\<close>

section \<open>Definitions\<close>

record deframer =
  df_buf :: bytes

definition deframer_new :: deframer where
  "deframer_new = \<lparr>df_buf = []\<rparr>"

definition push :: "bytes \<Rightarrow> deframer \<Rightarrow> deframer" where
  "push bs d = d\<lparr>df_buf := df_buf d @ bs\<rparr>"

definition pending :: "deframer \<Rightarrow> nat" where
  "pending d = length (df_buf d)"

definition clear :: "deframer \<Rightarrow> deframer" where
  "clear d = d\<lparr>df_buf := []\<rparr>"

definition next_frame :: "(bytes option, codec_error, deframer) op" where
  "next_frame d =
     (if length (df_buf d) < 2 then (Ok None, d)
      else case rd_u16 (df_buf d) of
        Inl e \<Rightarrow> (Inl e, d)
      | Inr len \<Rightarrow>
          if len < 3 then (Err (TooShort len), d)
          else if len > MAX_FRAME then (Err (TooLong len), d)
          else if length (df_buf d) < len then (Ok None, d)
          else case slice (df_buf d) 0 len of
            Inl e \<Rightarrow> (Inl e, d)
          | Inr frame \<Rightarrow> (Ok (Some frame), d\<lparr>df_buf := drop len (df_buf d)\<rparr>))"

text \<open>A frame the deframer cuts out whole: its length field is its length, within the limits.\<close>

definition well_framed :: "bytes \<Rightarrow> bool" where
  "well_framed f \<longleftrightarrow> 3 \<le> length f \<and> length f \<le> MAX_FRAME \<and> len_field f = length f"

lemma next_frame_well_framed:
  "well_framed f \<Longrightarrow> next_frame \<lparr>df_buf = f @ r\<rparr> = (Ok (Some f), \<lparr>df_buf = r\<rparr>)"
  by (simp add: well_framed_def next_frame_def rd_u16_eq len_field_append)

lemma next_frame_SomeE:
  assumes "next_frame d = (Ok (Some f), d')"
  obtains r where "d = \<lparr>df_buf = f @ r\<rparr>" "d' = \<lparr>df_buf = r\<rparr>" "well_framed f"
proof -
  let ?b = "df_buf d" let ?n = "len_field ?b"
  from assms have n: "3 \<le> ?n" "?n \<le> MAX_FRAME" "?n \<le> length ?b"
    and f: "f = take ?n ?b" and d': "d' = \<lparr>df_buf = drop ?n ?b\<rparr>"
    by (auto simp: next_frame_def rd_u16_eq not_less split: if_splits)
  have "len_field (f @ drop ?n ?b) = len_field f"
    using f n by (intro len_field_append) simp
  then have "well_framed f"
    using f n by (simp add: well_framed_def)
  moreover have "d = \<lparr>df_buf = f @ drop ?n ?b\<rparr>"
    using f by simp
  ultimately show thesis
    using d' that by blast
qed

function drain :: "deframer \<Rightarrow> bytes list \<times> deframer" where
  "drain d =
     (case next_frame d of
        (Inr (Some f), d') \<Rightarrow> (case drain d' of (fs, d'') \<Rightarrow> (f # fs, d''))
      | _ \<Rightarrow> ([], d))"
  by pat_completeness auto
termination
  by (relation "measure (\<lambda>d. length (df_buf d))")
    (auto elim!: next_frame_SomeE [OF sym] simp: well_framed_def)

declare drain.simps [simp del]

fun feed :: "deframer \<Rightarrow> bytes list \<Rightarrow> bytes list \<times> deframer" where
  "feed d [] = ([], d)"
| "feed d (c # cs) =
     (case drain (push c d) of (fs, d') \<Rightarrow> case feed d' cs of (fs', d'') \<Rightarrow> (fs @ fs', d''))"

text \<open>The same with the resynchronisation of its users: after an error the buffer is cleared.\<close>

fun listen :: "deframer \<Rightarrow> bytes list \<Rightarrow> bytes list \<times> deframer" where
  "listen d [] = ([], d)"
| "listen d (c # cs) =
     (case drain (push c d) of (fs, d1) \<Rightarrow>
      case listen (case next_frame d1 of (Inl _, d2) \<Rightarrow> clear d2 | (Inr _, _) \<Rightarrow> d1) cs of (fs', d') \<Rightarrow> (fs @ fs', d'))"

section \<open>Properties\<close>

lemma next_frame_not_panic: "fst (next_frame d) \<noteq> panic"
  by (auto simp: next_frame_def rd_u16_eq not_less split: sum.splits)

lemma next_frame_no_frame: "fst (next_frame d) \<notin> range (\<lambda>f. Ok (Some f)) \<Longrightarrow> snd (next_frame d) = d"
  by (auto simp: next_frame_def image_iff split: sum.splits)

lemma drain_step:
  "next_frame d = (Ok (Some f), d') \<Longrightarrow> drain d = (f # fst (drain d'), snd (drain d'))"
  by (simp add: drain.simps [of d] split: prod.splits)

lemma drain_stop:
  "\<nexists>f d'. next_frame d = (Ok (Some f), d') \<Longrightarrow> drain d = ([], d)"
  by (auto simp: drain.simps [of d] split: prod.splits sum.splits option.splits)

text \<open>A complete frame at the head of the buffer is not affected by what follows it.\<close>

lemma next_frame_push:
  "next_frame d = (Ok (Some f), d') \<Longrightarrow> next_frame (push bs d) = (Ok (Some f), push bs d')"
  by (erule next_frame_SomeE) (simp add: push_def next_frame_well_framed)

lemma drain_push:
  "drain (push bs d) = (fst (drain d) @ fst (drain (push bs (snd (drain d)))),
                        snd (drain (push bs (snd (drain d)))))"
proof (induction d rule: drain.induct)
  case (1 d)
  show ?case
  proof (cases "\<exists>f d'. next_frame d = (Ok (Some f), d')")
    case True
    then obtain f d' where n: "next_frame d = (Ok (Some f), d')" by blast
    from 1 n have IH: "drain (push bs d') = (fst (drain d') @ fst (drain (push bs (snd (drain d')))),
        snd (drain (push bs (snd (drain d')))))" by simp
    have "drain (push bs d) = (f # fst (drain (push bs d')), snd (drain (push bs d')))"
      by (rule drain_step) (rule next_frame_push [OF n])
    with IH show ?thesis by (simp add: drain_step [OF n])
  next
    case False
    then show ?thesis by (simp add: drain_stop)
  qed
qed

lemma drain_idem: "drain (snd (drain d)) = ([], snd (drain d))"
proof (induction d rule: drain.induct)
  case (1 d)
  show ?case
  proof (cases "\<exists>f d'. next_frame d = (Ok (Some f), d')")
    case True
    with 1 show ?thesis by (auto simp: drain_step)
  next
    case False
    then show ?thesis by (simp add: drain_stop)
  qed
qed

lemma feed_eq_drain: "drain d = ([], d) \<Longrightarrow> feed d cs = drain (push (concat cs) d)"
proof (induction cs arbitrary: d)
  case Nil
  then show ?case by (simp add: push_def)
next
  case (Cons c cs)
  let ?d = "snd (drain (push c d))"
  have "feed ?d cs = drain (push (concat cs) ?d)"
    by (rule Cons.IH) (rule drain_idem)
  moreover have "push (concat (c # cs)) d = push (concat cs) (push c d)"
    by (simp add: push_def)
  ultimately show ?case
    by (cases "drain (push c d)") (simp add: drain_push [of "concat cs" "push c d"] split: prod.splits)
qed

lemma drain_well_framed:
  "\<forall>f \<in> set fs. well_framed f \<Longrightarrow> drain \<lparr>df_buf = concat fs @ r\<rparr> =
     (fs @ fst (drain \<lparr>df_buf = r\<rparr>), snd (drain \<lparr>df_buf = r\<rparr>))"
proof (induction fs)
  case (Cons f fs)
  then have "next_frame \<lparr>df_buf = f @ concat fs @ r\<rparr> = (Ok (Some f), \<lparr>df_buf = concat fs @ r\<rparr>)"
    by (simp add: next_frame_well_framed)
  from drain_step [OF this] Cons show ?case by simp
qed simp

lemma drain_empty [simp]: "drain deframer_new = ([], deframer_new)"
  by (rule drain_stop) (simp add: next_frame_def deframer_new_def)

text \<open>The frames the driver encodes are cut out whole.\<close>

lemma encode_encrypted_well_framed:
  assumes "block_cipher enc dec" and "length inner \<le> MAX_INNER"
  shows "\<exists>f. encode_encrypted dbg enc key inner = Ok f \<and> well_framed f"
proof -
  let ?n = "pad8 (length inner)"
  have "?n \<le> pad8 MAX_INNER"
    using assms(2) by (rule pad8_mono)
  then have n: "?n + 3 \<le> MAX_FRAME"
    by (simp add: MAX_INNER_def MAX_FRAME_def pad8_def)
  moreover have "length (block_map (enc key) (padded inner)) = ?n"
    using assms(1) by (simp add: block_cipher_length)
  ultimately show ?thesis
    by (auto simp: encode_encrypted_eq Let_def well_framed_def MAX_FRAME_def MAX_INNER_def)
qed

text \<open>the deframer gives the same frames and keeps the same rest however the byte
  stream is cut into chunks (single bytes included), error cases too.\<close>

theorem deframer_chunking:
  "feed deframer_new chunks = drain (push (concat chunks) deframer_new)"
  by (rule feed_eq_drain) simp

text \<open>C21: frames encoded from inner commands within the adapter's limit and sent one after
  the other come out of the deframer exactly, in order and with nothing left over, for
  every chunking of the stream.\<close>

theorem deframer_round_trip:
  assumes "block_cipher enc dec" and "\<forall>i \<in> set inners. length i \<le> MAX_INNER"
    and "map (encode_encrypted dbg enc key) inners = map Ok frames"
    and "concat chunks = concat frames"
  shows "feed deframer_new chunks = (frames, deframer_new)"
proof -
  have "\<forall>f \<in> set frames. well_framed f"
  proof
    fix f
    assume "f \<in> set frames"
    then have "Ok f \<in> set (map (encode_encrypted dbg enc key) inners)"
      using assms(3) by simp
    then obtain i where "i \<in> set inners" and i: "encode_encrypted dbg enc key i = Ok f"
      by auto
    with assms(2) have "length i \<le> MAX_INNER" by blast
    from encode_encrypted_well_framed [OF assms(1) this, of dbg key] i show "well_framed f" by simp
  qed
  from drain_well_framed [OF this, of "[]"] show ?thesis
    using assms(4) feed_eq_drain [OF drain_empty, of chunks]
    by (simp add: push_def deframer_new_def drain_empty [unfolded deframer_new_def])
qed

theorem deframer_round_trip_witness:
  "\<exists>f. encode_encrypted False xor_cipher [7] [1, 2, 3] = Ok f
     \<and> feed deframer_new [take 5 f, drop 5 f @ take 1 f, drop 1 f] = ([f, f], deframer_new)"
proof -
  obtain f where f: "encode_encrypted False xor_cipher [7] [1, 2, 3] = Ok f"
    using encode_encrypted_well_framed [OF xor_cipher_block, of "[1, 2, 3]" False "[7]"]
    by (auto simp: MAX_INNER_def)
  have "feed deframer_new [take 5 f, drop 5 f @ take 1 f, drop 1 f] = ([f, f], deframer_new)"
    by (rule deframer_round_trip [OF xor_cipher_block, of "[[1, 2, 3], [1, 2, 3]]" False "[7]"])
      (simp_all add: f MAX_INNER_def)
  with f show ?thesis by blast
qed

section \<open>Noise\<close>

lemma drain_frames: "drain d = (fs, d') \<Longrightarrow> list_all well_framed fs \<and> df_buf d = concat fs @ df_buf d'"
proof (induction d arbitrary: fs rule: drain.induct)
  case (1 d)
  show ?case
  proof (cases "\<exists>f d1. next_frame d = (Ok (Some f), d1)")
    case True
    then obtain f d1 where n: "next_frame d = (Ok (Some f), d1)" by blast
    from 1 n 1(1) [OF n [symmetric] refl refl, of "fst (drain d1)"] drain_step [OF n] show ?thesis
      by (auto elim!: next_frame_SomeE)
  qed (use 1 drain_stop in auto)
qed

lemma drain_rest: "drain d = (fs, d1) \<Longrightarrow> next_frame d1 = (Ok q, d2) \<Longrightarrow> q = None \<and> pending d1 < MAX_FRAME"
proof -
  assume d: "drain d = (fs, d1)" and n: "next_frame d1 = (Ok q, d2)"
  have "drain d1 = ([], d1)" using drain_idem [of d] by (simp add: d)
  then have "q = None" using n drain_step [of d1] by (cases q) auto
  with n show ?thesis
    by (auto simp: next_frame_def rd_u16_eq pending_def MAX_FRAME_def not_less split: if_splits sum.splits)
qed

lemma listen_frames:
  "listen d cs = (fs, d') \<Longrightarrow> pending d < MAX_FRAME
    \<Longrightarrow> pending d' < MAX_FRAME \<and> list_all well_framed fs \<and> subseq (concat fs @ df_buf d') (df_buf d @ concat cs)"
proof (induction cs arbitrary: d fs)
  case (Cons c cs)
  obtain gs d1 where g: "drain (push c d) = (gs, d1)" by fastforce
  define d2 where "d2 = (case next_frame d1 of (Inl _, d2) \<Rightarrow> clear d2 | (Inr _, _) \<Rightarrow> d1)"
  obtain hs where h: "listen d2 cs = (hs, d')" and fs: "fs = gs @ hs"
    using Cons.prems(1) by (auto simp: g d2_def [symmetric] split: prod.splits)
  note gs = drain_frames [OF g]
  have d2: "pending d2 < MAX_FRAME \<and> subseq (df_buf d2) (df_buf d1)"
    using drain_rest [OF g] by (auto simp: d2_def clear_def pending_def MAX_FRAME_def split: prod.split sum.split)
  from Cons.IH [OF h] d2 have rest: "pending d' < MAX_FRAME" "list_all well_framed hs"
    "subseq (concat hs @ df_buf d') (df_buf d2 @ concat cs)" by simp_all
  have "subseq (df_buf d2 @ concat cs) (df_buf d1 @ concat cs)" using d2 by simp
  with rest(3) have "subseq (concat hs @ df_buf d') (df_buf d1 @ concat cs)" by (rule subseq_order.trans)
  then have "subseq (concat gs @ concat hs @ df_buf d') (concat gs @ df_buf d1 @ concat cs)"
    by (simp only: subseq_append')
  moreover have "concat gs @ df_buf d1 @ concat cs = df_buf d @ concat (c # cs)"
    using gs by (simp add: push_def)
  ultimately have "subseq (concat fs @ df_buf d') (df_buf d @ concat (c # cs))"
    by (simp only: fs concat_append append.assoc)
  with rest(1,2) gs show ?case by (simp add: fs)
qed simp

end
