(* ===== verification/Byte_Transport.thy ===== *)
theory Byte_Transport
  imports Wire_Types
begin

text \<open>
  The byte transport and the clocks: \<open>rmvci-core/src/transport/mod.rs\<close> and the scripted
  transport \<open>transport/mock.rs\<close>. The trait is the record \<open>'s transport\<close> of its operations
  on a world state \<open>'s\<close> (the port, the device behind it and time); the session layer is
  written over any such record. \<open>byte_stream\<close> states what the trait promises of reads on a
  healthy port, \<open>write_log\<close> that every write reaches the wire; \<open>MockTransport\<close> keeps both.
\<close>

section \<open>The trait\<close>

datatype latency_result = LatencySet u8 | AlreadyLow u8 | LatencyFailed string | Unavailable

text \<open>
  \<open>t_read n d\<close> is \<open>read\<close> with a buffer of \<open>n\<close> bytes: the bytes stored in it, \<open>[]\<close> for
  \<open>Ok(0)\<close>. \<open>t_sleep\<close> is the configured clock, \<open>t_thread_sleep\<close> and \<open>t_now\<close> the standard
  library's \<open>thread::sleep\<close> and \<open>Instant::now\<close>.
\<close>

record 's transport =
  t_write_all :: "bytes \<Rightarrow> (unit, transport_error, 's) op"
  t_read :: "nat \<Rightarrow> duration \<Rightarrow> (bytes, transport_error, 's) op"
  t_purge_rx :: "(unit, transport_error, 's) op"
  t_set_modem :: "bool \<Rightarrow> bool \<Rightarrow> (unit, transport_error, 's) op"
  t_optimize_latency :: "'s \<Rightarrow> latency_result \<times> 's"
  t_sleep :: "duration \<Rightarrow> 's \<Rightarrow> 's"
  t_now :: "'s \<Rightarrow> instant \<times> 's"
  t_thread_sleep :: "duration \<Rightarrow> 's \<Rightarrow> 's"

section \<open>Contracts\<close>

text \<open>Reads deliver the bytes the port holds in order, in any portions, and report a timeout
  only when there are none; the clock does not touch them.\<close>

locale byte_stream =
  fixes T :: "'s transport" and held :: "'s \<Rightarrow> bytes"
  assumes read_portion: "0 < n \<Longrightarrow> \<exists>b s'. t_read T n d s = (Ok b, s') \<and> held s = b @ held s'
      \<and> length b \<le> n \<and> (b = [] \<longrightarrow> held s = [])"
    and now_held [simp]: "held (snd (t_now T s)) = held s"

text \<open>Every write is appended to the log whether or not it succeeds, nothing else changes it.\<close>

locale write_log =
  fixes T :: "'s transport" and wrote :: "'s \<Rightarrow> bytes list"
  assumes write_logged: "wrote (snd (t_write_all T b s)) = wrote s @ [b]"
    and others_silent [simp]:
      "wrote (snd (t_read T n d s)) = wrote s"
      "wrote (snd (t_purge_rx T s)) = wrote s"
      "wrote (snd (t_set_modem T dtr rts s)) = wrote s"
      "wrote (snd (t_optimize_latency T s)) = wrote s"
      "wrote (snd (t_now T s)) = wrote s"
      "wrote (t_sleep T d s) = wrote s"
      "wrote (t_thread_sleep T d s) = wrote s"

text \<open>Time does not run backwards, whatever is done, and a thread that sleeps sees it advance.\<close>

locale world_clock =
  fixes T :: "'s transport" and time :: "'s \<Rightarrow> instant"
  assumes now_between: "time s \<le> fst (t_now T s)" "fst (t_now T s) \<le> time (snd (t_now T s))"
    and forward:
      "time s \<le> time (snd (t_write_all T b s))"
      "time s \<le> time (snd (t_read T n d s))"
      "time s \<le> time (snd (t_purge_rx T s))"
      "time s \<le> time (t_sleep T d s)"
    and slept: "time s + d \<le> time (t_thread_sleep T d s)"

text \<open>A write takes time.\<close>

locale paced_clock = world_clock +
  assumes write_takes: "time s < time (snd (t_write_all T b s))"

section \<open>The scripted transport\<close>

datatype event = EvWrite bytes | EvModem bool bool | EvPurgeRx

record step =
  expect :: "bytes option"
  reply :: bytes

definition step_exchange :: "bytes \<Rightarrow> bytes \<Rightarrow> step" where
  "step_exchange e r = \<lparr>expect = Some e, reply = r\<rparr>"

definition step_reply_any :: "bytes \<Rightarrow> step" where
  "step_reply_any r = \<lparr>expect = None, reply = r\<rparr>"

definition step_silence :: step where
  "step_silence = \<lparr>expect = None, reply = []\<rparr>"

text \<open>The transport, with its clock's record of sleeps and the time of the test.\<close>

record mock =
  mk_steps :: "step list"
  mk_rx :: bytes
  mk_events :: "event list"
  mk_sleeps :: "duration list"
  mk_now :: instant

definition mock_new :: "step list \<Rightarrow> mock" where
  "mock_new steps = \<lparr>mk_steps = steps, mk_rx = [], mk_events = [], mk_sleeps = [], mk_now = 0\<rparr>"

definition mock_writes :: "mock \<Rightarrow> bytes list" where
  "mock_writes m = concat (map (\<lambda>e. case e of EvWrite w \<Rightarrow> [w] | _ \<Rightarrow> []) (mk_events m))"

text \<open>\<open>assert_eq!\<close> on an unexpected write panics. The test's own time passes with every write, by the
  least amount a \<open>Duration\<close> can tell.\<close>

definition mock_write_all :: "bytes \<Rightarrow> (unit, transport_error, mock) op" where
  "mock_write_all buf m =
     (let m = m\<lparr>mk_events := mk_events m @ [EvWrite buf], mk_now := mk_now m + 1\<rparr> in
      case mk_steps m of
        [] \<Rightarrow> (Ok (), m)
      | step # steps \<Rightarrow>
          let m = m\<lparr>mk_steps := steps\<rparr> in
          if (case expect step of Some e \<Rightarrow> e \<noteq> buf | None \<Rightarrow> False) then (panic, m)
          else (Ok (), m\<lparr>mk_rx := mk_rx m @ reply step\<rparr>))"

definition mock_read :: "nat \<Rightarrow> duration \<Rightarrow> (bytes, transport_error, mock) op" where
  "mock_read len timeout m =
     (let n = min len (length (mk_rx m)) in
      (Ok (take n (mk_rx m)), m\<lparr>mk_rx := drop n (mk_rx m)\<rparr>))"

definition mock_purge_rx :: "(unit, transport_error, mock) op" where
  "mock_purge_rx m = (Ok (), m\<lparr>mk_events := mk_events m @ [EvPurgeRx], mk_rx := []\<rparr>)"

definition mock_set_modem :: "bool \<Rightarrow> bool \<Rightarrow> (unit, transport_error, mock) op" where
  "mock_set_modem dtr rts m = (Ok (), m\<lparr>mk_events := mk_events m @ [EvModem dtr rts]\<rparr>)"

text \<open>\<open>MockClock::sleep\<close> only records; the standard sleep lets the time pass. The trait's
  default \<open>optimize_latency\<close> is unavailable.\<close>

definition mock_sleep :: "duration \<Rightarrow> mock \<Rightarrow> mock" where
  "mock_sleep d m = m\<lparr>mk_sleeps := mk_sleeps m @ [d]\<rparr>"

definition mock_transport :: "mock transport" where
  "mock_transport =
     \<lparr>t_write_all = mock_write_all, t_read = mock_read, t_purge_rx = mock_purge_rx,
      t_set_modem = mock_set_modem, t_optimize_latency = (\<lambda>m. (Unavailable, m)),
      t_sleep = mock_sleep, t_now = (\<lambda>m. (mk_now m, m)),
      t_thread_sleep = (\<lambda>d m. m\<lparr>mk_now := mk_now m + d\<rparr>)\<rparr>"

lemma mock_transport_simps [simp]:
  "t_write_all mock_transport = mock_write_all" "t_read mock_transport = mock_read"
  "t_purge_rx mock_transport = mock_purge_rx" "t_set_modem mock_transport = mock_set_modem"
  "t_optimize_latency mock_transport m = (Unavailable, m)" "t_sleep mock_transport = mock_sleep"
  "t_now mock_transport m = (mk_now m, m)"
  "t_thread_sleep mock_transport d m = m\<lparr>mk_now := mk_now m + d\<rparr>"
  by (simp_all add: mock_transport_def)

interpretation mock_stream: byte_stream mock_transport mk_rx
proof
  show "\<exists>b s'. t_read mock_transport n d s = (Ok b, s') \<and> mk_rx s = b @ mk_rx s' \<and> length b \<le> n
      \<and> (b = [] \<longrightarrow> mk_rx s = [])" if "0 < n" for n d s
    using that by (auto simp: mock_read_def Let_def min_def)
qed simp

interpretation mock_clock: paced_clock mock_transport mk_now
  by unfold_locales
    (simp_all add: mock_write_all_def mock_read_def mock_purge_rx_def mock_sleep_def Let_def split: list.split)

interpretation mock_log: write_log mock_transport mock_writes
  by unfold_locales
    (simp_all add: mock_write_all_def mock_read_def mock_purge_rx_def mock_set_modem_def
      mock_sleep_def mock_writes_def Let_def split: list.split)

end
