(* ===== verification/Wire_Read.thy ===== *)
theory Wire_Read
  imports Byte_Transport Deframe
begin

text \<open>
  Framed reads over a transport, \<open>rmvci-core/src/session/wire.rs\<close>. On a byte stream the
  reader returns exactly the next frame and leaves what follows it, however the port
  portions its bytes.
\<close>

text \<open>\<open>need\<close> is what is left of the buffer, \<open>acc\<close> what is already in it.\<close>

function read_exact ::
  "'s transport \<Rightarrow> nat \<Rightarrow> instant \<Rightarrow> duration \<Rightarrow> bytes \<Rightarrow> (bytes, error, 's) op" where
  "read_exact T need deadline timeout acc s =
     (if need = 0 then (Ok acc, s)
      else case t_now T s of (now, s1) \<Rightarrow>
        (case t_read T need (deadline - now) s1 of
           (Inl e, s2) \<Rightarrow> (map_err Transport (Inl e), s2)
         | (Inr b, s2) \<Rightarrow>
             if b = [] then (Err (Timeout timeout), s2)
             else read_exact T (need - length b) deadline timeout (acc @ b) s2))"
  by pat_completeness auto
termination
  by (relation "measure (\<lambda>(T, need, _). need)") auto

declare read_exact.simps [simp del]

definition read_exact_within :: "'s transport \<Rightarrow> nat \<Rightarrow> duration \<Rightarrow> (bytes, error, 's) op" where
  "read_exact_within T need timeout s =
     (case t_now T s of (now, s1) \<Rightarrow> read_exact T need (now + timeout) timeout [] s1)"

definition read_frame :: "'s transport \<Rightarrow> duration \<Rightarrow> (bytes, error, 's) op" where
  "read_frame T timeout =
     sbind (read_exact_within T 2 timeout) (\<lambda>hdr.
     sbind (slift (rd_u16 hdr)) (\<lambda>len.
       if len < 3 then sthrow (Codec (TooShort len))
       else if len > MAX_FRAME then sthrow (Codec (TooLong len))
       else sbind (read_exact_within T (len - 2) (timeout + from_millis (len div 5 + 50))) (\<lambda>body.
         sreturn (hdr @ body))))"

section \<open>Reads on a byte stream\<close>

context byte_stream
begin

lemma read_exact_spec:
  "\<exists>s'. read_exact T need deadline timeout acc s =
     (if need \<le> length (held s) then Ok (acc @ take need (held s)) else Err (Timeout timeout), s')
   \<and> held s' = drop need (held s)"
proof (induction need arbitrary: acc s rule: less_induct)
  case (less need)
  show ?case
  proof (cases "need = 0")
    case True
    then show ?thesis by (simp add: read_exact.simps)
  next
    case False
    obtain now s1 where now: "t_now T s = (now, s1)" by fastforce
    then have s1: "held s1 = held s" using now_held [of s] by simp
    obtain b s2 where rd: "t_read T need (deadline - now) s1 = (Ok b, s2)"
      and b: "held s1 = b @ held s2" "length b \<le> need" "b = [] \<longrightarrow> held s1 = []"
      using read_portion [of need "deadline - now" s1] False by auto
    show ?thesis
    proof (cases "b = []")
      case True
      with False now rd b s1 show ?thesis by (simp add: read_exact.simps [of T need])
    next
      case bne: False
      have "length b \<noteq> 0" using bne by simp
      then have "need - length b < need" using False by simp
      from less.IH [OF this, of "acc @ b" s2] obtain s' where
        ih: "read_exact T (need - length b) deadline timeout (acc @ b) s2 =
          (if need - length b \<le> length (held s2)
           then Ok ((acc @ b) @ take (need - length b) (held s2)) else Err (Timeout timeout), s')"
        "held s' = drop (need - length b) (held s2)" by blast
      have step: "read_exact T need deadline timeout acc s
          = read_exact T (need - length b) deadline timeout (acc @ b) s2"
        using False bne now rd by (subst read_exact.simps) simp
      have held: "held s = b @ held s2" using b(1) s1 by simp
      have "need - length b \<le> length (held s2) \<longleftrightarrow> need \<le> length (held s)"
        "take need (held s) = b @ take (need - length b) (held s2)"
        "drop need (held s) = drop (need - length b) (held s2)"
        using b(2) by (auto simp: held)
      with ih step show ?thesis by (intro exI [of _ s']) simp
    qed
  qed
qed

lemma read_exact_within_spec:
  "\<exists>s'. read_exact_within T need timeout s =
     (if need \<le> length (held s) then Ok (take need (held s)) else Err (Timeout timeout), s')
   \<and> held s' = drop need (held s)"
proof -
  obtain now s1 where "t_now T s = (now, s1)" by fastforce
  moreover from this have "held s1 = held s" using now_held [of s] by simp
  ultimately show ?thesis
    using read_exact_spec [of need "now + timeout" timeout "[]" s1]
    unfolding read_exact_within_def by (simp only: prod.case append_Nil)
qed

text \<open>A whole frame at the front of the stream is read as it is, the rest stays.\<close>

lemma read_frame_whole:
  assumes "held s = f @ rest" and "well_framed f"
  shows "\<exists>s'. read_frame T timeout s = (Ok f, s') \<and> held s' = rest"
proof -
  have len: "3 \<le> length f" "length f \<le> MAX_FRAME" "len_field f = length f"
    using assms(2) by (simp_all add: well_framed_def)
  obtain s1 where h: "read_exact_within T 2 timeout s = (Ok (take 2 f), s1)" "held s1 = drop 2 f @ rest"
    using read_exact_within_spec [of 2 timeout s] assms(1) len(1) by auto
  have "len_field (take 2 f) = length f"
    using len_field_append [of "take 2 f" "drop 2 f"] len by simp
  then have rd: "rd_u16 (take 2 f) = (Ok (length f) :: (nat, error) res)"
    using len(1) by (simp add: rd_u16_eq)
  obtain s2 where b: "read_exact_within T (length f - 2) (timeout + from_millis (length f div 5 + 50)) s1
      = (Ok (drop 2 f), s2)" "held s2 = rest"
    using read_exact_within_spec [of "length f - 2" "timeout + from_millis (length f div 5 + 50)" s1]
      h(2) len(1) by auto
  show ?thesis
    using h b rd len by (auto simp: read_frame_def)
qed

text \<open>Whatever the bytes, the outcome is a frame or an error.\<close>

lemma read_frame_not_panic: "fst (read_frame T timeout s) \<noteq> panic"
proof -
  obtain s1 where 1: "read_exact_within T 2 timeout s =
      (if 2 \<le> length (held s) then Ok (take 2 (held s)) else Err (Timeout timeout), s1)"
    using read_exact_within_spec [of 2 timeout s] by blast
  show ?thesis
  proof (cases "2 \<le> length (held s)")
    case True
    let ?n = "len_field (take 2 (held s))"
    have rd: "rd_u16 (take 2 (held s)) = (Ok ?n :: (nat, error) res)"
      using True by (simp add: rd_u16_eq)
    obtain r s2 where "read_exact_within T (?n - 2) (timeout + from_millis (?n div 5 + 50)) s1 = (r, s2)"
      and "r \<noteq> panic"
      using read_exact_within_spec [of "?n - 2" "timeout + from_millis (?n div 5 + 50)" s1]
      by (auto split: if_splits)
    with 1 True rd show ?thesis
      by (cases r) (simp_all add: read_frame_def)
  qed (use 1 in \<open>simp add: read_frame_def\<close>)
qed

text \<open>A silent port times out with the caller's timeout.\<close>

lemma read_frame_silent:
  "length (held s) < 2 \<Longrightarrow> \<exists>s'. read_frame T timeout s = (Err (Timeout timeout), s') \<and> held s' = []"
  using read_exact_within_spec [of 2 timeout s] by (auto simp: read_frame_def)

end

section \<open>What reading leaves alone\<close>

definition keeps :: "('s \<Rightarrow> 'g) \<Rightarrow> ('s \<Rightarrow> 'a \<times> 's) \<Rightarrow> bool" where
  "keeps g m \<longleftrightarrow> (\<forall>s. g (snd (m s)) = g s)"

lemma keepsD: "keeps g m \<Longrightarrow> m s = (r, s') \<Longrightarrow> g s' = g s"
  unfolding keeps_def by (metis snd_conv)

lemma keeps_pure [simp]: "keeps g (slift r)" "keeps g (sreturn v)" "keeps g (sthrow e)"
  by (simp_all add: keeps_def)

lemma keeps_sbind:
  assumes "keeps g m" and "\<And>v. keeps g (f v)"
  shows "keeps g (sbind m f)"
  unfolding keeps_def
proof
  fix s
  obtain r s1 where m: "m s = (r, s1)" by fastforce
  then have "g s1 = g s" by (rule keepsD [OF assms(1)])
  with m assms(2) show "g (snd (sbind m f s)) = g s"
    by (cases r) (auto simp: keeps_def)
qed

lemma read_exact_keeps:
  assumes "\<And>n d s. g (snd (t_read T n d s)) = g s" and "\<And>s. g (snd (t_now T s)) = g s"
  shows "g (snd (read_exact T need deadline timeout acc s)) = g s"
proof (induction need arbitrary: acc s rule: less_induct)
  case (less need)
  obtain now s1 where now: "t_now T s = (now, s1)" by fastforce
  obtain r s2 where rd: "t_read T need (deadline - now) s1 = (r, s2)" by fastforce
  have w: "g s1 = g s" "g s2 = g s"
    using assms(2) [of s] assms(1) [of need "deadline - now" s1] now rd by simp_all
  show ?case
  proof (cases r)
    case (Inl e)
    with now rd w show ?thesis by (simp add: read_exact.simps [of T need])
  next
    case (Inr b)
    show ?thesis
    proof (cases "need = 0 \<or> b = []")
      case True
      with Inr now rd w show ?thesis by (auto simp: read_exact.simps [of T need])
    next
      case False
      then have "need - length b < need" by simp
      from less.IH [OF this, of "acc @ b" s2] False Inr now rd w show ?thesis
        by (simp add: read_exact.simps [of T need])
    qed
  qed
qed

lemma read_frame_keeps:
  assumes "\<And>n d s. g (snd (t_read T n d s)) = g s" and "\<And>s. g (snd (t_now T s)) = g s"
  shows "keeps g (read_frame T timeout)"
proof -
  have rd: "keeps g (read_exact_within T n d)" for n d
    unfolding keeps_def
  proof
    fix s
    show "g (snd (read_exact_within T n d s)) = g s"
    proof (cases "t_now T s")
      case (Pair now s1)
      with assms(2) [of s] show ?thesis by (simp add: read_exact_within_def read_exact_keeps [OF assms])
    qed
  qed
  show ?thesis
    unfolding read_frame_def by (auto intro!: keeps_sbind rd)
qed

text \<open>Likewise for what only grows: an order on the states that every read and clock reading respects.\<close>

definition advances :: "('s \<Rightarrow> nat) \<Rightarrow> ('s \<Rightarrow> 'a \<times> 's) \<Rightarrow> bool" where
  "advances g m \<longleftrightarrow> (\<forall>s. g s \<le> g (snd (m s)))"

lemma advancesD: "advances g m \<Longrightarrow> m s = (r, s') \<Longrightarrow> g s \<le> g s'"
  unfolding advances_def by (metis snd_conv)

lemma advances_pure [simp]: "advances g (slift r)" "advances g (sreturn v)" "advances g (sthrow e)"
  by (simp_all add: advances_def)

lemma advances_sbind:
  assumes "advances g m" and "\<And>v. advances g (f v)"
  shows "advances g (sbind m f)"
  unfolding advances_def
proof
  fix s
  obtain r s1 where m: "m s = (r, s1)" by fastforce
  then have "g s \<le> g s1" by (rule advancesD [OF assms(1)])
  with m assms(2) show "g s \<le> g (snd (sbind m f s))"
    by (cases r) (auto simp: advances_def intro: le_trans)
qed

lemma read_exact_advances:
  fixes g :: "'s \<Rightarrow> nat"
  assumes "\<And>n d s. g s \<le> g (snd (t_read T n d s))" and "\<And>s. g s \<le> g (snd (t_now T s))"
  shows "g s \<le> g (snd (read_exact T need deadline timeout acc s))"
proof (induction need arbitrary: acc s rule: less_induct)
  case (less need)
  obtain now s1 where now: "t_now T s = (now, s1)" by fastforce
  obtain r s2 where rd: "t_read T need (deadline - now) s1 = (r, s2)" by fastforce
  have w: "g s \<le> g s1" "g s1 \<le> g s2"
    using assms(2) [of s] assms(1) [of s1 need "deadline - now"] now rd by simp_all
  then have w2: "g s \<le> g s2" by (rule le_trans)
  show ?case
  proof (cases r)
    case (Inl e)
    with now rd w2 show ?thesis by (simp add: read_exact.simps [of T need])
  next
    case (Inr b)
    show ?thesis
    proof (cases "need = 0 \<or> b = []")
      case True
      with Inr now rd w2 show ?thesis by (auto simp: read_exact.simps [of T need])
    next
      case False
      then have "need - length b < need" by simp
      from le_trans [OF w2 less.IH [OF this, of s2 "acc @ b"]] False Inr now rd show ?thesis
        by (simp add: read_exact.simps [of T need])
    qed
  qed
qed

lemma read_frame_advances:
  assumes "\<And>n d s. g s \<le> g (snd (t_read T n d s))" and "\<And>s. g s \<le> g (snd (t_now T s))"
  shows "advances g (read_frame T timeout)"
proof -
  have rd: "advances g (read_exact_within T n d)" for n d
    unfolding advances_def
  proof
    fix s
    show "g s \<le> g (snd (read_exact_within T n d s))"
    proof (cases "t_now T s")
      case (Pair now s1)
      with assms(2) [of s] read_exact_advances [of g T s1 n "now + d" d "[]", OF assms] show ?thesis
        by (simp add: read_exact_within_def)
    qed
  qed
  show ?thesis
    unfolding read_frame_def by (auto intro!: advances_sbind rd)
qed

text \<open>On the scripted transport a read only takes bytes from the receive buffer.\<close>

lemma mock_read_frame_keeps:
  assumes "read_frame mock_transport timeout m = (r, m')"
  shows "m' = m\<lparr>mk_rx := mk_rx m'\<rparr>"
proof -
  let ?g = "\<lambda>m. m\<lparr>mk_rx := []\<rparr>"
  have "keeps ?g (read_frame mock_transport timeout)"
    by (rule read_frame_keeps) (simp_all add: mock_read_def Let_def)
  from keepsD [OF this assms] show ?thesis by (cases m; cases m') simp
qed



end
