(* ===== verification/Link.thy ===== *)
theory Link
  imports Wire_Read Inner
begin

text \<open>
  Opening the session: \<open>KeyedLink::establish\<close> of \<open>rmvci-core/src/session/link.rs\<close> and
  the reset dance \<open>open\<close> of \<open>session/actor.rs\<close>. Command 0x01 toggles the adapter's
  encryption, so it must follow the plaintext reset frame; \<open>ident_guarded\<close> says so of a log
  of writes, and \<open>keeps_guard\<close> of an operation.
\<close>

text \<open>What the session is built over: the build profile, the DES block functions, the port.\<close>

record 's env =
  ev_dbg :: bool
  ev_enc :: "bytes \<Rightarrow> bytes \<Rightarrow> bytes"
  ev_dec :: "bytes \<Rightarrow> bytes \<Rightarrow> bytes"
  ev_io :: "'s transport"

text \<open>A transport call, its error converted by \<open>From<TransportError>\<close>.\<close>

definition io_op :: "('a, transport_error, 's) op \<Rightarrow> ('a, error, 's) op" where
  "io_op m s = (case m s of (r, s') \<Rightarrow> (map_err Transport r, s'))"

definition codec :: "('a, codec_error) res \<Rightarrow> ('a, error) res" where
  "codec r = map_err Codec r"

lemma codec_Ok [simp]: "codec (Ok v) = Ok v"
  by (simp add: codec_def)

lemma sbind_slift_Ok [simp]: "sbind (slift (Ok v)) f = f v"
  by (rule ext) simp

definition pause :: "'s transport \<Rightarrow> duration \<Rightarrow> (unit, error, 's) op" where
  "pause T d s = (Ok (), t_sleep T d s)"

definition establish :: "'s transport \<Rightarrow> (bytes, error, 's) op" where
  "establish T =
     sbind (slift (codec (encode_plain []))) (\<lambda>reset.
     sbind (io_op (t_purge_rx T)) (\<lambda>_.
     sbind (io_op (t_write_all T reset)) (\<lambda>_.
     sbind (pause T (from_millis 110)) (\<lambda>_.
     sbind (io_op (t_purge_rx T)) (\<lambda>_.
     sbind (slift (codec (encode_plain identify))) (\<lambda>ident.
     sbind (io_op (t_write_all T ident)) (\<lambda>_.
     sbind (read_frame T (from_millis 2000)) (\<lambda>challenge.
     sbind (slift (codec (decode_plain challenge))) (\<lambda>payload.
       slift (codec (parse_challenge payload)))))))))))"

text \<open>The outcome of the latency fix is only logged.\<close>

definition open_session :: "'s transport \<Rightarrow> (bytes, error, 's) op" where
  "open_session T =
     sbind (io_op (t_set_modem T True False)) (\<lambda>_.
     sbind (pause T (from_millis 15)) (\<lambda>_.
     sbind (io_op (t_set_modem T False False)) (\<lambda>_.
     sbind (pause T (from_millis 1000)) (\<lambda>_.
     sbind (io_op (t_purge_rx T)) (\<lambda>_.
     sbind (\<lambda>s. (Ok (), snd (t_optimize_latency T s))) (\<lambda>_.
       establish T))))))"

section \<open>The handshake's frames\<close>

definition reset_frame :: bytes where "reset_frame = [3, 0, 3]"

definition ident_frame :: bytes where
  "ident_frame = [12, 0, 7, 0, 1, 0x4D, 0x56, 0x43, 0x49, 0x2D, 0x54, 0x62]"

lemma ident_checksum: "xorsum (butlast ident_frame) = last ident_frame"
  by (simp add: ident_frame_def)

lemma len16_small: "len16 3 = [3, 0]" "len16 7 = [7, 0]" "len16 12 = [12, 0]"
  by (simp_all add: len16_def u16_le_def)

lemma handshake_frames:
  "encode_plain [] = Ok reset_frame" "encode_plain identify = Ok ident_frame"
  by (simp_all add: encode_plain_Ok len16_small reset_frame_def ident_frame_def identify_def ilen_def)

section \<open>Writes of an operation\<close>

fun ident_guarded :: "bytes option \<Rightarrow> bytes list \<Rightarrow> bool" where
  "ident_guarded prev [] = True"
| "ident_guarded prev (w # ws) \<longleftrightarrow>
     (w = ident_frame \<longrightarrow> prev = Some reset_frame) \<and> ident_guarded (Some w) ws"

lemma ident_guarded_mono: "ident_guarded None ws \<Longrightarrow> ident_guarded p ws"
  by (cases ws) auto

lemma ident_guarded_append:
  "ident_guarded p ws \<Longrightarrow> ident_guarded None vs \<Longrightarrow> ident_guarded p (ws @ vs)"
  by (induction p ws rule: ident_guarded.induct) (auto intro: ident_guarded_mono)

text \<open>Encrypted frames are never mistaken for the identify frame: their length fields differ.\<close>

lemma encrypted_not_ident:
  assumes "encode_encrypted dbg enc key inner = Ok f"
  shows "f \<noteq> ident_frame"
proof
  let ?n = "pad8 (length inner) + 3"
  assume "f = ident_frame"
  from assms obtain x where n: "?n < 65536" and f: "f = len16 ?n @ x"
    by (auto simp: encode_encrypted_eq Let_def split: if_splits)
  have "take 2 f = len16 ?n" unfolding f by simp
  with \<open>f = ident_frame\<close> have "len16 ?n = [12, 0]"
    by (simp add: ident_frame_def)
  then have "?n = 12"
    using len_field_len16 [OF n, of "[]"] by simp
  then show False
    using pad8_props(1) [of "length inner"] by presburger
qed

text \<open>The writes of one run of an operation are one of the given lists.\<close>

definition logs :: "('s \<Rightarrow> bytes list) \<Rightarrow> bytes list set \<Rightarrow> ('a, error, 's) op \<Rightarrow> bool" where
  "logs wrote W m \<longleftrightarrow> (\<forall>s. \<exists>ws \<in> W. wrote (snd (m s)) = wrote s @ ws)"

definition keeps_guard :: "('s \<Rightarrow> bytes list) \<Rightarrow> ('a, error, 's) op \<Rightarrow> bool" where
  "keeps_guard wrote m \<longleftrightarrow> logs wrote {ws. ident_guarded None ws} m"

lemma logsD: "logs wrote W m \<Longrightarrow> m s = (r, s') \<Longrightarrow> \<exists>ws \<in> W. wrote s' = wrote s @ ws"
  unfolding logs_def by (metis snd_conv)

lemma logs_mono: "logs wrote V m \<Longrightarrow> V \<subseteq> W \<Longrightarrow> logs wrote W m"
  unfolding logs_def by blast

lemma logs_sbind:
  assumes "logs wrote V m" and "\<And>v. logs wrote W (f v)"
  shows "logs wrote (V \<union> {vs @ ws | vs ws. vs \<in> V \<and> ws \<in> W}) (sbind m f)"
  unfolding logs_def
proof
  fix s
  obtain r s1 where m: "m s = (r, s1)" by fastforce
  obtain vs where vs: "vs \<in> V" "wrote s1 = wrote s @ vs"
    using logsD [OF assms(1) m] by blast
  show "\<exists>ws \<in> V \<union> {vs @ ws | vs ws. vs \<in> V \<and> ws \<in> W}. wrote (snd (sbind m f s)) = wrote s @ ws"
  proof (cases r)
    case (Inl e)
    with m vs show ?thesis by auto
  next
    case (Inr v)
    obtain ws where "ws \<in> W" "wrote (snd (f v s1)) = wrote s1 @ ws"
      using assms(2) [of v] unfolding logs_def by blast
    with Inr m vs show ?thesis by (intro bexI [of _ "vs @ ws"]) auto
  qed
qed

lemma logs_silent: "(\<And>s. wrote (snd (m s)) = wrote s) \<Longrightarrow> [] \<in> W \<Longrightarrow> logs wrote W m"
  unfolding logs_def by force

lemma logs_pure [simp]:
  "[] \<in> W \<Longrightarrow> logs wrote W (slift r)" "[] \<in> W \<Longrightarrow> logs wrote W (sreturn v)"
  "[] \<in> W \<Longrightarrow> logs wrote W (sthrow e)"
  by (simp_all add: logs_silent)

lemma logs_after_silent:
  assumes "logs wrote {[]} m" and "\<And>v. logs wrote W (f v)" and "[] \<in> W"
  shows "logs wrote W (sbind m f)"
  by (rule logs_mono [OF logs_sbind [OF assms(1,2)]]) (use assms(3) in auto)

lemma keeps_guard_silent: "logs wrote {[]} m \<Longrightarrow> keeps_guard wrote m"
  unfolding keeps_guard_def by (rule logs_mono) auto

lemma keeps_guard_sbind:
  assumes "keeps_guard wrote m" and "\<And>v. keeps_guard wrote (f v)"
  shows "keeps_guard wrote (sbind m f)"
  unfolding keeps_guard_def
  by (rule logs_mono [OF logs_sbind [OF assms [unfolded keeps_guard_def]]])
    (auto intro: ident_guarded_append)

lemma snd_io_op [simp]: "snd (io_op m s) = snd (m s)"
  by (simp add: io_op_def split: prod.split)

context write_log
begin

lemma logs_read_frame [simp]: "logs wrote {[]} (read_frame T timeout)"
  using read_frame_keeps [of wrote T timeout] by (intro logs_silent) (simp_all add: keeps_def)

lemma logs_io [simp]:
  "logs wrote {[]} (io_op (t_purge_rx T))" "logs wrote {[]} (pause T d)"
  "logs wrote {[]} (io_op (t_set_modem T x y))"
  "logs wrote {[]} (\<lambda>s. (Ok (), snd (t_optimize_latency T s)))"
  by (rule logs_silent; simp add: pause_def)+

lemma logs_write: "logs wrote {[b]} (io_op (t_write_all T b))"
  by (simp add: logs_def write_logged)

text \<open>The handshake writes the reset frame, then the identify frame, and nothing else.\<close>

lemma logs_establish: "logs wrote {[], [reset_frame], [reset_frame, ident_frame]} (establish T)"
proof -
  let ?tail = "sbind (read_frame T (from_millis 2000)) (\<lambda>challenge.
     sbind (slift (codec (decode_plain challenge))) (\<lambda>payload.
       slift (codec (parse_challenge payload))))"
  have tail: "logs wrote {[]} ?tail"
    by (intro logs_after_silent) simp_all
  have 2: "logs wrote {[ident_frame]} (sbind (io_op (t_write_all T ident_frame)) (\<lambda>_. ?tail))"
    by (rule logs_mono [OF logs_sbind [OF logs_write tail]]) simp
  have 1: "logs wrote {[], [ident_frame]} (sbind (pause T (from_millis 110)) (\<lambda>_.
      sbind (io_op (t_purge_rx T)) (\<lambda>_. sbind (io_op (t_write_all T ident_frame)) (\<lambda>_. ?tail))))"
    by (rule logs_after_silent [OF logs_io(2)], rule logs_after_silent [OF logs_io(1)], rule logs_mono [OF 2])
      simp_all
  show ?thesis
    unfolding establish_def handshake_frames codec_Ok sbind_slift_Ok
    by (rule logs_after_silent [OF logs_io(1)], rule logs_mono [OF logs_sbind [OF logs_write 1]]) auto
qed

lemma keeps_guard_establish: "keeps_guard wrote (establish T)"
  unfolding keeps_guard_def
  by (rule logs_mono [OF logs_establish]) (auto simp: reset_frame_def ident_frame_def)

lemma keeps_guard_open: "keeps_guard wrote (open_session T)"
  unfolding open_session_def
  by (intro keeps_guard_sbind keeps_guard_establish keeps_guard_silent) simp_all

end

section \<open>The handshake on the scripted adapter\<close>

text \<open>The adapter's reply to the identify command: a plain frame with \<open>09\<close>, two bytes and the key.\<close>

definition challenge_payload :: "u8 \<Rightarrow> u8 \<Rightarrow> bytes \<Rightarrow> bytes" where
  "challenge_payload a b key = [0x09, a, b] @ key"

lemma parse_challenge_payload:
  "length key = 8 \<Longrightarrow> parse_challenge (challenge_payload a b key) = Ok key"
  by (simp add: challenge_payload_def parse_challenge_def)

lemma plain_well_framed: "encode_plain p = Ok f \<Longrightarrow> length p \<le> MAX_INNER \<Longrightarrow> well_framed f"
  by (auto simp: encode_plain_def Let_def well_framed_def MAX_FRAME_def MAX_INNER_def split: if_splits)

lemma open_session_mock:
  assumes "length key = 8" and "encode_plain (challenge_payload a b key) = Ok ch"
    and "m = mock_new [step_exchange reset_frame r, step_exchange ident_frame ch]"
  shows "fst (open_session mock_transport m) = Ok key
    \<and> mk_events (snd (open_session mock_transport m)) =
        [EvModem True False, EvModem False False, EvPurgeRx, EvPurgeRx, EvWrite reset_frame,
         EvPurgeRx, EvWrite ident_frame]
    \<and> mk_sleeps (snd (open_session mock_transport m)) = [from_millis 15, from_millis 1000, from_millis 110]"
proof -
  let ?m = "m\<lparr>mk_steps := [], mk_rx := ch,
      mk_events := [EvModem True False, EvModem False False, EvPurgeRx, EvPurgeRx, EvWrite reset_frame,
         EvPurgeRx, EvWrite ident_frame],
      mk_sleeps := [from_millis 15, from_millis 1000, from_millis 110], mk_now := Suc (Suc 0)\<rparr>"
  have "well_framed ch"
    using plain_well_framed [OF assms(2)] assms(1) by (simp add: challenge_payload_def MAX_INNER_def)
  then obtain s where rd: "read_frame mock_transport (from_millis 2000) ?m = (Ok ch, s)"
    using mock_stream.read_frame_whole [of ?m ch "[]" "from_millis 2000"] by auto
  have s: "mk_events s = mk_events ?m" "mk_sleeps s = mk_sleeps ?m"
    by (subst mock_read_frame_keeps [OF rd], simp)+
  have "open_session mock_transport m = (Ok key, s)"
    unfolding open_session_def establish_def handshake_frames codec_Ok sbind_slift_Ok
    using rd decode_plain_encode [OF assms(2)] parse_challenge_payload [OF assms(1), of a b]
    by (simp add: assms(3) io_op_def pause_def mock_set_modem_def mock_purge_rx_def mock_write_all_def
        mock_sleep_def mock_new_def step_exchange_def Let_def)
  with s show ?thesis by (simp add: assms(3))
qed

text \<open>Opening resets the adapter's MCU through the modem lines with the waits of the C driver,
  sends the reset frame and then the identify frame, and installs exactly the eight key bytes
  of the adapter's challenge.\<close>
theorem open_session_installs_key:
  assumes "length key = 8" and "encode_plain (challenge_payload a b key) = Ok ch"
    and "m = mock_new [step_exchange reset_frame r, step_exchange ident_frame ch]"
  shows "fst (open_session mock_transport m) = Ok key
    \<and> mk_events (snd (open_session mock_transport m)) =
        [EvModem True False, EvModem False False, EvPurgeRx, EvPurgeRx, EvWrite reset_frame,
         EvPurgeRx, EvWrite ident_frame]
    \<and> mk_sleeps (snd (open_session mock_transport m)) = [from_millis 15, from_millis 1000, from_millis 110]"
  by (rule open_session_mock [OF assms])

lemma open_session_installs_key_witness:
  "\<exists>ch. encode_plain (challenge_payload 0 7 [1, 2, 3, 4, 5, 6, 7, 8]) = Ok ch \<and>
     fst (open_session mock_transport
       (mock_new [step_exchange reset_frame [], step_exchange ident_frame ch])) = Ok [1, 2, 3, 4, 5, 6, 7, 8]"
proof -
  obtain ch where ch: "encode_plain (challenge_payload 0 7 [1, 2, 3, 4, 5, 6, 7, 8]) = Ok ch"
    by (simp add: encode_plain_Ok challenge_payload_def)
  from open_session_installs_key [OF _ ch refl, of "[]"] ch show ?thesis by simp
qed

end
