(* ===== verification/Actor.thy ===== *)
theory Actor
  imports Link
begin

text \<open>
  The port-owning actor, \<open>rmvci-core/src/session/actor.rs\<close>. \<open>'s actor\<close> is the struct
  \<open>Actor\<close> with the world state \<open>'s\<close> behind its transport; each method is a state operation,
  \<open>handle\<close> serves one request, \<open>idle_poll\<close> one expiry of the optional keepalive,
  \<open>teardown\<close> the end. \<open>actor_run\<close> is the receive loop: any sequence of requests, and of idle
  polls where a keepalive is configured.
\<close>

section \<open>State\<close>

definition WEDGE_THRESHOLD :: u8 where "WEDGE_THRESHOLD = 3"

datatype request =
    ReqTransact bytes duration
  | ReqConnect protocol_id u32 u32
  | ReqDisconnect protocol_id
  | ReqPoll protocol_id duration

text \<open>What is sent back on the request's reply channel.\<close>

datatype answer = ABytes bytes | AUnit | AMsg "rx_msg option"

record 's actor =
  ac_io :: 's
  ac_key :: bytes
  ac_keepalive :: "duration option"
  ac_queues :: "protocol_id \<Rightarrow> rx_msg list option"
  ac_connected :: "protocol_id list"
  ac_silent :: u8
  ac_wedged :: bool
  ac_last_wire :: instant

text \<open>The actor after a successful open, as the spawned thread builds it.\<close>

definition actor_new :: "'s transport \<Rightarrow> duration option \<Rightarrow> bytes \<Rightarrow> 's \<Rightarrow> 's actor" where
  "actor_new T keepalive key s =
     (case t_now T s of (now, s') \<Rightarrow>
       \<lparr>ac_io = s', ac_key = key, ac_keepalive = keepalive, ac_queues = (\<lambda>_. None), ac_connected = [],
        ac_silent = 0, ac_wedged = False, ac_last_wire = now\<rparr>)"

definition spawn :: "'s transport \<Rightarrow> duration option \<Rightarrow> 's \<Rightarrow> ('s actor, error) res \<times> 's" where
  "spawn T keepalive s =
     (case open_session T s of
        (Inl e, s') \<Rightarrow> (Inl e, s')
      | (Inr key, s') \<Rightarrow> (Ok (actor_new T keepalive key s'), s'))"

definition on_io :: "('a, error, 's) op \<Rightarrow> ('a, error, 's actor) op" where
  "on_io m a = (case m (ac_io a) of (r, s) \<Rightarrow> (r, a\<lparr>ac_io := s\<rparr>))"

text \<open>\<open>self.last_wire = Instant::now()\<close>.\<close>

definition stamp :: "'s transport \<Rightarrow> (unit, error, 's actor) op" where
  "stamp T a = (case t_now T (ac_io a) of (now, s) \<Rightarrow> (Ok (), a\<lparr>ac_io := s, ac_last_wire := now\<rparr>))"

section \<open>One exchange\<close>

definition transact_inner :: "'s env \<Rightarrow> bytes \<Rightarrow> duration \<Rightarrow> (bytes, error, 's actor) op" where
  "transact_inner E inner timeout a =
     sbind (slift (codec (encode_encrypted (ev_dbg E) (ev_enc E) (ac_key a) inner))) (\<lambda>wire_frame.
     sbind (on_io (io_op (t_purge_rx (ev_io E)))) (\<lambda>_.
     sbind (on_io (io_op (t_write_all (ev_io E) wire_frame))) (\<lambda>_.
     sbind (stamp (ev_io E)) (\<lambda>_.
     sbind (on_io (read_frame (ev_io E) timeout)) (\<lambda>raw.
     sbind (stamp (ev_io E)) (\<lambda>_.
       slift (codec (decode_encrypted (ev_dbg E) (ev_dec E) (ac_key a) raw)))))))) a"

definition note_silence :: "'s actor \<Rightarrow> 's actor" where
  "note_silence a =
     (let silent = (if ac_silent a = 255 then 255 else ac_silent a + 1) in
      a\<lparr>ac_silent := silent, ac_wedged := (if silent \<ge> WEDGE_THRESHOLD then True else ac_wedged a)\<rparr>)"

fun timed_out :: "('a, error) res \<Rightarrow> bool" where
  "timed_out (Inl (Fail (Timeout _))) = True"
| "timed_out _ = False"

text \<open>Silence counts towards the wedge verdict, any other outcome clears the count; a panic
  unwinds past both.\<close>

definition transact :: "'s env \<Rightarrow> bytes \<Rightarrow> duration \<Rightarrow> (bytes, error, 's actor) op" where
  "transact E inner timeout a =
     (case transact_inner E inner timeout a of
        (r, a') \<Rightarrow> (r, if r = panic then a' else if timed_out r then note_silence a'
                        else a'\<lparr>ac_silent := 0\<rparr>))"

definition transact_status :: "'s env \<Rightarrow> bytes \<Rightarrow> cmd \<Rightarrow> duration \<Rightarrow> (unit, error, 's actor) op" where
  "transact_status E inner c timeout =
     sbind (transact E inner timeout) (\<lambda>resp.
     sbind (slift (codec (status_of resp c))) (\<lambda>st.
       if status_is_ok st then sreturn () else sthrow (Rejected c st)))"

section \<open>Requests\<close>

definition reestablish :: "'s env \<Rightarrow> (unit, error, 's actor) op" where
  "reestablish E a =
     (case on_io (establish (ev_io E)) a of
        (Inl e, a') \<Rightarrow> (Inl e, a')
      | (Inr key, a') \<Rightarrow> (Ok (), a'\<lparr>ac_key := key\<rparr>))"

definition note_connected :: "protocol_id \<Rightarrow> (unit, error, 's actor) op" where
  "note_connected proto a =
     (Ok (), if proto \<in> set (ac_connected a) then a
             else a\<lparr>ac_connected := sort_key wire (ac_connected a @ [proto])\<rparr>)"

definition actor_connect :: "'s env \<Rightarrow> protocol_id \<Rightarrow> u32 \<Rightarrow> u32 \<Rightarrow> (unit, error, 's actor) op" where
  "actor_connect E proto flags baud a =
     (let inner = connect proto flags baud; timeout = from_millis 2000 in
      case transact_status E inner CmdConnect timeout a of
        (Inl Panic, a1) \<Rightarrow> (panic, a1)
      | (Inl (Fail _), a1) \<Rightarrow>
          sbind (reestablish E) (\<lambda>_.
          sbind (transact_status E inner CmdConnect timeout) (\<lambda>_. note_connected proto)) a1
      | (Inr _, a1) \<Rightarrow> note_connected proto a1)"

definition actor_disconnect :: "'s env \<Rightarrow> protocol_id \<Rightarrow> (unit, error, 's actor) op" where
  "actor_disconnect E proto a =
     (case transact_status E (disconnect proto) CmdDisconnect (from_millis 1000) a of
        (r, a1) \<Rightarrow> (r, if r = panic then a1
                        else a1\<lparr>ac_connected := filter (\<lambda>p. p \<noteq> proto) (ac_connected a1)\<rparr>))"

definition msg_of_reply :: "read_reply \<Rightarrow> rx_msg option" where
  "msg_of_reply pr =
     (if rr_msg pr = [] then None else Some \<lparr>rx_status = rr_status pr, rx_data = rr_msg pr\<rparr>)"

definition actor_poll :: "'s env \<Rightarrow> protocol_id \<Rightarrow> duration \<Rightarrow> (rx_msg option, error, 's actor) op" where
  "actor_poll E proto timeout a =
     (case ac_queues a proto of
        Some (m # ms) \<Rightarrow> (Ok (Some m), a\<lparr>ac_queues := (ac_queues a)(proto := Some ms)\<rparr>)
      | _ \<Rightarrow>
          sbind (transact E (read_poll proto) timeout) (\<lambda>resp.
          sbind (slift (codec (parse_read_reply resp))) (\<lambda>parsed.
            sreturn (msg_of_reply parsed))) a)"

definition enqueue :: "protocol_id \<Rightarrow> rx_msg \<Rightarrow> 's actor \<Rightarrow> 's actor" where
  "enqueue proto m a =
     a\<lparr>ac_queues := (ac_queues a)(proto :=
         Some ((case ac_queues a proto of None \<Rightarrow> [] | Some q \<Rightarrow> q) @ [m]))\<rparr>"

definition poll_proto_of :: "'s actor \<Rightarrow> protocol_id" where
  "poll_proto_of a = (case ac_connected a of [] \<Rightarrow> Iso15765 | p # _ \<Rightarrow> p)"

definition idle_poll :: "'s env \<Rightarrow> (unit, error, 's actor) op" where
  "idle_poll E a =
     (if ac_wedged a then stamp (ev_io E) a
      else let proto = poll_proto_of a in
        (case transact E (read_poll proto) (from_millis 500) a of
           (Inl Panic, a1) \<Rightarrow> (panic, a1)
         | (Inl (Fail _), a1) \<Rightarrow> stamp (ev_io E) a1
         | (Inr resp, a1) \<Rightarrow>
             (case parse_read_reply resp of
                Inl Panic \<Rightarrow> (panic, a1)
              | Inl (Fail _) \<Rightarrow> (Ok (), a1)
              | Inr parsed \<Rightarrow>
                  (Ok (), case msg_of_reply parsed of None \<Rightarrow> a1 | Some m \<Rightarrow> enqueue proto m a1))))"

text \<open>\<open>teardown\<close>: every step goes on past a failure, which is only logged.\<close>

fun disconnect_all :: "'s env \<Rightarrow> protocol_id list \<Rightarrow> (unit, error, 's actor) op" where
  "disconnect_all E [] a = (Ok (), a)"
| "disconnect_all E (p # ps) a =
     (case transact_status E (disconnect p) CmdDisconnect (from_millis 500) a of
        (Inl Panic, a1) \<Rightarrow> (panic, a1)
      | (_, a1) \<Rightarrow> disconnect_all E ps a1)"

definition teardown :: "'s env \<Rightarrow> (unit, error, 's actor) op" where
  "teardown E a =
     (case disconnect_all E (ac_connected a) (a\<lparr>ac_connected := []\<rparr>) of
        (Inl e, a1) \<Rightarrow> (Inl e, a1)
      | (Inr _, a1) \<Rightarrow>
          (case transact E session_close (from_millis 500) a1 of
             (Inl Panic, a2) \<Rightarrow> (panic, a2)
           | (_, a2) \<Rightarrow> (Ok (), a2)))"

definition handle :: "'s env \<Rightarrow> request \<Rightarrow> (answer, error, 's actor) op" where
  "handle E req a =
     (if ac_wedged a then (Err (Wedged (ac_silent a)), a)
      else case req of
        ReqTransact inner timeout \<Rightarrow> sbind (transact E inner timeout) (\<lambda>v. sreturn (ABytes v)) a
      | ReqConnect proto flags baud \<Rightarrow> sbind (actor_connect E proto flags baud) (\<lambda>_. sreturn AUnit) a
      | ReqDisconnect proto \<Rightarrow> sbind (actor_disconnect E proto) (\<lambda>_. sreturn AUnit) a
      | ReqPoll proto timeout \<Rightarrow> sbind (actor_poll E proto timeout) (\<lambda>m. sreturn (AMsg m)) a)"

section \<open>The receive loop\<close>

text \<open>A step of the loop; a panic ends the thread, so it has no successor.\<close>

inductive actor_step :: "'s env \<Rightarrow> 's actor \<Rightarrow> 's actor \<Rightarrow> bool" for E where
  step_request: "handle E req a = (r, a') \<Longrightarrow> r \<noteq> panic \<Longrightarrow> actor_step E a a'"
| step_idle: "ac_keepalive a = Some interval \<Longrightarrow> idle_poll E a = (r, a') \<Longrightarrow> r \<noteq> panic
    \<Longrightarrow> actor_step E a a'"

inductive actor_run :: "'s env \<Rightarrow> 's actor \<Rightarrow> 's actor \<Rightarrow> bool" for E a0 where
  run_start: "actor_run E a0 a0"
| run_step: "actor_run E a0 a \<Longrightarrow> actor_step E a a' \<Longrightarrow> actor_run E a0 a'"

inductive_cases actor_stepE: "actor_step E a a'"

section \<open>What each operation leaves alone\<close>

definition book :: "'s actor \<Rightarrow> (protocol_id \<Rightarrow> rx_msg list option) \<times> protocol_id list \<times> duration option" where
  "book a = (ac_queues a, ac_connected a, ac_keepalive a)"

lemma book_simps [simp]:
  "book (ac_io_update f a) = book a" "book (ac_key_update g a) = book a"
  "book (ac_silent_update h a) = book a" "book (ac_wedged_update i a) = book a"
  "book (ac_last_wire_update j a) = book a"
  by (simp_all add: book_def)

text \<open>What an exchange may change besides the counters: the port and the time stamp.\<close>

definition verdict :: "'s actor \<Rightarrow> bytes \<times> u8 \<times> bool" where
  "verdict a = (ac_key a, ac_silent a, ac_wedged a)"

lemma verdict_simps [simp]:
  "verdict (ac_io_update f a) = verdict a" "verdict (ac_last_wire_update j a) = verdict a"
  by (simp_all add: verdict_def)

lemma keeps_on_io: "(\<And>a f. g (ac_io_update f a) = g a) \<Longrightarrow> keeps g (on_io m)"
  by (simp add: keeps_def on_io_def split: prod.split)

lemma keeps_stamp:
  "(\<And>a f. g (ac_io_update f a) = g a) \<Longrightarrow> (\<And>a f. g (ac_last_wire_update f a) = g a) \<Longrightarrow> keeps g (stamp T)"
  by (simp add: keeps_def stamp_def split: prod.split)

lemma keeps_at: "(\<And>k. keeps g (\<lambda>a. m k a)) \<Longrightarrow> keeps g (\<lambda>a. m (f a) a)"
  by (simp add: keeps_def)

lemma transact_inner_keeps:
  assumes "\<And>a f. g (ac_io_update f a) = g a" and "\<And>a f. g (ac_last_wire_update f a) = g a"
  shows "keeps g (transact_inner E inner timeout)"
  unfolding transact_inner_def
  by (rule keeps_at [where f = ac_key]) (intro keeps_sbind keeps_pure keeps_on_io keeps_stamp assms)

lemma transact_keeps_book: "keeps book (transact E inner timeout)"
  unfolding keeps_def transact_def
proof
  fix a
  obtain r a' where t: "transact_inner E inner timeout a = (r, a')" by fastforce
  have "book a' = book a"
    by (rule keepsD [OF transact_inner_keeps t]) simp_all
  with t show "book (snd (case transact_inner E inner timeout a of
        (r, a') \<Rightarrow> (r, if r = panic then a' else if timed_out r then note_silence a'
                        else a'\<lparr>ac_silent := 0\<rparr>))) = book a"
    by (simp add: note_silence_def Let_def)
qed

lemma transact_status_keeps_book: "keeps book (transact_status E inner c timeout)"
  unfolding transact_status_def
  by (intro keeps_sbind transact_keeps_book keeps_pure) auto

lemma reestablish_keeps_book: "keeps book (reestablish E)"
  by (simp add: keeps_def reestablish_def on_io_def split: prod.split sum.split)

section \<open>The wedge verdict\<close>

text \<open>Below the threshold there is no verdict to give.\<close>

definition wedge_ok :: "'s actor \<Rightarrow> bool" where
  "wedge_ok a \<longleftrightarrow> ac_wedged a \<or> ac_silent a < WEDGE_THRESHOLD"

lemma wedge_ok_verdict: "verdict a' = verdict a \<Longrightarrow> wedge_ok a' = wedge_ok a"
  by (simp add: verdict_def wedge_ok_def)

definition preserves :: "('s \<Rightarrow> bool) \<Rightarrow> ('s \<Rightarrow> 'a \<times> 's) \<Rightarrow> bool" where
  "preserves P m \<longleftrightarrow> (\<forall>s. P s \<longrightarrow> P (snd (m s)))"

lemma preservesD: "preserves P m \<Longrightarrow> P s \<Longrightarrow> m s = (r, s') \<Longrightarrow> P s'"
  unfolding preserves_def by (metis snd_conv)

lemma preserves_pure [simp]: "preserves P (slift r)" "preserves P (sreturn v)" "preserves P (sthrow e)"
  by (simp_all add: preserves_def)

lemma preserves_keeps: "keeps g m \<Longrightarrow> (\<And>a b. g a = g b \<Longrightarrow> P a = P b) \<Longrightarrow> preserves P m"
  unfolding keeps_def preserves_def by metis

lemma preserves_sbind:
  assumes "preserves P m" and "\<And>v. preserves P (f v)"
  shows "preserves P (sbind m f)"
  unfolding preserves_def
proof (intro allI impI)
  fix s
  assume "P s"
  obtain r s1 where m: "m s = (r, s1)" by fastforce
  then have "P s1" by (rule preservesD [OF assms(1) \<open>P s\<close>])
  with m assms(2) show "P (snd (sbind m f s))"
    by (cases r) (auto simp: preserves_def)
qed

lemma note_silence_ok: "wedge_ok (note_silence a)"
  by (simp add: note_silence_def wedge_ok_def Let_def not_le)

lemma transact_wedge_ok: "preserves wedge_ok (transact E inner timeout)"
  unfolding preserves_def
proof (intro allI impI)
  fix a :: "'a actor"
  assume ok: "wedge_ok a"
  obtain r a' where t: "transact_inner E inner timeout a = (r, a')" by fastforce
  have "verdict a' = verdict a"
    by (rule keepsD [OF transact_inner_keeps t]) simp_all
  from wedge_ok_verdict [OF this] ok have "wedge_ok a'" by simp
  moreover have "wedge_ok (a'\<lparr>ac_silent := 0\<rparr>)"
    by (simp add: wedge_ok_def WEDGE_THRESHOLD_def)
  ultimately show "wedge_ok (snd (transact E inner timeout a))"
    using t note_silence_ok [of a'] by (simp add: transact_def)
qed


lemma reestablish_verdict: "reestablish E a = (r, a') \<Longrightarrow> ac_silent a' = ac_silent a \<and> ac_wedged a' = ac_wedged a"
  by (auto simp: reestablish_def on_io_def split: prod.splits sum.splits)

section \<open>Invariants of the receive loop\<close>

text \<open>
  What an invariant has to survive to hold of the actor throughout: one exchange, one
  handshake, a time stamp, and the bookkeeping of channels and queues. Every method, the
  receive loop and the teardown then keep it.
\<close>

locale actor_invariant =
  fixes E :: "'s env" and P :: "'s actor \<Rightarrow> bool"
  assumes exchange: "preserves P (transact E inner timeout)"
    and handshake: "preserves P (reestablish E)"
    and stamped: "preserves P (stamp (ev_io E))"
    and connected: "preserves P (note_connected p)"
    and dropped: "P a \<Longrightarrow> P (a\<lparr>ac_connected := filter f (ac_connected a)\<rparr>)"
    and queued: "P a \<Longrightarrow> P (a\<lparr>ac_queues := q\<rparr>)"
begin

lemma transact_status_P: "preserves P (transact_status E inner c timeout)"
  unfolding transact_status_def by (intro preserves_sbind exchange) auto

lemma connect_P: "preserves P (actor_connect E p fl b)"
  unfolding preserves_def
proof (intro allI impI)
  fix a
  assume inv: "P a"
  obtain r a1 where t: "transact_status E (connect p fl b) CmdConnect (from_millis 2000) a = (r, a1)"
    by fastforce
  then have a1: "P a1" by (rule preservesD [OF transact_status_P inv])
  have "preserves P (sbind (reestablish E) (\<lambda>_.
      sbind (transact_status E (connect p fl b) CmdConnect (from_millis 2000)) (\<lambda>_. note_connected p)))"
    by (intro preserves_sbind handshake transact_status_P connected)
  with a1 t connected [of p] show "P (snd (actor_connect E p fl b a))"
    by (auto simp: actor_connect_def preserves_def Let_def split: sum.split fault.split)
qed

lemma disconnect_P: "preserves P (actor_disconnect E p)"
  unfolding preserves_def
proof (intro allI impI)
  fix a
  assume inv: "P a"
  obtain r a1 where t: "transact_status E (disconnect p) CmdDisconnect (from_millis 1000) a = (r, a1)"
    by fastforce
  then have "P a1" by (rule preservesD [OF transact_status_P inv])
  with t dropped show "P (snd (actor_disconnect E p a))"
    by (simp add: actor_disconnect_def)
qed

lemma poll_P: "preserves P (actor_poll E p timeout)"
  unfolding preserves_def
proof (intro allI impI)
  fix a
  assume inv: "P a"
  have "preserves P (sbind (transact E (read_poll p) timeout) (\<lambda>resp.
          sbind (slift (codec (parse_read_reply resp))) (\<lambda>parsed. sreturn (msg_of_reply parsed))))"
    by (intro preserves_sbind exchange preserves_pure)
  with inv queued show "P (snd (actor_poll E p timeout a))"
    by (auto simp: actor_poll_def preserves_def split: option.split list.split)
qed

lemma handle_P: "preserves P (handle E req)"
proof -
  have "preserves P (case req of
        ReqTransact inner timeout \<Rightarrow> sbind (transact E inner timeout) (\<lambda>v. sreturn (ABytes v))
      | ReqConnect proto flags baud \<Rightarrow> sbind (actor_connect E proto flags baud) (\<lambda>_. sreturn AUnit)
      | ReqDisconnect proto \<Rightarrow> sbind (actor_disconnect E proto) (\<lambda>_. sreturn AUnit)
      | ReqPoll proto timeout \<Rightarrow> sbind (actor_poll E proto timeout) (\<lambda>m. sreturn (AMsg m)))"
    by (cases req) (auto intro: preserves_sbind exchange connect_P disconnect_P poll_P)
  then show ?thesis
    by (cases req) (simp_all add: preserves_def handle_def)
qed

lemma idle_poll_P: "preserves P (idle_poll E)"
  unfolding preserves_def
proof (intro allI impI)
  fix a
  assume inv: "P a"
  obtain r a1 where t: "transact E (read_poll (poll_proto_of a)) (from_millis 500) a = (r, a1)" by fastforce
  then have a1: "P a1" by (rule preservesD [OF exchange inv])
  have "P (snd (stamp (ev_io E) a1))" "P (snd (stamp (ev_io E) a))"
    using stamped a1 inv by (simp_all add: preserves_def)
  with t a1 inv queued show "P (snd (idle_poll E a))"
    by (auto simp: idle_poll_def Let_def enqueue_def split: sum.split fault.split option.split)
qed

lemma run_P: "actor_run E a0 a \<Longrightarrow> P a0 \<Longrightarrow> P a"
proof (induction rule: actor_run.induct)
  case (run_step a a')
  then show ?case
    by (elim actor_stepE) (auto intro: preservesD [OF handle_P] preservesD [OF idle_poll_P])
qed

lemma disconnect_all_P: "preserves P (disconnect_all E ps)"
proof (induction ps)
  case Nil
  then show ?case by (simp add: preserves_def)
next
  case (Cons p ps)
  show ?case
    unfolding preserves_def
  proof (intro allI impI)
    fix a
    assume inv: "P a"
    obtain r a1 where t: "transact_status E (disconnect p) CmdDisconnect (from_millis 500) a = (r, a1)"
      by fastforce
    then have "P a1" by (rule preservesD [OF transact_status_P inv])
    with t Cons show "P (snd (disconnect_all E (p # ps) a))"
      by (auto simp: preserves_def split: sum.split fault.split)
  qed
qed

lemma teardown_P: "preserves P (teardown E)"
  unfolding preserves_def
proof (intro allI impI)
  fix a
  assume inv: "P a"
  have "P (a\<lparr>ac_connected := []\<rparr>)" using dropped [OF inv, of "\<lambda>_. False"] by simp
  moreover obtain r a1 where d: "disconnect_all E (ac_connected a) (a\<lparr>ac_connected := []\<rparr>) = (r, a1)"
    by fastforce
  ultimately have a1: "P a1" by (rule preservesD [OF disconnect_all_P])
  obtain q a2 where t: "transact E session_close (from_millis 500) a1 = (q, a2)" by fastforce
  then have "P a2" by (rule preservesD [OF exchange a1])
  with a1 d t show "P (snd (teardown E a))"
    by (auto simp: teardown_def split: sum.split fault.split)
qed

end

text \<open>The channels are in wire order without duplicates, and the counter is below the threshold
  until the verdict is given.\<close>

definition actor_inv :: "'s actor \<Rightarrow> bool" where
  "actor_inv a \<longleftrightarrow> wedge_ok a \<and> sorted_wrt (\<lambda>p q. wire p < wire q) (ac_connected a)"

lemma actor_inv_cong:
  "book a' = book a \<Longrightarrow> wedge_ok a' \<Longrightarrow> actor_inv a \<Longrightarrow> actor_inv a'"
  by (simp add: book_def actor_inv_def)

lemma wire_distinct: "sorted_wrt (\<lambda>p q. wire p < wire q) ps \<Longrightarrow> distinct ps"
  by (induction ps) auto

lemma wire_sorted:
  assumes "sorted_wrt (\<lambda>p q. wire p < wire q) ps" and "p \<notin> set ps"
  shows "sorted_wrt (\<lambda>p q. wire p < wire q) (sort_key wire (ps @ [p]))"
proof -
  have "distinct ps" using assms(1) by (rule wire_distinct)
  then have "distinct (map wire (sort_key wire (ps @ [p])))"
    using assms(2) by (simp add: distinct_map inj_on_def)
  moreover have "sorted (map wire (sort_key wire (ps @ [p])))" by simp
  ultimately have "sorted_wrt (<) (map wire (sort_key wire (ps @ [p])))"
    by (simp add: strict_sorted_iff)
  then show ?thesis by (simp add: sorted_wrt_map)
qed

interpretation loop: actor_invariant E actor_inv for E
proof
  show "preserves actor_inv (transact E inner timeout)" for inner timeout
    unfolding preserves_def
    by (metis actor_inv_cong actor_inv_def keeps_def preserves_def transact_keeps_book transact_wedge_ok)
  show "preserves actor_inv (reestablish E)"
    unfolding preserves_def
    by (metis (no_types, lifting) actor_inv_cong actor_inv_def keeps_def prod.collapse
        reestablish_keeps_book reestablish_verdict wedge_ok_def)
qed (simp_all add: preserves_def stamp_def note_connected_def actor_inv_def wedge_ok_def
      wire_sorted sorted_wrt_filter split: prod.split)

text \<open>Over a logged port, the identify frame only ever follows the reset frame.\<close>

locale session_log = write_log "ev_io E" wrote for E :: "'s env" and wrote

lemma preserves_guard:
  assumes "logs (\<lambda>a. wrote (ac_io a)) W m" and "\<And>ws. ws \<in> W \<Longrightarrow> ident_guarded None ws"
  shows "preserves (\<lambda>a. ident_guarded None (wrote (ac_io a))) m"
  unfolding preserves_def
  by (metis assms ident_guarded_append logs_def)

lemma logs_on_io: "logs wrote W m \<Longrightarrow> logs (\<lambda>a. wrote (ac_io a)) W (on_io m)"
  by (simp add: logs_def on_io_def split_beta)

context session_log
begin

lemma logs_stamp: "logs (\<lambda>a. wrote (ac_io a)) {[]} (stamp (ev_io E))"
proof (rule logs_silent)
  show "wrote (ac_io (snd (stamp (ev_io E) a))) = wrote (ac_io a)" for a :: "'s actor"
    using others_silent(5) [of "ac_io a"] by (cases "t_now (ev_io E) (ac_io a)") (simp add: stamp_def)
qed simp

text \<open>One exchange writes at most the encrypted command.\<close>

lemma transact_inner_writes:
  assumes "transact_inner E inner timeout a = (r, a')"
  shows "wrote (ac_io a') = wrote (ac_io a) \<or>
    (\<exists>f. encode_encrypted (ev_dbg E) (ev_enc E) (ac_key a) inner = Ok f
       \<and> wrote (ac_io a') = wrote (ac_io a) @ [f])"
proof (cases "encode_encrypted (ev_dbg E) (ev_enc E) (ac_key a) inner")
  case (Inl e)
  with assms show ?thesis by (cases e) (auto simp: transact_inner_def codec_def)
next
  case (Inr f)
  let ?w = "\<lambda>a. wrote (ac_io a)"
  let ?m = "sbind (on_io (io_op (t_purge_rx (ev_io E)))) (\<lambda>_.
     sbind (on_io (io_op (t_write_all (ev_io E) f))) (\<lambda>_.
     sbind (stamp (ev_io E)) (\<lambda>_.
     sbind (on_io (read_frame (ev_io E) timeout)) (\<lambda>raw.
     sbind (stamp (ev_io E)) (\<lambda>_.
       slift (codec (decode_encrypted (ev_dbg E) (ev_dec E) (ac_key a) raw)))))))"
  have 1: "logs ?w {[]} (sbind (stamp (ev_io E)) (\<lambda>_. sbind (on_io (read_frame (ev_io E) timeout)) (\<lambda>raw.
     sbind (stamp (ev_io E)) (\<lambda>_. slift (codec (decode_encrypted (ev_dbg E) (ev_dec E) (ac_key a) raw))))))"
    by (intro logs_after_silent logs_stamp logs_on_io logs_read_frame) simp_all
  have "logs ?w {[], [f]} ?m"
    by (rule logs_after_silent [OF logs_on_io [OF logs_io(1)]],
        rule logs_mono [OF logs_sbind [OF logs_on_io [OF logs_write] 1]]) auto
  moreover from Inr assms have "?m a = (r, a')"
    by (simp add: transact_inner_def)
  ultimately show ?thesis
    using logsD [of ?w "{[], [f]}" ?m a r a'] Inr by auto
qed

lemma transact_io: "transact E inner timeout a = (r, a') \<Longrightarrow>
    \<exists>a1. transact_inner E inner timeout a = (r, a1) \<and> ac_io a' = ac_io a1"
  by (auto simp: transact_def note_silence_def Let_def split: prod.splits)

lemma transact_writes:
  assumes "transact E inner timeout a = (r, a')"
  shows "wrote (ac_io a') = wrote (ac_io a) \<or>
    (\<exists>f. encode_encrypted (ev_dbg E) (ev_enc E) (ac_key a) inner = Ok f
       \<and> wrote (ac_io a') = wrote (ac_io a) @ [f])"
  using transact_io [OF assms] transact_inner_writes [of inner timeout a r] by metis

end

sublocale session_log \<subseteq> guard: actor_invariant E "\<lambda>a. ident_guarded None (wrote (ac_io a))"
proof
  let ?P = "\<lambda>a :: 's actor. ident_guarded None (wrote (ac_io a))"
  show "preserves ?P (transact E inner timeout)" for inner timeout
    unfolding preserves_def
  proof (intro allI impI)
    fix a
    assume P: "?P a"
    obtain r a' where t: "transact E inner timeout a = (r, a')" by fastforce
    from transact_writes [OF this] P show "?P (snd (transact E inner timeout a))"
      using encrypted_not_ident by (auto simp: t intro!: ident_guarded_append)
  qed
  show "preserves ?P (reestablish E)"
    unfolding preserves_def
  proof (intro allI impI)
    fix a
    assume P: "?P a"
    obtain ws where "wrote (snd (establish (ev_io E) (ac_io a))) = wrote (ac_io a) @ ws"
      and "ident_guarded None ws"
      using keeps_guard_establish unfolding keeps_guard_def logs_def by blast
    with P show "?P (snd (reestablish E a))"
      by (auto simp: reestablish_def on_io_def split_beta intro: ident_guarded_append split: sum.split)
  qed
  show "preserves ?P (stamp (ev_io E))"
    by (rule preserves_guard [OF logs_stamp]) simp
qed (simp_all add: preserves_def note_connected_def)


section \<open>Properties of the receive loop\<close>

definition mock_env :: "bool \<Rightarrow> (bytes \<Rightarrow> bytes \<Rightarrow> bytes) \<Rightarrow> (bytes \<Rightarrow> bytes \<Rightarrow> bytes) \<Rightarrow> mock env" where
  "mock_env dbg enc dec = \<lparr>ev_dbg = dbg, ev_enc = enc, ev_dec = dec, ev_io = mock_transport\<rparr>"

lemma mock_env_simps [simp]:
  "ev_dbg (mock_env d e c) = d" "ev_enc (mock_env d e c) = e" "ev_dec (mock_env d e c) = c"
  "ev_io (mock_env d e c) = mock_transport"
  by (simp_all add: mock_env_def)

interpretation mock_session: session_log "mock_env d e c" mock_writes for d e c
  by (unfold session_log_def mock_env_simps) (rule mock_log.write_log_axioms)

lemma spawn_Ok:
  assumes "spawn T keepalive s = (Ok a, s')"
  obtains key where "open_session T s = (Ok key, s')" "a = actor_new T keepalive key s'"
  using assms by (auto simp: spawn_def split: prod.splits sum.splits)

context session_log
begin

lemma wrote_actor_new: "wrote (ac_io (actor_new (ev_io E) keepalive key s)) = wrote s"
  using others_silent(5) [of s] by (cases "t_now (ev_io E) s") (simp add: actor_new_def)

lemma session_guarded:
  assumes "wrote s = []" and "spawn (ev_io E) keepalive s = (Ok a0, s')" and "actor_run E a0 a"
  shows "ident_guarded None (wrote (ac_io a)) \<and> ident_guarded None (wrote (ac_io (snd (teardown E a))))"
proof -
  obtain key where op: "open_session (ev_io E) s = (Ok key, s')"
    and a0: "a0 = actor_new (ev_io E) keepalive key s'"
    using assms(2) by (rule spawn_Ok)
  have "ident_guarded None (wrote s')"
    using keeps_guard_open op assms(1) unfolding keeps_guard_def by (auto dest: logsD)
  then have "ident_guarded None (wrote (ac_io a))"
    using guard.run_P [OF assms(3)] by (simp add: a0 wrote_actor_new)
  then show ?thesis using guard.teardown_P by (simp add: preserves_def)
qed

end



section \<open>Exchanges with a scripted adapter\<close>

text \<open>The mock's world after a write that its next step accepts.\<close>

definition mock_served :: "bytes \<Rightarrow> mock \<Rightarrow> mock" where
  "mock_served f m = m\<lparr>mk_steps := tl (mk_steps m), mk_rx := [],
     mk_events := mk_events m @ [EvPurgeRx, EvWrite f], mk_now := mk_now m + 1\<rparr>"

definition accepts :: "mock \<Rightarrow> bytes \<Rightarrow> bool" where
  "accepts m f \<longleftrightarrow> (case mk_steps m of [] \<Rightarrow> True
     | st # _ \<Rightarrow> (case expect st of None \<Rightarrow> True | Some e \<Rightarrow> e = f))"

definition next_reply :: "mock \<Rightarrow> bytes" where
  "next_reply m = (case mk_steps m of [] \<Rightarrow> [] | st # _ \<Rightarrow> reply st)"

lemma mock_purge_write:
  assumes "accepts m f"
  obtains m1 where "io_op (t_purge_rx mock_transport) m = (Ok (), m1)"
    and "io_op (t_write_all mock_transport f) m1 = (Ok (), mock_served f m\<lparr>mk_rx := next_reply m\<rparr>)"
proof
  let ?m1 = "m\<lparr>mk_events := mk_events m @ [EvPurgeRx], mk_rx := []\<rparr>"
  show "io_op (t_purge_rx mock_transport) m = (Ok (), ?m1)"
    by (simp add: io_op_def mock_purge_rx_def)
  show "io_op (t_write_all mock_transport f) ?m1 = (Ok (), mock_served f m\<lparr>mk_rx := next_reply m\<rparr>)"
    using assms
    by (cases "mk_steps m")
      (auto simp: io_op_def mock_write_all_def mock_served_def accepts_def next_reply_def Let_def
        split: option.splits)
qed

text \<open>One exchange: the reply is one whole frame, or there is none.\<close>

lemma mock_exchange:
  assumes "encode_encrypted d e (ac_key a) inner = Ok f" and "accepts (ac_io a) f"
    and "well_framed (next_reply (ac_io a))"
  shows "transact_inner (mock_env d e c) inner timeout a =
    (codec (decode_encrypted d c (ac_key a) (next_reply (ac_io a))),
     a\<lparr>ac_io := mock_served f (ac_io a), ac_last_wire := mk_now (ac_io a) + 1\<rparr>)"
proof -
  let ?m = "mock_served f (ac_io a)\<lparr>mk_rx := next_reply (ac_io a)\<rparr>"
  obtain m1 where 1: "io_op (t_purge_rx mock_transport) (ac_io a) = (Ok (), m1)"
    and 2: "io_op (t_write_all mock_transport f) m1 = (Ok (), ?m)"
    using mock_purge_write [OF assms(2)] .
  obtain m' where 3: "read_frame mock_transport timeout ?m = (Ok (next_reply (ac_io a)), m')" "mk_rx m' = []"
    using mock_stream.read_frame_whole [of ?m "next_reply (ac_io a)" "[]" timeout] assms(3) by auto
  have "m' = mock_served f (ac_io a)"
    using mock_read_frame_keeps [OF 3(1)] 3(2) by (simp add: mock_served_def)
  with 1 2 3(1) assms(1) show ?thesis
    by (simp add: transact_inner_def on_io_def stamp_def mock_served_def)
qed

lemma mock_silence:
  assumes "encode_encrypted d e (ac_key a) inner = Ok f" and "accepts (ac_io a) f"
    and "next_reply (ac_io a) = []"
  shows "transact_inner (mock_env d e c) inner timeout a =
    (Err (Timeout timeout),
     a\<lparr>ac_io := mock_served f (ac_io a), ac_last_wire := mk_now (ac_io a) + 1\<rparr>)"
proof -
  let ?m = "mock_served f (ac_io a)"
  obtain m1 where 1: "io_op (t_purge_rx mock_transport) (ac_io a) = (Ok (), m1)"
    and 2: "io_op (t_write_all mock_transport f) m1 = (Ok (), ?m\<lparr>mk_rx := next_reply (ac_io a)\<rparr>)"
    using mock_purge_write [OF assms(2)] .
  have m: "?m\<lparr>mk_rx := next_reply (ac_io a)\<rparr> = ?m" using assms(3) by (simp add: mock_served_def)
  obtain m' where 3: "read_frame mock_transport timeout ?m = (Err (Timeout timeout), m')" "mk_rx m' = []"
    using mock_stream.read_frame_silent [of ?m timeout] by (auto simp: mock_served_def)
  have "m' = ?m"
    using mock_read_frame_keeps [OF 3(1)] 3(2) by (simp add: mock_served_def)
  with 1 2 3(1) assms(1) show ?thesis
    unfolding m by (simp add: transact_inner_def on_io_def stamp_def mock_served_def)
qed

text \<open>C26: A command the adapter answers with an encrypted frame comes back as the decrypted inner,
  padded to the cipher block; exactly one frame, the encrypted command, has been written after a
  purge, and the silence count is cleared.\<close>
theorem transact_round_trip:
  assumes "block_cipher e c" and "encode_encrypted d e (ac_key a) cmd_inner = Ok f"
    and "mk_steps (ac_io a) = [step_exchange f g]"
    and "resp \<noteq> []" and "length resp \<le> MAX_INNER" and "encode_encrypted d e (ac_key a) resp = Ok g"
  shows "case transact (mock_env d e c) cmd_inner timeout a of (r, a') \<Rightarrow>
    r = Ok (padded resp) \<and> ac_silent a' = 0 \<and> ac_key a' = ac_key a \<and>
    mk_events (ac_io a') = mk_events (ac_io a) @ [EvPurgeRx, EvWrite f]"
proof -
  have g: "next_reply (ac_io a) = g" "accepts (ac_io a) f"
    by (simp_all add: next_reply_def accepts_def assms(3) step_exchange_def)
  have "well_framed g"
    using encode_encrypted_well_framed [OF assms(1,5), of d "ac_key a"] assms(6) by auto
  with mock_exchange [OF assms(2) g(2), of c timeout] g(1) encrypted_decodes [OF assms(1,4,6)]
  show ?thesis
    by (simp add: transact_def mock_served_def)
qed

lemma transact_round_trip_witness:
  "\<exists>f g. let a = actor_new mock_transport None [1, 2, 3, 4, 5, 6, 7, 8] (mock_new [step_exchange f g]) in
     encode_encrypted True xor_cipher [1, 2, 3, 4, 5, 6, 7, 8] read_version = Ok f \<and>
     fst (transact (mock_env True xor_cipher xor_cipher) read_version (from_millis 1000) a)
       = Ok (padded [5, 0, 3, 74, 50])"
proof -
  let ?k = "[1, 2, 3, 4, 5, 6, 7, 8] :: bytes"
  obtain f g where f: "encode_encrypted True xor_cipher ?k read_version = Ok f"
    and g: "encode_encrypted True xor_cipher ?k [5, 0, 3, 74, 50] = Ok g"
    using encode_encrypted_total [of read_version True xor_cipher ?k]
      encode_encrypted_total [of "[5, 0, 3, 74, 50]" True xor_cipher ?k]
    by (auto simp: pad8_def read_version_def)
  let ?a = "actor_new mock_transport None ?k (mock_new [step_exchange f g])"
  have "ac_key ?a = ?k" "mk_steps (ac_io ?a) = [step_exchange f g]"
    by (simp_all add: actor_new_def mock_new_def)
  with transact_round_trip [OF xor_cipher_block, of True ?a read_version f g "[5, 0, 3, 74, 50]" "from_millis 1000"] f g
  show ?thesis
    by (intro exI [of _ f] exI [of _ g]) (simp add: Let_def MAX_INNER_def split: prod.splits)
qed


section \<open>A silent adapter\<close>

lemma unat_3_u8: "unat (3 :: u8) = 3"
  by simp


fun handle_all :: "'s env \<Rightarrow> request list \<Rightarrow> 's actor \<Rightarrow> (answer, error) res list \<times> 's actor" where
  "handle_all E [] a = ([], a)"
| "handle_all E (q # qs) a =
     (case handle E q a of (r, a1) \<Rightarrow> case handle_all E qs a1 of (rs, a2) \<Rightarrow> (r # rs, a2))"

text \<open>The one exchange a request makes when no message is queued, for the requests that make one.\<close>

fun probe :: "request \<Rightarrow> (bytes \<times> duration) option" where
  "probe (ReqTransact inner timeout) = (if length inner \<le> MAX_INNER then Some (inner, timeout) else None)"
| "probe (ReqDisconnect p) = Some (disconnect p, from_millis 1000)"
| "probe (ReqPoll p timeout) = Some (read_poll p, timeout)"
| "probe (ReqConnect p fl b) = None"

definition dead :: "mock actor \<Rightarrow> bool" where
  "dead a \<longleftrightarrow> mk_steps (ac_io a) = [] \<and> ac_queues a = (\<lambda>_. None)"

lemma probe_encodes:
  assumes "probe q = Some (i, t)"
  shows "\<exists>f. encode_encrypted d e k i = Ok f"
proof (rule encode_encrypted_total)
  have "length i \<le> MAX_INNER"
    using assms
    by (cases q) (auto simp: disconnect_def read_poll_def MAX_INNER_def split: if_splits)
  from pad8_mono [OF this] show "pad8 (length i) \<le> 65532"
    by (simp add: MAX_INNER_def pad8_def)
qed

lemma dead_transact:
  assumes "dead a" and "encode_encrypted d e (ac_key a) i = Ok f"
  obtains a' where "transact (mock_env d e c) i t a = (Err (Timeout t), note_silence a')"
    and "dead a'" and "verdict a' = verdict a" and "mock_writes (ac_io a') = mock_writes (ac_io a) @ [f]"
proof -
  let ?a' = "a\<lparr>ac_io := mock_served f (ac_io a), ac_last_wire := mk_now (ac_io a) + 1\<rparr>"
  have "accepts (ac_io a) f" "next_reply (ac_io a) = []"
    using assms(1) by (simp_all add: dead_def accepts_def next_reply_def)
  from mock_silence [OF assms(2) this, of c t] show thesis
    by (intro that [of ?a'])
      (use assms(1) in \<open>simp_all add: transact_def dead_def mock_served_def mock_writes_def\<close>)
qed

lemma dead_handle:
  assumes "dead a" and "\<not> ac_wedged a" and "ac_silent a < 3" and "probe q = Some (i, t)"
  obtains a' where "handle (mock_env d e c) q a = (Err (Timeout t), a')"
    and "dead a'" and "ac_silent a' = ac_silent a + 1" and "ac_wedged a' \<longleftrightarrow> ac_silent a' \<ge> 3"
    and "length (mock_writes (ac_io a')) = Suc (length (mock_writes (ac_io a)))"
proof -
  obtain f where f: "encode_encrypted d e (ac_key a) i = Ok f"
    using probe_encodes [OF assms(4)] by blast
  obtain a1 where t: "transact (mock_env d e c) i t a = (Err (Timeout t), note_silence a1)"
    and a1: "dead a1" "verdict a1 = verdict a" "mock_writes (ac_io a1) = mock_writes (ac_io a) @ [f]"
    using dead_transact [OF assms(1) f] .
  have "ac_silent a \<noteq> 255" using assms(3) by auto
  with a1(2) assms(2) have ns: "ac_silent (note_silence a1) = ac_silent a + 1"
    "ac_wedged (note_silence a1) \<longleftrightarrow> ac_silent a + 1 \<ge> 3"
    by (simp_all add: verdict_def note_silence_def WEDGE_THRESHOLD_def Let_def)
  have keep: "dead (note_silence a1)" "ac_io (note_silence a1) = ac_io a1"
    "dead (note_silence a1\<lparr>ac_connected := ps\<rparr>)" for ps
    using a1(1) by (simp_all add: dead_def note_silence_def Let_def)
  show thesis
  proof (cases q)
    case (ReqDisconnect p)
    let ?a' = "note_silence a1\<lparr>ac_connected := filter (\<lambda>x. x \<noteq> p) (ac_connected (note_silence a1))\<rparr>"
    have "handle (mock_env d e c) q a = (Err (Timeout t), ?a')"
      using ReqDisconnect assms(2,4) t
      by (auto simp: handle_def actor_disconnect_def transact_status_def)
    then show thesis by (rule that) (use ns keep a1(3) in simp_all)
  next
    case (ReqTransact j u)
    then have "handle (mock_env d e c) q a = (Err (Timeout t), note_silence a1)"
      using assms(2,4) t by (auto simp: handle_def split: if_splits)
    then show thesis by (rule that) (use ns keep a1(3) in simp_all)
  next
    case (ReqPoll p u)
    then have "handle (mock_env d e c) q a = (Err (Timeout t), note_silence a1)"
      using assms(1,2,4) t by (auto simp: handle_def actor_poll_def dead_def)
    then show thesis by (rule that) (use ns keep a1(3) in simp_all)
  qed (use assms(4) in simp)
qed

lemma wedged_handle_all:
  "ac_wedged a \<Longrightarrow> handle_all E qs a = (replicate (length qs) (Err (Wedged (ac_silent a))), a)"
  by (induction qs) (simp_all add: handle_def)

definition probe_timeouts :: "request list \<Rightarrow> (answer, error) res list" where
  "probe_timeouts qs = map (\<lambda>q. Err (Timeout (snd (the (probe q))))) qs"

lemma dead_handle_all:
  assumes "dead a" and "\<not> ac_wedged a" and "unat (ac_silent a) + n = 3" and "0 < n"
    and "\<forall>q \<in> set qs. probe q \<noteq> None"
  shows "fst (handle_all (mock_env d e c) qs a)
      = probe_timeouts (take n qs) @ replicate (length qs - n) (Err (Wedged 3))
    \<and> length (mock_writes (ac_io (snd (handle_all (mock_env d e c) qs a))))
      = length (mock_writes (ac_io a)) + min n (length qs)"
  using assms
proof (induction qs arbitrary: a n)
  case Nil
  then show ?case by (simp add: probe_timeouts_def)
next
  case (Cons q qs)
  obtain i t where p: "probe q = Some (i, t)" using Cons.prems(5) by auto
  obtain k where n: "n = Suc k" using Cons.prems(4) by (cases n) auto
  have lt: "ac_silent a < 3" using Cons.prems(3,4) by (simp add: word_less_nat_alt)
  obtain a' where h: "handle (mock_env d e c) q a = (Err (Timeout t), a')"
    and a': "dead a'" "ac_silent a' = ac_silent a + 1" "ac_wedged a' \<longleftrightarrow> ac_silent a' \<ge> 3"
    and w: "length (mock_writes (ac_io a')) = Suc (length (mock_writes (ac_io a)))"
    using dead_handle [OF Cons.prems(1,2) lt p] .
  have s: "unat (ac_silent a') + k = 3"
    using Cons.prems(3) n a'(2) by (simp add: unat_word_ariths)
  show ?case
  proof (cases k)
    case 0
    with s have "unat (ac_silent a') = 3" by simp
    then have "ac_silent a' = 3" by (metis unsigned_word_eqI unat_3_u8)
    with a'(3) have "ac_wedged a'" by simp
    then show ?thesis
      using wedged_handle_all [of a' "mock_env d e c" qs] h w n 0 p \<open>ac_silent a' = 3\<close>
      by (simp add: probe_timeouts_def)
  next
    case (Suc j)
    with s a'(3) have "\<not> ac_wedged a'" by (simp add: word_le_nat_alt)
    from Cons.IH [OF a'(1) this s] Suc Cons.prems(5) h w n p show ?thesis
      by (auto simp: probe_timeouts_def split: prod.splits)
  qed
qed




section \<open>Status replies and the recovery of Connect\<close>

definition status_reply :: "cmd \<Rightarrow> u8 \<Rightarrow> bytes" where
  "status_reply c st = [2, 0, cmd_u8 c, st]"

lemma status_of_padded_reply: "status_of (padded (status_reply c st)) c = Ok (device_status_from st)"
  by (simp add: status_of_Ok_iff padded_def status_reply_def status_is_ok_from)

text \<open>A status exchange with a scripted reply.\<close>

lemma mock_status:
  assumes "block_cipher e c" and "encode_encrypted d e (ac_key a) i = Ok f" and "accepts (ac_io a) f"
    and "encode_encrypted d e (ac_key a) (status_reply cm st) = Ok (next_reply (ac_io a))"
  shows "transact_status (mock_env d e c) i cm t a =
    (if st = 0 then Ok () else Err (Rejected cm (device_status_from st)),
     a\<lparr>ac_io := mock_served f (ac_io a), ac_last_wire := mk_now (ac_io a) + 1, ac_silent := 0\<rparr>)"
proof -
  let ?r = "status_reply cm st" and ?g = "next_reply (ac_io a)"
  have "length ?r \<le> MAX_INNER" "?r \<noteq> []" by (simp_all add: status_reply_def MAX_INNER_def)
  then have "well_framed ?g" "decode_encrypted d c (ac_key a) ?g = Ok (padded ?r)"
    using encode_encrypted_well_framed [OF assms(1), of ?r d "ac_key a"] encrypted_decodes [OF assms(1) _ assms(4)]
      assms(4) by auto
  with mock_exchange [OF assms(2,3), of c t] show ?thesis
    by (simp add: transact_status_def transact_def status_of_padded_reply status_is_ok_from)
qed

lemma connect_encodes: "\<exists>f. encode_encrypted d e k (connect p fl b) = Ok f"
  by (rule encode_encrypted_total) (simp add: pad8_def connect_def ilen_def)

text \<open>The handshake against a script that swallows the reset frame and answers the identify command.\<close>

lemma mock_establish:
  assumes "mk_steps m = step_silence # step_exchange ident_frame ch # steps"
    and "length key = 8" and "encode_plain (challenge_payload x y key) = Ok ch"
  obtains s where "establish mock_transport m = (Ok key, s)" "mk_steps s = steps"
proof -
  let ?m2 = "m\<lparr>mk_sleeps := mk_sleeps m @ [from_millis 110],
      mk_events := mk_events m @ [EvPurgeRx, EvWrite reset_frame, EvPurgeRx, EvWrite ident_frame],
      mk_now := Suc (Suc (mk_now m)), mk_steps := steps, mk_rx := ch\<rparr>"
  have "well_framed ch"
    using plain_well_framed [OF assms(3)] assms(2) by (simp add: challenge_payload_def MAX_INNER_def)
  then obtain s where rd: "read_frame mock_transport (from_millis 2000) ?m2 = (Ok ch, s)"
    using mock_stream.read_frame_whole [of ?m2 ch "[]" "from_millis 2000"] by auto
  have "establish mock_transport m = (Ok key, s)"
    unfolding establish_def handshake_frames codec_Ok sbind_slift_Ok
    using rd decode_plain_encode [OF assms(3)] parse_challenge_payload [OF assms(2), of x y] assms(1)
    by (simp add: io_op_def pause_def mock_purge_rx_def mock_write_all_def
        mock_sleep_def step_exchange_def step_silence_def Let_def)
  moreover have "mk_steps s = steps"
    by (subst mock_read_frame_keeps [OF rd]) simp
  ultimately show thesis by (rule that)
qed

text \<open>C28: A Connect whose first attempt is the third silent exchange gives the wedge verdict and
  then recovers: the handshake is repeated, the retry under the new key succeeds, the caller is told
  \<open>Ok\<close> and the channel is recorded. But the verdict stays: every later request fails with
  \<open>Wedged(0)\<close> although the adapter answers.\<close>
theorem connect_recovery_stays_wedged:
  assumes "block_cipher e c" and "length key2 = 8" and "\<not> ac_wedged a" and "ac_silent a = 2"
    and "encode_plain (challenge_payload x y key2) = Ok ch"
    and "encode_encrypted d e key2 (status_reply CmdConnect 0) = Ok g"
    and "mk_steps (ac_io a) = [step_silence, step_silence, step_exchange ident_frame ch, step_reply_any g]"
  shows "\<exists>a'. handle (mock_env d e c) (ReqConnect p fl b) a = (Ok AUnit, a') \<and>
    p \<in> set (ac_connected a') \<and> ac_key a' = key2 \<and> ac_wedged a' \<and> ac_silent a' = 0 \<and>
    (\<forall>q. handle (mock_env d e c) q a' = (Err (Wedged 0), a'))"
proof -
  let ?E = "mock_env d e c" and ?i = "connect p fl b"
  obtain f1 where f1: "encode_encrypted d e (ac_key a) ?i = Ok f1" using connect_encodes by blast
  obtain f2 where f2: "encode_encrypted d e key2 ?i = Ok f2" using connect_encodes by blast
  have acc: "accepts (ac_io a) f1" "next_reply (ac_io a) = []"
    by (simp_all add: accepts_def next_reply_def assms(7) step_silence_def)
  define a1 where "a1 = a\<lparr>ac_io := mock_served f1 (ac_io a), ac_last_wire := mk_now (ac_io a) + 1,
    ac_silent := 3, ac_wedged := True\<rparr>"
  have t1: "transact_status ?E ?i CmdConnect (from_millis 2000) a = (Err (Timeout (from_millis 2000)), a1)"
    using mock_silence [OF f1 acc, of c "from_millis 2000"] assms(4)
    by (simp add: transact_status_def transact_def note_silence_def WEDGE_THRESHOLD_def a1_def Let_def)
  have "mk_steps (ac_io a1) = step_silence # step_exchange ident_frame ch # [step_reply_any g]"
    by (simp add: a1_def mock_served_def assms(7))
  from mock_establish [OF this assms(2,5)] obtain s
    where est: "establish mock_transport (ac_io a1) = (Ok key2, s)" and s: "mk_steps s = [step_reply_any g]" by blast
  define a2 where "a2 = a1\<lparr>ac_io := s, ac_key := key2\<rparr>"
  have re: "reestablish ?E a1 = (Ok (), a2)"
    by (simp add: reestablish_def on_io_def est a2_def)
  have k2: "ac_key a2 = key2" "ac_io a2 = s" by (simp_all add: a2_def)
  have acc2: "accepts (ac_io a2) f2" and rep2: "next_reply (ac_io a2) = g"
    by (simp_all add: accepts_def next_reply_def k2 s step_reply_any_def)
  define a3 where "a3 = a2\<lparr>ac_io := mock_served f2 (ac_io a2), ac_last_wire := mk_now (ac_io a2) + 1, ac_silent := 0\<rparr>"
  have t2: "transact_status ?E ?i CmdConnect (from_millis 2000) a2 = (Ok (), a3)"
    using mock_status [OF assms(1), of d a2 ?i f2 CmdConnect 0 "from_millis 2000"] f2 acc2 rep2 assms(6)
    by (simp add: k2(1) a3_def)
  define a4 where "a4 = snd (note_connected p a3)"
  have "actor_connect ?E p fl b a = (Ok (), a4)"
    using t1 re t2 by (simp add: actor_connect_def Let_def note_connected_def a4_def)
  then have "handle ?E (ReqConnect p fl b) a = (Ok AUnit, a4)"
    using assms(3) by (simp add: handle_def)
  moreover have "p \<in> set (ac_connected a4)" "ac_key a4 = key2" "ac_wedged a4" "ac_silent a4 = 0"
    by (simp_all add: a4_def note_connected_def a3_def a2_def a1_def)
  ultimately show ?thesis
    by (intro exI [of _ a4]) (simp add: handle_def)
qed

lemma connect_recovery_stays_wedged_witness:
  "\<exists>ch g a'. handle (mock_env False xor_cipher xor_cipher) (ReqConnect Can 0 500000)
      (actor_new mock_transport None [9, 9, 9, 9, 9, 9, 9, 9]
        (mock_new [step_silence, step_silence, step_exchange ident_frame ch, step_reply_any g])
       \<lparr>ac_silent := 2\<rparr>) = (Ok AUnit, a') \<and>
     handle (mock_env False xor_cipher xor_cipher) (ReqPoll Can 5) a' = (Err (Wedged 0), a')"
proof -
  let ?k = "[1, 2, 3, 4, 5, 6, 7, 8] :: bytes"
  obtain ch where ch: "encode_plain (challenge_payload 0 7 ?k) = Ok ch"
    by (simp add: encode_plain_Ok challenge_payload_def)
  obtain g where g: "encode_encrypted False xor_cipher ?k (status_reply CmdConnect 0) = Ok g"
    using encode_encrypted_total [of "status_reply CmdConnect 0" False xor_cipher ?k]
    by (auto simp: pad8_def status_reply_def)
  let ?a = "actor_new mock_transport None [9, 9, 9, 9, 9, 9, 9, 9]
        (mock_new [step_silence, step_silence, step_exchange ident_frame ch, step_reply_any g])
       \<lparr>ac_silent := 2\<rparr>"
  have "\<not> ac_wedged ?a" "ac_silent ?a = 2"
    "mk_steps (ac_io ?a) = [step_silence, step_silence, step_exchange ident_frame ch, step_reply_any g]"
    by (simp_all add: actor_new_def mock_new_def)
  from connect_recovery_stays_wedged [OF xor_cipher_block _ this(1,2) ch g this(3), of Can 0 500000]
  show ?thesis by auto
qed


section \<open>Queued messages\<close>

text \<open>A ReadMsgs reply with a message, as the adapter builds it.\<close>

definition read_reply_inner :: "rx_msg \<Rightarrow> bytes" where
  "read_reply_inner m =
     len16 (9 + length (rx_data m)) @ cmd_u8 ReadMsg # u32_le (rx_status m) @ [0, 0, 0, 0] @ rx_data m"

lemma parse_padded_read_reply:
  assumes "length (rx_data m) \<le> MAX_MSG" and "rx_data m \<noteq> []"
  shows "parse_read_reply (padded (read_reply_inner m)) = Ok \<lparr>rr_status = rx_status m, rr_msg = rx_data m\<rparr>"
    and "msg_of_reply \<lparr>rr_status = rx_status m, rr_msg = rx_data m\<rparr> = Some m"
proof -
  show "parse_read_reply (padded (read_reply_inner m)) = Ok \<lparr>rr_status = rx_status m, rr_msg = rx_data m\<rparr>"
    using parse_read_reply_built [of "rx_data m" "[0, 0, 0, 0]" "rx_status m"
        "replicate (pad8 (length (read_reply_inner m)) - length (read_reply_inner m)) 0"] assms(1)
    by (simp add: padded_def read_reply_inner_def MAX_MSG_def)
  show "msg_of_reply \<lparr>rr_status = rx_status m, rr_msg = rx_data m\<rparr> = Some m"
    using assms(2) by (simp add: msg_of_reply_def)
qed

definition deliverable :: "rx_msg \<Rightarrow> bool" where
  "deliverable m \<longleftrightarrow> rx_data m \<noteq> [] \<and> length (rx_data m) \<le> MAX_MSG"

lemma read_poll_encodes: "\<exists>f. encode_encrypted d e k (read_poll p) = Ok f"
  by (rule encode_encrypted_total) (simp add: pad8_def read_poll_def ilen_def)

definition queue_of :: "'s actor \<Rightarrow> protocol_id \<Rightarrow> rx_msg list" where
  "queue_of a p = (case ac_queues a p of None \<Rightarrow> [] | Some q \<Rightarrow> q)"

fun idle_polls :: "'s env \<Rightarrow> nat \<Rightarrow> 's actor \<Rightarrow> 's actor" where
  "idle_polls E 0 a = a"
| "idle_polls E (Suc n) a = idle_polls E n (snd (idle_poll E a))"

fun polls :: "'s env \<Rightarrow> protocol_id \<Rightarrow> duration \<Rightarrow> nat \<Rightarrow> 's actor
    \<Rightarrow> (rx_msg option, error) res list \<times> 's actor" where
  "polls E p t 0 a = ([], a)"
| "polls E p t (Suc n) a =
     (case actor_poll E p t a of (r, a1) \<Rightarrow> case polls E p t n a1 of (rs, a2) \<Rightarrow> (r # rs, a2))"

text \<open>The scripted adapter answers the idle polls with the given messages.\<close>

definition serves :: "bool \<Rightarrow> (bytes \<Rightarrow> bytes \<Rightarrow> bytes) \<Rightarrow> mock actor \<Rightarrow> rx_msg list \<Rightarrow> bool" where
  "serves d e a ms \<longleftrightarrow> (\<exists>gs. mk_steps (ac_io a) = map step_reply_any gs \<and>
     map (encode_encrypted d e (ac_key a)) (map read_reply_inner ms) = map Ok gs)"

lemma idle_poll_served:
  assumes "block_cipher e c" and "\<not> ac_wedged a" and "deliverable m" and "serves d e a (m # ms)"
    and "poll_proto_of a = p"
  shows "queue_of (snd (idle_poll (mock_env d e c) a)) p = queue_of a p @ [m]
    \<and> serves d e (snd (idle_poll (mock_env d e c) a)) ms
    \<and> \<not> ac_wedged (snd (idle_poll (mock_env d e c) a))
    \<and> poll_proto_of (snd (idle_poll (mock_env d e c) a)) = p"
proof -
  obtain g gs where steps: "mk_steps (ac_io a) = step_reply_any g # map step_reply_any gs"
    and g: "encode_encrypted d e (ac_key a) (read_reply_inner m) = Ok g"
    and gs: "map (encode_encrypted d e (ac_key a)) (map read_reply_inner ms) = map Ok gs"
    using assms(4) by (auto simp: serves_def map_eq_Cons_conv Cons_eq_map_conv)
  obtain f where f: "encode_encrypted d e (ac_key a) (read_poll p) = Ok f" using read_poll_encodes by blast
  have acc: "accepts (ac_io a) f" "next_reply (ac_io a) = g"
    by (simp_all add: accepts_def next_reply_def steps step_reply_any_def)
  have len: "length (read_reply_inner m) \<le> MAX_INNER" "read_reply_inner m \<noteq> []"
    using assms(3) by (simp_all add: read_reply_inner_def deliverable_def MAX_INNER_def MAX_MSG_def)
  have "well_framed g"
    using encode_encrypted_well_framed [OF assms(1) len(1), of d "ac_key a"] g by auto
  with mock_exchange [OF f acc(1), of c "from_millis 500"] acc(2) encrypted_decodes [OF assms(1) len(2) g]
  have t: "transact (mock_env d e c) (read_poll p) (from_millis 500) a =
      (Ok (padded (read_reply_inner m)),
       a\<lparr>ac_io := mock_served f (ac_io a), ac_last_wire := mk_now (ac_io a) + 1, ac_silent := 0\<rparr>)"
    by (simp add: transact_def)
  show ?thesis
    using assms(2,3,5) t parse_padded_read_reply [of m] gs
    by (simp add: idle_poll_def Let_def deliverable_def enqueue_def queue_of_def serves_def
        poll_proto_of_def mock_served_def steps)
qed

lemma idle_polls_served:
  assumes "block_cipher e c" and "\<not> ac_wedged a" and "\<forall>m \<in> set ms. deliverable m" and "serves d e a ms"
    and "poll_proto_of a = p"
  shows "queue_of (idle_polls (mock_env d e c) (length ms) a) p = queue_of a p @ ms"
  using assms(2-5)
proof (induction ms arbitrary: a)
  case (Cons m ms)
  with idle_poll_served [OF assms(1), of a m d ms p] show ?case by simp
qed simp

lemma polls_queued:
  assumes "queue_of a p = ms"
  shows "fst (polls E p t (length ms) a) = map (\<lambda>m. Ok (Some m)) ms
    \<and> ac_io (snd (polls E p t (length ms) a)) = ac_io a"
  using assms
proof (induction ms arbitrary: a)
  case (Cons m ms)
  then have q: "ac_queues a p = Some (m # ms)"
    by (auto simp: queue_of_def split: option.splits)
  let ?a1 = "a\<lparr>ac_queues := (ac_queues a)(p := Some ms)\<rparr>"
  have "queue_of ?a1 p = ms" by (simp add: queue_of_def)
  from Cons.IH [OF this] q show ?case
    by (auto simp: actor_poll_def split: prod.splits)
qed simp

text \<open>C29: Messages that idle polls drained from the adapter are not lost: later polls of that
  protocol return them all, oldest first, each once, and without touching the wire.\<close>
theorem idle_messages_delivered:
  assumes "block_cipher e c" and "\<not> ac_wedged a" and "\<forall>m \<in> set ms. deliverable m"
    and "serves d e a ms" and "poll_proto_of a = p" and "ac_queues a p = None"
  shows "case idle_polls (mock_env d e c) (length ms) a of a' \<Rightarrow>
    fst (polls (mock_env d e c) p t (length ms) a') = map (\<lambda>m. Ok (Some m)) ms
    \<and> ac_io (snd (polls (mock_env d e c) p t (length ms) a')) = ac_io a'"
proof -
  have "queue_of (idle_polls (mock_env d e c) (length ms) a) p = ms"
    using idle_polls_served [OF assms(1-5)] assms(6) by (simp add: queue_of_def)
  from polls_queued [OF this] show ?thesis by simp
qed

lemma idle_messages_delivered_witness:
  "\<exists>gs. let ms = [\<lparr>rx_status = 0, rx_data = [1, 2]\<rparr>, \<lparr>rx_status = 2, rx_data = [3]\<rparr>];
     a = actor_new mock_transport (Some 15) [1, 2, 3, 4, 5, 6, 7, 8] (mock_new (map step_reply_any gs)) in
     fst (polls (mock_env True xor_cipher xor_cipher) Iso15765 9 2
       (idle_polls (mock_env True xor_cipher xor_cipher) 2 a)) = map (\<lambda>m. Ok (Some m)) ms"
proof -
  let ?k = "[1, 2, 3, 4, 5, 6, 7, 8] :: bytes"
  let ?ms = "[\<lparr>rx_status = 0, rx_data = [1, 2]\<rparr>, \<lparr>rx_status = 2, rx_data = [3]\<rparr>]"
  have "\<exists>g. encode_encrypted True xor_cipher ?k (read_reply_inner m) = Ok g" if "m \<in> set ?ms" for m
    using that by (intro encode_encrypted_total) (auto simp: pad8_def read_reply_inner_def)
  then obtain g0 g1 where
    g: "map (encode_encrypted True xor_cipher ?k) (map read_reply_inner ?ms) = map Ok [g0, g1]"
    by fastforce
  let ?a = "actor_new mock_transport (Some 15) ?k (mock_new (map step_reply_any [g0, g1]))"
  have "serves True xor_cipher ?a ?ms"
    unfolding serves_def using g by (intro exI [of _ "[g0, g1]"]) (simp add: actor_new_def mock_new_def)
  moreover have "\<not> ac_wedged ?a" "poll_proto_of ?a = Iso15765" "ac_queues ?a Iso15765 = None"
    by (simp_all add: actor_new_def poll_proto_of_def)
  ultimately have "fst (polls (mock_env True xor_cipher xor_cipher) Iso15765 9 (length ?ms)
       (idle_polls (mock_env True xor_cipher xor_cipher) (length ?ms) ?a)) = map (\<lambda>m. Ok (Some m)) ?ms"
    using idle_messages_delivered [OF xor_cipher_block, of ?a ?ms True Iso15765 9]
    by (simp add: deliverable_def MAX_MSG_def del: idle_polls.simps polls.simps)
  then show ?thesis
    by (intro exI [of _ "[g0, g1]"]) (simp add: Let_def numeral_2_eq_2 del: idle_polls.simps polls.simps)
qed


lemma keeps_queues: "keeps book m \<Longrightarrow> keeps ac_queues m"
  by (simp add: keeps_def book_def)

lemma actor_connect_keeps_queues: "keeps ac_queues (actor_connect E p fl b)"
  unfolding keeps_def
proof
  fix a :: "'a actor"
  obtain r a1 where t: "transact_status E (connect p fl b) CmdConnect (from_millis 2000) a = (r, a1)"
    by fastforce
  have 1: "ac_queues a1 = ac_queues a"
    by (rule keepsD [OF keeps_queues [OF transact_status_keeps_book] t])
  have n: "keeps ac_queues (note_connected p :: (unit, error, 'a actor) op)"
    by (simp add: keeps_def note_connected_def)
  have "keeps ac_queues (sbind (reestablish E) (\<lambda>_.
          sbind (transact_status E (connect p fl b) CmdConnect (from_millis 2000)) (\<lambda>_. note_connected p)))"
    by (intro keeps_sbind n keeps_queues transact_status_keeps_book reestablish_keeps_book)
  with t 1 n show "ac_queues (snd (actor_connect E p fl b a)) = ac_queues a"
    by (auto simp: actor_connect_def Let_def keeps_def split: sum.split fault.split)
qed

lemma actor_disconnect_keeps_queues: "keeps ac_queues (actor_disconnect E p)"
  unfolding keeps_def
proof
  fix a :: "'a actor"
  obtain r a1 where t: "transact_status E (disconnect p) CmdDisconnect (from_millis 1000) a = (r, a1)"
    by fastforce
  have "ac_queues a1 = ac_queues a"
    by (rule keepsD [OF keeps_queues [OF transact_status_keeps_book] t])
  with t show "ac_queues (snd (actor_disconnect E p a)) = ac_queues a"
    by (simp add: actor_disconnect_def)
qed

text \<open>Disconnecting a channel does not drop the messages queued for it: after a disconnect
  and a new connect of the same protocol, whatever their outcome, the next poll still returns the
  oldest message of the previous connection.\<close>
theorem reconnect_delivers_stale:
  assumes "ac_queues a p = Some (m # ms)"
  shows "fst (actor_poll E p t (snd (actor_connect E p fl b (snd (actor_disconnect E p a))))) = Ok (Some m)"
proof -
  have "ac_queues (snd (actor_connect E p fl b (snd (actor_disconnect E p a)))) = ac_queues a"
    using actor_connect_keeps_queues [of E p fl b] actor_disconnect_keeps_queues [of E p]
    by (simp add: keeps_def)
  with assms show ?thesis by (simp add: actor_poll_def)
qed

lemma reconnect_delivers_stale_witness:
  "fst (actor_poll (mock_env True xor_cipher xor_cipher) Can 5
     (snd (actor_connect (mock_env True xor_cipher xor_cipher) Can 0 500000
       (snd (actor_disconnect (mock_env True xor_cipher xor_cipher) Can
         (enqueue Can \<lparr>rx_status = 0, rx_data = [7]\<rparr> (actor_new mock_transport None [1] (mock_new []))))))))
   = Ok (Some \<lparr>rx_status = 0, rx_data = [7]\<rparr>)"
  by (rule reconnect_delivers_stale [of _ _ _ "[]"]) (simp add: enqueue_def actor_new_def)

section \<open>Teardown\<close>

lemma mock_transact_any:
  assumes "encode_encrypted d e (ac_key a) i = Ok f" and "accepts (ac_io a) f"
  obtains r a' where "transact (mock_env d e c) i t a = (r, a')" and "r \<noteq> panic"
    and "mock_writes (ac_io a') = mock_writes (ac_io a) @ [f]" and "ac_key a' = ac_key a"
    and "mk_steps (ac_io a') = tl (mk_steps (ac_io a))"
proof -
  let ?m = "mock_served f (ac_io a)\<lparr>mk_rx := next_reply (ac_io a)\<rparr>"
  obtain m1 where 1: "io_op (t_purge_rx mock_transport) (ac_io a) = (Ok (), m1)"
    and 2: "io_op (t_write_all mock_transport f) m1 = (Ok (), ?m)"
    using mock_purge_write [OF assms(2)] .
  obtain r m' where 3: "read_frame mock_transport t ?m = (r, m')" by fastforce
  have "r \<noteq> panic" using mock_stream.read_frame_not_panic [of t ?m] 3 by simp
  have m': "mock_writes m' = mock_writes (ac_io a) @ [f]" "mk_steps m' = tl (mk_steps (ac_io a))"
    by (subst mock_read_frame_keeps [OF 3], simp add: mock_writes_def mock_served_def)+
  obtain q a1 where ti: "transact_inner (mock_env d e c) i t a = (q, a1)"
    and q: "q \<noteq> panic" and a1: "ac_io a1 = m'" "ac_key a1 = ac_key a"
  proof (cases r)
    case (Inl x)
    with 1 2 3 assms(1) \<open>r \<noteq> panic\<close> show thesis
      by (intro that [of "Inl x" "a\<lparr>ac_io := m', ac_last_wire := mk_now ?m\<rparr>"])
        (simp_all add: transact_inner_def on_io_def stamp_def)
  next
    case (Inr raw)
    with 1 2 3 assms(1) show thesis
      by (intro that [of "codec (decode_encrypted d c (ac_key a) raw)" "a\<lparr>ac_io := m', ac_last_wire := mk_now m'\<rparr>"])
        (simp_all add: transact_inner_def on_io_def stamp_def codec_def decode_encrypted_not_panic)
  qed
  let ?a' = "if timed_out q then note_silence a1 else a1\<lparr>ac_silent := 0\<rparr>"
  have "transact (mock_env d e c) i t a = (q, ?a')"
    using ti q by (simp add: transact_def)
  then show thesis
    by (rule that) (use q a1 m' in \<open>simp_all add: note_silence_def Let_def\<close>)
qed

definition lenient :: "mock \<Rightarrow> bool" where
  "lenient m \<longleftrightarrow> (\<forall>st \<in> set (mk_steps m). expect st = None)"

lemma lenient_accepts: "lenient m \<Longrightarrow> accepts m f"
  by (cases "mk_steps m") (auto simp: lenient_def accepts_def)

lemma lenient_tl: "lenient m \<Longrightarrow> mk_steps m' = tl (mk_steps m) \<Longrightarrow> lenient m'"
  by (cases "mk_steps m") (auto simp: lenient_def)

lemma disconnect_encodes: "\<exists>f. encode_encrypted d e k (disconnect p) = Ok f"
  by (rule encode_encrypted_total) (simp add: pad8_def disconnect_def ilen_def)

lemma disconnect_all_writes:
  assumes "lenient (ac_io a)"
  shows "\<exists>fs. fst (disconnect_all (mock_env d e c) ps a) = Ok ()
    \<and> mock_writes (ac_io (snd (disconnect_all (mock_env d e c) ps a))) = mock_writes (ac_io a) @ fs
    \<and> map Ok fs = map (encode_encrypted d e (ac_key a)) (map disconnect ps)
    \<and> ac_key (snd (disconnect_all (mock_env d e c) ps a)) = ac_key a
    \<and> lenient (ac_io (snd (disconnect_all (mock_env d e c) ps a)))"
  using assms
proof (induction ps arbitrary: a)
  case (Cons p ps)
  obtain f where f: "encode_encrypted d e (ac_key a) (disconnect p) = Ok f"
    using disconnect_encodes by blast
  obtain r a' where t: "transact (mock_env d e c) (disconnect p) (from_millis 500) a = (r, a')" "r \<noteq> panic"
    and w: "mock_writes (ac_io a') = mock_writes (ac_io a) @ [f]" "ac_key a' = ac_key a"
    and st: "mk_steps (ac_io a') = tl (mk_steps (ac_io a))"
    using mock_transact_any [OF f lenient_accepts [OF Cons.prems]] .
  obtain q where q: "transact_status (mock_env d e c) (disconnect p) CmdDisconnect (from_millis 500) a = (q, a')"
    "q \<noteq> panic"
  proof (cases r)
    case (Inr resp)
    with t parsers_not_panic(2) [of resp CmdDisconnect] show thesis
      by (intro that [of "fst (sbind (slift (codec (status_of resp CmdDisconnect))) (\<lambda>st.
            if status_is_ok st then sreturn () else sthrow (Rejected CmdDisconnect st)) a')"])
        (auto simp: transact_status_def codec_def sbind_def split: sum.splits)
  qed (use t that in \<open>auto simp: transact_status_def\<close>)
  obtain fs where fs: "fst (disconnect_all (mock_env d e c) ps a') = Ok ()"
    "mock_writes (ac_io (snd (disconnect_all (mock_env d e c) ps a'))) = mock_writes (ac_io a') @ fs"
    "map Ok fs = map (encode_encrypted d e (ac_key a')) (map disconnect ps)"
    "ac_key (snd (disconnect_all (mock_env d e c) ps a')) = ac_key a'"
    "lenient (ac_io (snd (disconnect_all (mock_env d e c) ps a')))"
    using Cons.IH [OF lenient_tl [OF Cons.prems st]] by blast
  have "disconnect_all (mock_env d e c) (p # ps) a = disconnect_all (mock_env d e c) ps a'"
    using q by (auto split: sum.split fault.split)
  with fs w f show ?case by (intro exI [of _ "f # fs"]) simp
qed simp

text \<open>C30: Whatever the adapter answers, silence and garbage included, the teardown succeeds and
  writes exactly one Disconnect per connected channel, in order, and then the session close.\<close>
theorem teardown_attempts_everything:
  assumes "\<forall>st \<in> set (mk_steps (ac_io a)). expect st = None"
  shows "\<exists>fs. fst (teardown (mock_env d e c) a) = Ok ()
    \<and> mock_writes (ac_io (snd (teardown (mock_env d e c) a))) = mock_writes (ac_io a) @ fs
    \<and> map Ok fs = map (encode_encrypted d e (ac_key a)) (map disconnect (ac_connected a) @ [session_close])"
proof -
  let ?E = "mock_env d e c" and ?a0 = "a\<lparr>ac_connected := []\<rparr>"
  obtain a1 where a1: "disconnect_all ?E (ac_connected a) ?a0 = (Ok (), a1)"
    and "\<exists>fs. mock_writes (ac_io a1) = mock_writes (ac_io a) @ fs
      \<and> map Ok fs = map (encode_encrypted d e (ac_key a)) (map disconnect (ac_connected a))"
    and k1: "ac_key a1 = ac_key a" "lenient (ac_io a1)"
    using disconnect_all_writes [of ?a0 d e c "ac_connected a"] assms
    by (cases "disconnect_all ?E (ac_connected a) ?a0") (auto simp: lenient_def)
  then obtain fs where fs: "mock_writes (ac_io a1) = mock_writes (ac_io a) @ fs"
    "map Ok fs = map (encode_encrypted d e (ac_key a)) (map disconnect (ac_connected a))" by blast
  obtain f where f: "encode_encrypted d e (ac_key a1) session_close = Ok f"
    using encode_encrypted_total [of session_close d e "ac_key a1"] by (auto simp: pad8_def session_close_def)
  obtain r a2 where t: "transact ?E session_close (from_millis 500) a1 = (r, a2)" "r \<noteq> panic"
    and w: "mock_writes (ac_io a2) = mock_writes (ac_io a1) @ [f]"
    using mock_transact_any [OF f lenient_accepts [OF k1(2)]] .
  have "teardown ?E a = (Ok (), a2)"
    using a1 t by (auto simp: teardown_def split: sum.split fault.split)
  with fs w f k1 show ?thesis by (intro exI [of _ "fs @ [f]"]) simp
qed

lemma teardown_attempts_everything_witness:
  "fst (teardown (mock_env True xor_cipher xor_cipher)
     (actor_new mock_transport None [1] (mock_new [step_silence, step_reply_any [9, 9, 9]])
      \<lparr>ac_connected := [Iso14230, Can]\<rparr>)) = Ok ()"
proof -
  let ?a = "actor_new mock_transport None [1] (mock_new [step_silence, step_reply_any [9, 9, 9]])
      \<lparr>ac_connected := [Iso14230, Can]\<rparr>"
  have "\<forall>st \<in> set (mk_steps (ac_io ?a)). expect st = None"
    by (simp add: actor_new_def mock_new_def step_silence_def step_reply_any_def)
  from teardown_attempts_everything [OF this, of True xor_cipher xor_cipher] show ?thesis by blast
qed

section \<open>The loop's invariant\<close>

text \<open>C31: From a successful open on, through any requests and idle polls: the connected channels
  are kept in wire order without duplicates, and until the adapter is declared wedged the silence
  count stays below the threshold of three.\<close>
theorem actor_loop_invariant:
  assumes "spawn (ev_io E) keepalive s = (Ok a0, s')" and "actor_run E a0 a"
  shows "sorted_wrt (\<lambda>p q. wire p < wire q) (ac_connected a) \<and> distinct (ac_connected a)
    \<and> (ac_wedged a \<or> ac_silent a < 3)"
proof -
  obtain key where "a0 = actor_new (ev_io E) keepalive key s'"
    using spawn_Ok [OF assms(1)] .
  then have "actor_inv a0"
    by (simp add: actor_new_def actor_inv_def wedge_ok_def WEDGE_THRESHOLD_def split: prod.split)
  then have inv: "actor_inv a" by (rule loop.run_P [OF assms(2)])
  then have srt: "sorted_wrt (\<lambda>p q. wire p < wire q) (ac_connected a)" by (simp add: actor_inv_def)
  then have "distinct (ac_connected a)" by (rule wire_distinct)
  with inv srt show ?thesis by (simp add: actor_inv_def wedge_ok_def WEDGE_THRESHOLD_def)
qed

lemma mock_spawns:
  assumes "encode_plain (challenge_payload 0 7 [1, 2, 3, 4, 5, 6, 7, 8]) = Ok ch"
  obtains a0 s' where "spawn mock_transport k
      (mock_new [step_exchange reset_frame [], step_exchange ident_frame ch]) = (Ok a0, s')"
    and "ac_queues a0 = (\<lambda>_. None)" and "\<not> ac_wedged a0" and "ac_silent a0 = 0" and "ac_connected a0 = []"
proof -
  let ?m = "mock_new [step_exchange reset_frame [], step_exchange ident_frame ch]"
  obtain s' where "open_session mock_transport ?m = (Ok [1, 2, 3, 4, 5, 6, 7, 8], s')"
    using open_session_mock [OF _ assms refl, of "[]"]
    by (cases "open_session mock_transport ?m") auto
  then show thesis
    by (intro that [of "actor_new mock_transport k [1, 2, 3, 4, 5, 6, 7, 8] s'" s'])
      (simp_all add: spawn_def actor_new_def)
qed

text \<open>A fresh session and a request whose command is too long for a frame.\<close>

lemma mock_first_step:
  assumes "\<not> ac_wedged a"
  shows "actor_run (mock_env d e c) a (a\<lparr>ac_silent := 0\<rparr>)"
proof -
  have "encode_encrypted d e (ac_key a) (replicate 65536 0) = Err (TooLong 65539)"
    by (simp add: encode_encrypted_eq pad8_def)
  then have "handle (mock_env d e c) (ReqTransact (replicate 65536 0) 5) a
      = (Err (Codec (TooLong 65539)), a\<lparr>ac_silent := 0\<rparr>)"
    using assms by (simp add: handle_def transact_def transact_inner_def codec_def)
  then show ?thesis
    by (rule run_step [OF run_start step_request]) simp
qed

lemma actor_loop_invariant_witness:
  "\<exists>a0 s s' a. spawn mock_transport None s = (Ok a0, s') \<and>
     actor_run (mock_env True xor_cipher xor_cipher) a0 a \<and> distinct (ac_connected a)"
proof -
  obtain ch where ch: "encode_plain (challenge_payload 0 7 [1, 2, 3, 4, 5, 6, 7, 8]) = Ok ch"
    by (simp add: encode_plain_Ok challenge_payload_def)
  obtain a0 s' where sp: "spawn mock_transport None
      (mock_new [step_exchange reset_frame [], step_exchange ident_frame ch]) = (Ok a0, s')"
    and w: "\<not> ac_wedged a0"
    by (rule mock_spawns [OF ch])
  have sp': "spawn (ev_io (mock_env True xor_cipher xor_cipher)) None
      (mock_new [step_exchange reset_frame [], step_exchange ident_frame ch]) = (Ok a0, s')"
    using sp by simp
  note run = mock_first_step [OF w, of True xor_cipher xor_cipher]
  from actor_loop_invariant [OF sp' run] have "distinct (ac_connected (a0\<lparr>ac_silent := 0\<rparr>))" by blast
  with sp run show ?thesis by blast
qed


end
