(* ===== verification/Device.thy ===== *)
theory Device
  imports Actor
begin

text \<open>
  \<open>rmvci-core/src/session/device.rs\<close>: the handle onto the actor. A call sends one request
  and blocks for its reply, so it is one run of the actor's \<open>handle\<close>. \<open>'s device\<close> is the
  session behind all clones of a handle: the actor, whether its thread is still there, how many
  handles exist and the close signal. A panic in the thread drops the actor without a teardown;
  its callers then see \<open>Closed\<close>. Dropping the last handle ends the receive loop, which tears
  the session down.
\<close>

record 's device =
  dv_actor :: "'s actor"
  dv_alive :: bool
  dv_handles :: nat
  dv_closed :: bool

definition open_transport :: "'s env \<Rightarrow> duration option \<Rightarrow> 's \<Rightarrow> ('s device, error) res \<times> 's" where
  "open_transport E keepalive s =
     (case spawn (ev_io E) keepalive s of
        (Inl Panic, s') \<Rightarrow> (Err Closed, s')
      | (Inl (Fail e), s') \<Rightarrow> (Err e, s')
      | (Inr a, s') \<Rightarrow>
          (Ok \<lparr>dv_actor = a, dv_alive = True, dv_handles = 1, dv_closed = False\<rparr>, s'))"

definition resolve_port :: "string option \<Rightarrow> string option \<Rightarrow> string" where
  "resolve_port explicit mvci_port =
     (case explicit of Some p \<Rightarrow> p
      | None \<Rightarrow> (case mvci_port of Some p \<Rightarrow> p | None \<Rightarrow> ''/dev/ttyUSB0''))"

section \<open>Requests\<close>

definition dev_request :: "'s env \<Rightarrow> request \<Rightarrow> (answer, error, 's device) op" where
  "dev_request E req d =
     (if \<not> dv_alive d then (Err Closed, d)
      else case handle E req (dv_actor d) of
        (Inl Panic, a) \<Rightarrow> (Err Closed, d\<lparr>dv_actor := a, dv_alive := False\<rparr>)
      | (r, a) \<Rightarrow> (r, d\<lparr>dv_actor := a\<rparr>))"

text \<open>Each request variant carries a reply channel of its own type; an answer of another
  variant cannot arrive.\<close>

fun answer_bytes :: "answer \<Rightarrow> (bytes, error) res" where
  "answer_bytes (ABytes b) = Ok b"
| "answer_bytes _ = panic"

fun answer_unit :: "answer \<Rightarrow> (unit, error) res" where
  "answer_unit AUnit = Ok ()"
| "answer_unit _ = panic"

fun answer_msg :: "answer \<Rightarrow> (rx_msg option, error) res" where
  "answer_msg (AMsg m) = Ok m"
| "answer_msg _ = panic"

definition dev_transact :: "'s env \<Rightarrow> bytes \<Rightarrow> duration \<Rightarrow> (bytes, error, 's device) op" where
  "dev_transact E inner timeout =
     sbind (dev_request E (ReqTransact inner timeout)) (\<lambda>v. slift (answer_bytes v))"

definition connect_proto :: "'s env \<Rightarrow> protocol_id \<Rightarrow> u32 \<Rightarrow> u32 \<Rightarrow> (unit, error, 's device) op" where
  "connect_proto E proto flags baud =
     sbind (dev_request E (ReqConnect proto flags baud)) (\<lambda>v. slift (answer_unit v))"

definition disconnect_proto :: "'s env \<Rightarrow> protocol_id \<Rightarrow> (unit, error, 's device) op" where
  "disconnect_proto E proto =
     sbind (dev_request E (ReqDisconnect proto)) (\<lambda>v. slift (answer_unit v))"

definition poll_proto :: "'s env \<Rightarrow> protocol_id \<Rightarrow> duration \<Rightarrow> (rx_msg option, error, 's device) op" where
  "poll_proto E proto timeout =
     sbind (dev_request E (ReqPoll proto timeout)) (\<lambda>v. slift (answer_msg v))"

text \<open>The identity string as its bytes, before the lossy UTF-8 decoding.\<close>

definition firmware_version :: "'s env \<Rightarrow> (bytes, error, 's device) op" where
  "firmware_version E =
     sbind (dev_transact E read_version (from_millis 1000)) (\<lambda>resp.
       if length resp < 3 then sthrow (Codec (MalformedReply ''not a version reply''))
       else sbind (slift (idx resp 2)) (\<lambda>c.
         if c \<noteq> cmd_u8 ReadVersion then sthrow (Codec (MalformedReply ''not a version reply''))
         else sbind (slift (slice resp 3 (length resp))) (\<lambda>body.
           sreturn (takeWhile (\<lambda>b. b \<noteq> 0) body))))"

definition dev_status :: "'s env \<Rightarrow> bytes \<Rightarrow> cmd \<Rightarrow> duration \<Rightarrow> (unit, error, 's device) op" where
  "dev_status E inner c timeout =
     sbind (dev_transact E inner timeout) (\<lambda>resp.
     sbind (slift (codec (status_of resp c))) (\<lambda>st.
       if status_is_ok st then sreturn () else sthrow (Rejected c st)))"

definition dev_set_programming_voltage :: "'s env \<Rightarrow> u32 \<Rightarrow> u32 \<Rightarrow> (unit, error, 's device) op" where
  "dev_set_programming_voltage E pin millivolts =
     dev_status E (set_programming_voltage pin millivolts) SetProgrammingVoltage (from_millis 2000)"

section \<open>Handles\<close>

definition dev_clone :: "'s device \<Rightarrow> 's device" where
  "dev_clone d = d\<lparr>dv_handles := dv_handles d + 1\<rparr>"

definition dev_drop :: "'s env \<Rightarrow> 's device \<Rightarrow> 's device" where
  "dev_drop E d =
     (let d = d\<lparr>dv_handles := dv_handles d - 1\<rparr> in
      if dv_handles d = 0 \<and> dv_alive d
      then (case teardown E (dv_actor d) of
              (r, a) \<Rightarrow> d\<lparr>dv_actor := a, dv_alive := False, dv_closed := (r \<noteq> panic)\<rparr>)
      else d)"

text \<open>\<open>close\<close>: drop this handle, wait for the signal, tell whether it came.\<close>

definition dev_close :: "'s env \<Rightarrow> 's device \<Rightarrow> bool \<times> 's device" where
  "dev_close E d = (let d' = dev_drop E d in (dv_closed d', d'))"

section \<open>Lemmas\<close>

lemma dev_request_alive:
  "dv_alive d \<Longrightarrow> handle E req (dv_actor d) = (r, a) \<Longrightarrow> r \<noteq> panic \<Longrightarrow>
     dev_request E req d = (r, d\<lparr>dv_actor := a\<rparr>)"
  by (auto simp: dev_request_def split: sum.split fault.split)

lemma dev_request_not_panic [simp]: "fst (dev_request E req d) \<noteq> panic"
  by (auto simp: dev_request_def split: prod.split sum.split fault.split)

text \<open>The answers have the types the callers expect.\<close>

lemma handle_answer:
  assumes "handle E req a = (Ok v, a')"
  shows "case req of ReqTransact _ _ \<Rightarrow> \<exists>b. v = ABytes b | ReqPoll _ _ \<Rightarrow> \<exists>m. v = AMsg m | _ \<Rightarrow> v = AUnit"
  using assms
  by (cases req) (auto simp: handle_def sbind_eq_Ok split: if_splits)

lemma dev_request_answer:
  assumes "dev_request E req d = (Ok v, d')"
  shows "case req of ReqTransact _ _ \<Rightarrow> \<exists>b. v = ABytes b | ReqPoll _ _ \<Rightarrow> \<exists>m. v = AMsg m | _ \<Rightarrow> v = AUnit"
proof -
  obtain a' where "handle E req (dv_actor d) = (Ok v, a')"
    using assms by (auto simp: dev_request_def split: if_splits prod.splits sum.splits fault.splits)
  then show ?thesis by (rule handle_answer)
qed

lemma dev_calls_not_panic [simp]:
  "fst (dev_transact E i t d) \<noteq> panic" "fst (connect_proto E p fl b d) \<noteq> panic"
  "fst (disconnect_proto E p d) \<noteq> panic" "fst (poll_proto E p t d) \<noteq> panic"
proof -
  have gen: "fst (sbind (dev_request E req) (\<lambda>v. slift (f v)) d) \<noteq> panic"
    if "\<And>v d'. dev_request E req d = (Ok v, d') \<Longrightarrow> f v \<noteq> panic" for req and f :: "answer \<Rightarrow> ('z, error) res"
    using that dev_request_not_panic [of E req d]
    by (cases "dev_request E req d"; cases "fst (dev_request E req d)") auto
  show "fst (dev_transact E i t d) \<noteq> panic"
    unfolding dev_transact_def by (rule gen, drule dev_request_answer, auto)
  show "fst (connect_proto E p fl b d) \<noteq> panic"
    unfolding connect_proto_def by (rule gen, drule dev_request_answer, auto)
  show "fst (disconnect_proto E p d) \<noteq> panic"
    unfolding disconnect_proto_def by (rule gen, drule dev_request_answer, auto)
  show "fst (poll_proto E p t d) \<noteq> panic"
    unfolding poll_proto_def by (rule gen, drule dev_request_answer, auto)
qed

lemma dead_device: "\<not> dv_alive d \<Longrightarrow> dev_request E req d = (Err Closed, d)"
  by (simp add: dev_request_def)

end
