(* ===== verification/Raw_Channel.thy ===== *)
theory Raw_Channel
  imports Device
begin

text \<open>
  \<open>rmvci-core/src/session/raw.rs\<close>: the dynamically typed channel. \<open>raw_channel\<close> is the
  struct \<open>RawChannel\<close> without its device handle; its operations run on the pair of the shared
  session and the channel. The record is extensible: \<open>Channel<P>\<close> adds its fields.
\<close>

record raw_channel =
  rc_proto :: protocol_id
  rc_nfilters :: nat

type_synonym ('a, 's, 'z) chan_op = "('a, error, 's device \<times> 'z raw_channel_scheme) op"

definition on_dev :: "('a, error, 's device) op \<Rightarrow> ('a, 's, 'z) chan_op" where
  "on_dev m s = (case m (fst s) of (r, d) \<Rightarrow> (r, (d, snd s)))"

text \<open>\<open>RawChannel::connect\<close>; the handle passed in becomes the channel's, or is dropped.\<close>

definition raw_connect :: "'s env \<Rightarrow> protocol_id \<Rightarrow> u32 \<Rightarrow> u32 \<Rightarrow> (raw_channel, error, 's device) op" where
  "raw_connect E proto flags baud d =
     (case connect_proto E proto flags baud d of
        (Inl e, d1) \<Rightarrow> (Inl e, dev_drop E d1)
      | (Inr _, d1) \<Rightarrow> (Ok \<lparr>rc_proto = proto, rc_nfilters = 0\<rparr>, d1))"

text \<open>\<open>Device::connect_raw\<close> passes a clone of its handle.\<close>

definition dev_connect_raw :: "'s env \<Rightarrow> protocol_id \<Rightarrow> u32 \<Rightarrow> u32 \<Rightarrow> (raw_channel, error, 's device) op" where
  "dev_connect_raw E proto flags baud d = raw_connect E proto flags baud (dev_clone d)"

definition raw_status :: "'s env \<Rightarrow> bytes \<Rightarrow> cmd \<Rightarrow> duration \<Rightarrow> (unit, 's, 'z) chan_op" where
  "raw_status E inner c timeout =
     sbind (on_dev (dev_transact E inner timeout)) (\<lambda>resp.
     sbind (slift (codec (status_of resp c))) (\<lambda>st.
       if status_is_ok st then sreturn () else sthrow (Rejected c st)))"

section \<open>Filters\<close>

definition bump_filters :: "(nat \<Rightarrow> nat) \<Rightarrow> (unit, 's, 'z) chan_op" where
  "bump_filters f s = (Ok (), (fst s, (snd s)\<lparr>rc_nfilters := f (rc_nfilters (snd s))\<rparr>))"

definition raw_start_filter ::
  "'s env \<Rightarrow> u32 \<Rightarrow> u32 \<Rightarrow> bytes \<Rightarrow> bytes \<Rightarrow> bytes option \<Rightarrow> nat \<Rightarrow> (unit, 's, 'z) chan_op" where
  "raw_start_filter E filter_id ftype msk pattern flow idlen s =
     sbind (slift (codec (start_filter (rc_proto (snd s)) filter_id ftype msk pattern flow idlen))) (\<lambda>c.
     sbind (raw_status E c StartMsgFilter (from_millis 2000)) (\<lambda>_.
       bump_filters (\<lambda>n. n + 1))) s"

definition raw_stop_filter :: "'s env \<Rightarrow> u32 \<Rightarrow> (unit, 's, 'z) chan_op" where
  "raw_stop_filter E filter_id s =
     sbind (raw_status E (stop_filter (rc_proto (snd s)) filter_id) StopMsgFilter (from_millis 2000)) (\<lambda>_.
       bump_filters (\<lambda>n. n - 1)) s"

section \<open>Messages\<close>

definition write_bounds :: "protocol_id \<Rightarrow> nat \<times> nat" where
  "write_bounds proto =
     (case proto of
        Can \<Rightarrow> (4, 12)
      | Iso15765 \<Rightarrow> (4, MAX_MSG)
      | J1850Vpw \<Rightarrow> (1, 12)
      | J1850Pwm \<Rightarrow> (1, 11)
      | Iso9141 \<Rightarrow> (1, 64)
      | Iso14230 \<Rightarrow> (1, 64))"

definition raw_write :: "'s env \<Rightarrow> u32 \<Rightarrow> bytes \<Rightarrow> (unit, 's, 'z) chan_op" where
  "raw_write E txflags msg s =
     (case write_bounds (rc_proto (snd s)) of (lo, hi) \<Rightarrow>
        if length msg < lo \<or> length msg > hi then sthrow (Codec (MsgTooLong (length msg))) s
        else if rc_proto (snd s) = Iso15765 \<and> length msg - 4 > 255
        then sthrow (IsoTpErr (FirmwareFfDlLimit (length msg - 4))) s
        else sbind (slift (codec (write_msg (rc_proto (snd s)) txflags msg))) (\<lambda>c.
               raw_status E c WriteMsg (from_millis 1000)) s)"

definition raw_poll :: "'s env \<Rightarrow> duration \<Rightarrow> (rx_msg option, 's, 'z) chan_op" where
  "raw_poll E timeout s = on_dev (poll_proto E (rc_proto (snd s)) timeout) s"

text \<open>The caller's clock and sleep: the standard library's, in the same world.\<close>

definition chan_now :: "'s env \<Rightarrow> (instant, 's, 'z) chan_op" where
  "chan_now E s =
     (case t_now (ev_io E) (ac_io (dv_actor (fst s))) of
        (now, w) \<Rightarrow> (Ok now, ((fst s)\<lparr>dv_actor := (dv_actor (fst s))\<lparr>ac_io := w\<rparr>\<rparr>, snd s)))"

definition chan_sleep :: "'s env \<Rightarrow> duration \<Rightarrow> (unit, 's, 'z) chan_op" where
  "chan_sleep E d s =
     (Ok (), ((fst s)\<lparr>dv_actor := (dv_actor (fst s))\<lparr>ac_io := t_thread_sleep (ev_io E) d (ac_io (dv_actor (fst s)))\<rparr>\<rparr>, snd s))"

text \<open>The loop of \<open>read\<close>, with fuel; the outer \<open>None\<close> is fuel exhausted.\<close>

fun raw_read_loop :: "'s env \<Rightarrow> nat \<Rightarrow> instant \<Rightarrow> duration \<Rightarrow> 's device \<times> 'z raw_channel_scheme
    \<Rightarrow> ((rx_msg, error) res \<times> ('s device \<times> 'z raw_channel_scheme)) option" where
  "raw_read_loop E 0 deadline timeout s = None"
| "raw_read_loop E (Suc k) deadline timeout s =
     (case chan_now E s of
        (Inl e, s1) \<Rightarrow> Some (Inl e, s1)
      | (Inr now, s1) \<Rightarrow>
          let remaining = deadline - now in
          if remaining = 0
          then Some (Err (if rc_nfilters (snd s1) = 0 then NoFilterInstalled (rc_proto (snd s1))
                          else Timeout timeout), s1)
          else (case raw_poll E (min remaining (from_millis 500)) s1 of
             (Inl e, s2) \<Rightarrow> Some (Inl e, s2)
           | (Inr r, s2) \<Rightarrow>
               (case r of
                  Some m \<Rightarrow> if \<not> is_indication m then Some (Ok m, s2)
                            else raw_read_loop E k deadline timeout (snd (chan_sleep E (from_millis 2) s2))
                | None \<Rightarrow> raw_read_loop E k deadline timeout (snd (chan_sleep E (from_millis 2) s2)))))"

definition raw_read :: "'s env \<Rightarrow> nat \<Rightarrow> duration \<Rightarrow> 's device \<times> 'z raw_channel_scheme
    \<Rightarrow> ((rx_msg, error) res \<times> ('s device \<times> 'z raw_channel_scheme)) option" where
  "raw_read E fuel timeout s =
     (case chan_now E s of
        (Inl e, s1) \<Rightarrow> Some (Inl e, s1)
      | (Inr now, s1) \<Rightarrow> raw_read_loop E fuel (now + timeout) timeout s1)"

section \<open>Ioctls\<close>

definition raw_set_config :: "'s env \<Rightarrow> u32 \<Rightarrow> u32 \<Rightarrow> (unit, 's, 'z) chan_op" where
  "raw_set_config E param v s =
     raw_status E (set_config (rc_proto (snd s)) param v) Ioctl (from_millis 2000) s"

definition raw_start_periodic :: "'s env \<Rightarrow> u32 \<Rightarrow> u32 \<Rightarrow> u32 \<Rightarrow> bytes \<Rightarrow> (unit, 's, 'z) chan_op" where
  "raw_start_periodic E msg_id txflags interval_ms msg s =
     sbind (slift (codec (start_periodic (rc_proto (snd s)) msg_id txflags interval_ms msg))) (\<lambda>c.
       raw_status E c StartPeriodicMsg (from_millis 2000)) s"

definition raw_stop_periodic :: "'s env \<Rightarrow> u32 \<Rightarrow> (unit, 's, 'z) chan_op" where
  "raw_stop_periodic E msg_id s =
     raw_status E (stop_periodic (rc_proto (snd s)) msg_id) StopPeriodicMsg (from_millis 2000) s"

definition raw_clear_periodic :: "'s env \<Rightarrow> (unit, 's, 'z) chan_op" where
  "raw_clear_periodic E s = raw_status E (clear_periodic (rc_proto (snd s))) Ioctl (from_millis 1000) s"

definition raw_clear_rx :: "'s env \<Rightarrow> (unit, 's, 'z) chan_op" where
  "raw_clear_rx E s = raw_status E (clear_rx (rc_proto (snd s))) Ioctl (from_millis 1000) s"

definition parse_init_reply :: "bytes \<Rightarrow> (bytes, error) res" where
  "parse_init_reply resp =
     (if length resp < 3 then Err (Codec (MalformedReply ''not a K-line init reply''))
      else rbind (idx resp 2) (\<lambda>c.
        if c \<noteq> cmd_u8 Ioctl then Err (Codec (MalformedReply ''not a K-line init reply''))
        else rbind (rd_u16 resp) (\<lambda>field.
          let mlen = min (field - 1) (length resp - 3) in slice resp 3 (3 + mlen))))"

definition raw_fast_init :: "'s env \<Rightarrow> bytes \<Rightarrow> (bytes, 's, 'z) chan_op" where
  "raw_fast_init E init s =
     sbind (on_dev (dev_transact E (fast_init (rc_proto (snd s)) init) (from_millis 3000))) (\<lambda>resp.
       slift (parse_init_reply resp)) s"

definition raw_five_baud_init :: "'s env \<Rightarrow> bytes \<Rightarrow> (bytes, 's, 'z) chan_op" where
  "raw_five_baud_init E init s =
     sbind (on_dev (dev_transact E (five_baud_init (rc_proto (snd s)) init) (from_millis 3000))) (\<lambda>resp.
       slift (parse_init_reply resp)) s"

definition raw_get_config :: "'s env \<Rightarrow> u32 \<Rightarrow> (u32, 's, 'z) chan_op" where
  "raw_get_config E param s =
     sbind (on_dev (dev_transact E (get_config (rc_proto (snd s)) param) (from_millis 2000))) (\<lambda>resp.
       slift (codec (parse_get_config resp))) s"

definition raw_read_vbatt :: "'s env \<Rightarrow> (u32, 's, 'z) chan_op" where
  "raw_read_vbatt E s =
     sbind (on_dev (dev_transact E (read_vbatt (rc_proto (snd s))) (from_millis 1000))) (\<lambda>resp.
       slift (codec (parse_vbatt resp))) s"

text \<open>\<open>Drop\<close>: a best-effort disconnect, then the channel's handle goes.\<close>

definition raw_drop :: "'s env \<Rightarrow> 's device \<Rightarrow> 'z raw_channel_scheme \<Rightarrow> 's device" where
  "raw_drop E d r = dev_drop E (snd (disconnect_proto E (rc_proto r) d))"

section \<open>Time passes\<close>

lemma advances_on_io: "advances g m \<Longrightarrow> advances (\<lambda>a. g (ac_io a)) (on_io m)"
  by (simp add: advances_def on_io_def split_beta)

lemma advances_io_op: "advances g m \<Longrightarrow> advances g (io_op m)"
  by (simp add: advances_def io_op_def split_beta)

lemma advances_pointwise: "(\<And>a0. advances g (m a0)) \<Longrightarrow> advances g (\<lambda>a. m a a)"
  by (simp add: advances_def)

locale session_clock = world_clock "ev_io E" time for E :: "'s env" and time
begin

abbreviation "atime \<equiv> \<lambda>a :: 's actor. time (ac_io a)"

lemma advances_now: "time s \<le> time (snd (t_now (ev_io E) s))"
  using now_between [of s] by (rule le_trans)

lemma advances_read_frame: "advances time (read_frame (ev_io E) timeout)"
  by (rule read_frame_advances) (rule forward advances_now)+

lemma advances_port:
  "advances time (io_op (t_purge_rx (ev_io E)))" "advances time (io_op (t_write_all (ev_io E) b))"
  "advances time (pause (ev_io E) d)"
  by (auto simp: advances_def pause_def forward intro!: advances_io_op [unfolded advances_def, rule_format])

lemma advances_stamp: "advances atime (stamp (ev_io E))"
  unfolding advances_def
proof
  fix a :: "'s actor"
  show "atime a \<le> atime (snd (stamp (ev_io E) a))"
    using advances_now [of "ac_io a"] by (cases "t_now (ev_io E) (ac_io a)") (simp add: stamp_def)
qed

lemma advances_transact: "advances atime (transact E inner timeout)"
proof -
  have "advances atime (\<lambda>a. transact_inner E inner timeout a)"
    unfolding transact_inner_def
    by (rule advances_pointwise)
      (intro advances_sbind advances_pure advances_on_io advances_port advances_stamp advances_read_frame)
  then show ?thesis
    by (simp add: advances_def transact_def note_silence_def Let_def split_beta)
qed

lemma advances_establish: "advances time (establish (ev_io E))"
  unfolding establish_def
  by (intro advances_sbind advances_pure advances_port advances_read_frame)

lemma advances_reestablish: "advances atime (reestablish E)"
  using advances_on_io [OF advances_establish]
  by (simp add: advances_def reestablish_def split_beta split: sum.split)

lemma preserves_advances: "advances g m \<Longrightarrow> preserves (\<lambda>a. n \<le> g a) m"
  unfolding preserves_def advances_def by (meson le_trans)

end

sublocale session_clock \<subseteq> later: actor_invariant E "\<lambda>a. n \<le> time (ac_io a)" for n
  using preserves_advances [OF advances_transact] preserves_advances [OF advances_reestablish]
    preserves_advances [OF advances_stamp]
  by unfold_locales (simp_all add: preserves_def note_connected_def)

lemma rc_on_dev [simp]: "snd (snd (on_dev m s)) = snd s"
  by (simp add: on_dev_def split: prod.split)

context session_clock
begin

abbreviation "ctime \<equiv> \<lambda>s :: 's device \<times> 'z raw_channel_scheme. time (ac_io (dv_actor (fst s)))"

lemma request_later: "time (ac_io (dv_actor d)) \<le> time (ac_io (dv_actor (snd (dev_request E req d))))"
proof -
  have "time (ac_io (dv_actor d)) \<le> time (ac_io (snd (handle E req (dv_actor d))))"
    using later.handle_P [of "time (ac_io (dv_actor d))" req] by (simp add: preserves_def)
  then show ?thesis
    by (cases "handle E req (dv_actor d)") (auto simp: dev_request_def split: sum.split fault.split)
qed

lemma snd_sbind_slift: "snd (sbind m (\<lambda>v. slift (f v)) s) = snd (m s)"
  by (cases "m s"; cases "fst (m s)") auto

lemma poll_later: "ctime s \<le> ctime (snd (raw_poll E t s))"
  using request_later [of "fst s"]
  by (simp add: raw_poll_def on_dev_def poll_proto_def split_beta snd_sbind_slift)

text \<open>The reading loop ends: every round advances the clock by at least the two milliseconds slept.\<close>

lemma raw_read_loop_ends:
  assumes "deadline - ctime s \<le> k * from_millis 2"
  shows "\<exists>r s'. raw_read_loop E (Suc k) deadline timeout s = Some (r, s')
    \<and> (\<forall>m. r = Ok m \<longrightarrow> \<not> is_indication m)
    \<and> snd s' = snd s"
  using assms
proof (induction k arbitrary: s rule: less_induct)
  case step: (less k)
  obtain now w where nw: "t_now (ev_io E) (ac_io (dv_actor (fst s))) = (now, w)" by fastforce
  define s1 where "s1 = ((fst s)\<lparr>dv_actor := (dv_actor (fst s))\<lparr>ac_io := w\<rparr>\<rparr>, snd s)"
  have c: "chan_now E s = (Ok now, s1)" by (simp add: chan_now_def nw s1_def)
  have t1: "ctime s \<le> now" "now \<le> ctime s1"
    using now_between [of "ac_io (dv_actor (fst s))"] by (simp_all add: nw s1_def)
  show ?case
  proof (cases "deadline - now = 0")
    case True
    then show ?thesis by (simp add: c s1_def)
  next
    case False
    let ?b = "min (deadline - now) (from_millis 500)"
    obtain r s2 where p: "raw_poll E ?b s1 = (r, s2)" by (metis surj_pair)
    have t2: "ctime s1 \<le> ctime s2" using poll_later [of s1 ?b] p by simp
    have rc: "snd s2 = snd s"
      using p rc_on_dev [of "poll_proto E (rc_proto (snd s1)) ?b" s1] by (simp add: raw_poll_def s1_def)
    define s3 where "s3 = snd (chan_sleep E (from_millis 2) s2)"
    have "ctime s2 + from_millis 2 \<le> ctime s3"
      using slept [of "ac_io (dv_actor (fst s2))" "from_millis 2"] by (simp add: s3_def chan_sleep_def)
    obtain j where k: "k = Suc j"
      using step.prems t1(1) False by (cases k) auto
    with \<open>_ \<le> ctime s3\<close> have "deadline - ctime s3 \<le> j * from_millis 2"
      using step.prems t1 t2 by simp
    from step.IH [OF _ this] k have IH: "\<exists>r s'. raw_read_loop E k deadline timeout s3 = Some (r, s')
      \<and> (\<forall>m. r = Ok m \<longrightarrow> \<not> is_indication m)
      \<and> snd s' = snd s"
      using rc by (simp add: s3_def chan_sleep_def)
    have next_round: "raw_read_loop E (Suc k) deadline timeout s = raw_read_loop E k deadline timeout s3"
      if "r = Ok None \<or> (\<exists>m. r = Ok (Some m) \<and> is_indication m)"
      using that c p False by (auto simp: Let_def s3_def)
    consider x where "r = Inl x" | m where "r = Ok (Some m)" "\<not> is_indication m"
      | "r = Ok None \<or> (\<exists>m. r = Ok (Some m) \<and> is_indication m)"
      by (cases r; cases "projr r") auto
    then show ?thesis
    proof cases
      case 3
      with IH next_round show ?thesis by simp
    qed (use c p False rc in \<open>simp_all add: Let_def\<close>)
  qed
qed

lemma raw_read_ends:
  assumes "timeout + from_millis 2 \<le> fuel * from_millis 2"
  shows "\<exists>r s'. raw_read E fuel timeout s = Some (r, s')
    \<and> (\<forall>m. r = Ok m \<longrightarrow> \<not> is_indication m) \<and> snd s' = snd s
    \<and> (timeout = 0 \<longrightarrow> r = Err (if rc_nfilters (snd s) = 0 then NoFilterInstalled (rc_proto (snd s))
                              else Timeout timeout))"
proof -
  obtain now w where nw: "t_now (ev_io E) (ac_io (dv_actor (fst s))) = (now, w)" by fastforce
  define s1 where "s1 = ((fst s)\<lparr>dv_actor := (dv_actor (fst s))\<lparr>ac_io := w\<rparr>\<rparr>, snd s)"
  have c: "chan_now E s = (Ok now, s1)" by (simp add: chan_now_def nw s1_def)
  have t1: "now \<le> ctime s1"
    using now_between(2) [of "ac_io (dv_actor (fst s))"] by (simp add: nw s1_def)
  obtain k where k: "fuel = Suc k" using assms by (cases fuel) auto
  with t1 have "now + timeout - ctime s1 \<le> k * from_millis 2"
    using assms by simp
  from raw_read_loop_ends [OF this, of timeout]
  obtain r s' where loop: "raw_read_loop E (Suc k) (now + timeout) timeout s1 = Some (r, s')"
    "\<forall>m. r = Ok m \<longrightarrow> \<not> is_indication m" "snd s' = snd s1" by blast
  have rd: "raw_read E fuel timeout s = Some (r, s')"
    using loop(1) by (simp only: raw_read_def c k prod.case sum.case)
  have zero: "r = Err (if rc_nfilters (snd s) = 0 then NoFilterInstalled (rc_proto (snd s)) else Timeout timeout)"
    if "timeout = 0"
  proof -
    obtain now2 w2 where nw2: "t_now (ev_io E) w = (now2, w2)" by fastforce
    have "now \<le> now2"
      using t1 now_between(1) [of w] by (simp add: nw2 s1_def)
    then show ?thesis
      using loop(1) that by (auto simp: chan_now_def nw2 s1_def)
  qed
  from rd loop(2,3) zero show ?thesis by (auto simp: s1_def)
qed

end

interpretation mock_timed: session_clock "mock_env d e c" mk_now for d e c
  by (unfold session_clock_def mock_env_simps) (rule mock_clock.world_clock_axioms)

section \<open>Properties\<close>

text \<open>Reading a channel ends, with any adapter and any requests in between, after at most one
  poll per two milliseconds of its timeout: with a data message (echoes and start-of-message
  indications are skipped) or an error. With no filter installed the expiry is reported as such.
  This is for every port whose clock runs forward.\<close>
theorem raw_read_returns:
  assumes "session_clock E time" and "timeout + from_millis 2 \<le> fuel * from_millis 2"
  shows "\<exists>r s'. raw_read E fuel timeout s = Some (r, s')
    \<and> (\<forall>m. r = Ok m \<longrightarrow> \<not> is_indication m) \<and> snd s' = snd s
    \<and> (timeout = 0 \<longrightarrow> r = Err (if rc_nfilters (snd s) = 0 then NoFilterInstalled (rc_proto (snd s))
                              else Timeout timeout))"
  by (rule session_clock.raw_read_ends [OF assms])

lemma raw_read_returns_witness:
  "\<exists>r s'. raw_read (mock_env True xor_cipher xor_cipher) 501 (from_millis 1000)
     (\<lparr>dv_actor = actor_new mock_transport None [1] (mock_new []), dv_alive = True, dv_handles = 1,
       dv_closed = False\<rparr>, \<lparr>rc_proto = Can, rc_nfilters = 0\<rparr>) = Some (r, s')"
  using raw_read_returns [OF mock_timed.session_clock_axioms [of True xor_cipher xor_cipher],
      of "from_millis 1000" 501] by fastforce

text \<open>\<open>write\<close> refuses without touching the wire exactly the messages outside the protocol's
  bounds, and on ISO 15765 also the payloads above 255 bytes, whose First Frame the firmware would
  emit malformed; every other message is handed to the adapter whole, in one command.\<close>
theorem raw_write_bounds:
  "raw_write E fl msg (d, r) =
     (let n = length msg; lo = (if is_can (rc_proto r) then 4 else 1);
          hi = (case rc_proto r of Can \<Rightarrow> 12 | Iso15765 \<Rightarrow> 259 | J1850Vpw \<Rightarrow> 12 | J1850Pwm \<Rightarrow> 11 | _ \<Rightarrow> 64) in
      if lo \<le> n \<and> n \<le> hi
      then raw_status E (ilen (8 + n) @ cmd_u8 WriteMsg # u32_le (wire (rc_proto r)) @ u32_le fl @ msg)
             WriteMsg (from_millis 1000) (d, r)
      else (Err (if rc_proto r = Iso15765 \<and> 260 \<le> n \<and> n \<le> 4100 then IsoTpErr (FirmwareFfDlLimit (n - 4))
                 else Codec (MsgTooLong n)), (d, r)))"
  by (cases "rc_proto r") (auto simp: raw_write_def write_bounds_def write_msg_def MAX_MSG_def Let_def Suc_le_eq)

end
