(* ===== verification/Protocols.thy ===== *)
theory Protocols
  imports Inner
begin

text \<open>
  Protocol markers, connect parameters, CAN identifiers and filters:
  \<open>rmvci-core/src/session/protocol.rs\<close>. The trait \<open>Protocol\<close> is the locale \<open>protocol\<close>: an
  identifier, a filter type with its encoding and a configuration with its wire pair. Its law
  is the module's claim that a typed filter can never be rejected for its width. The four
  marker types are the interpretations.
\<close>

section \<open>CAN identifiers\<close>

datatype can_id = Std u16 | Ext u32

fun to_wire :: "can_id \<Rightarrow> bytes" where
  "to_wire (Std v) = u32_be (ucast v AND 0x7ff)"
| "to_wire (Ext v) = u32_be (v AND 0x1fffffff)"

definition from_wire :: "bytes \<Rightarrow> bool \<Rightarrow> can_id" where
  "from_wire b ext =
     (let v = u32_from_be b in
      if ext then Ext (v AND 0x1fffffff) else Std (ucast (v AND 0x7ff)))"

fun is_ext :: "can_id \<Rightarrow> bool" where
  "is_ext (Std _) = False"
| "is_ext (Ext _) = True"

section \<open>Filters\<close>

record encoded_filter =
  ef_ftype :: filter_type
  ef_mask :: bytes
  ef_pattern :: bytes
  ef_flow :: "bytes option"
  ef_idlen :: nat

record kline_filter =
  kf_mask :: u8
  kf_pattern :: u8

definition encode_kline :: "kline_filter \<Rightarrow> encoded_filter" where
  "encode_kline f =
     \<lparr>ef_ftype = Pass, ef_mask = [kf_mask f], ef_pattern = [kf_pattern f], ef_flow = None, ef_idlen = 1\<rparr>"

record can_filter =
  cf_mask :: u32
  cf_pattern :: can_id

definition can_exact :: "can_id \<Rightarrow> can_filter" where
  "can_exact i = \<lparr>cf_mask = 0xffffffff, cf_pattern = i\<rparr>"

definition encode_can :: "can_filter \<Rightarrow> encoded_filter" where
  "encode_can f =
     \<lparr>ef_ftype = Pass, ef_mask = u32_be (cf_mask f), ef_pattern = to_wire (cf_pattern f),
      ef_flow = None, ef_idlen = 4\<rparr>"

record flow_filter =
  ff_rx :: can_id
  ff_tx :: can_id
  ff_mask :: u32
  ff_ext_addr :: "u8 option"

definition flow_exact :: "can_id \<Rightarrow> can_id \<Rightarrow> flow_filter" where
  "flow_exact rx tx = \<lparr>ff_rx = rx, ff_tx = tx, ff_mask = 0xffffffff, ff_ext_addr = None\<rparr>"

definition with_mask :: "u32 \<Rightarrow> flow_filter \<Rightarrow> flow_filter" where
  "with_mask m f = f\<lparr>ff_mask := m\<rparr>"

definition with_ext_addr :: "u8 \<Rightarrow> flow_filter \<Rightarrow> flow_filter" where
  "with_ext_addr a f = f\<lparr>ff_ext_addr := Some a\<rparr>"

definition encode_flow :: "flow_filter \<Rightarrow> encoded_filter" where
  "encode_flow f =
     (let msk = u32_be (ff_mask f); pattern = to_wire (ff_rx f); flow = to_wire (ff_tx f) in
      case ff_ext_addr f of
        None \<Rightarrow> \<lparr>ef_ftype = FlowControl, ef_mask = msk, ef_pattern = pattern, ef_flow = Some flow, ef_idlen = 4\<rparr>
      | Some a \<Rightarrow> \<lparr>ef_ftype = FlowControl, ef_mask = msk @ [0xff], ef_pattern = pattern @ [a],
                   ef_flow = Some (flow @ [a]), ef_idlen = 5\<rparr>)"

section \<open>Connect parameters\<close>

record kline_config =
  kc_baud :: u32
  kc_flags :: u32

definition kline_config_default :: kline_config where
  "kline_config_default = \<lparr>kc_baud = 10400, kc_flags = 0x1000\<rparr>"

definition kline_wire :: "kline_config \<Rightarrow> u32 \<times> u32" where
  "kline_wire c = (kc_flags c, kc_baud c)"

record can_config =
  cc_bitrate :: u32
  cc_flags :: u32

definition can_config_default :: can_config where
  "can_config_default = \<lparr>cc_bitrate = 500000, cc_flags = 0\<rparr>"

definition can_wire :: "can_config \<Rightarrow> u32 \<times> u32" where
  "can_wire c = (cc_flags c, cc_bitrate c)"

section \<open>The trait\<close>

definition start_encoded :: "protocol_id \<Rightarrow> u32 \<Rightarrow> encoded_filter \<Rightarrow> (bytes, codec_error) res" where
  "start_encoded proto fid e =
     start_filter proto fid (filter_type_u32 (ef_ftype e)) (ef_mask e) (ef_pattern e) (ef_flow e) (ef_idlen e)"

text \<open>\<open>width_ok\<close>: the width fits the protocol and every field has exactly that width.\<close>

locale protocol =
  fixes pid :: protocol_id and encode :: "'f \<Rightarrow> encoded_filter" and cfg_wire :: "'c \<Rightarrow> u32 \<times> u32"
  assumes width_ok: "ef_idlen (encode f) \<in> (if is_can pid then {4, 5} else {1})"
    and mask_width: "length (ef_mask (encode f)) = ef_idlen (encode f)"
    and pattern_width: "length (ef_pattern (encode f)) = ef_idlen (encode f)"
    and flow_width: "ef_flow (encode f) = Some b \<Longrightarrow> length b = ef_idlen (encode f)"
begin

text \<open>The filter of a typed channel is accepted by the encoder and put on the wire whole.\<close>

lemma start_encoded_Ok:
  "start_encoded pid fid (encode f) =
     Ok (ilen (12 + 3 * ef_idlen (encode f)) @ cmd_u8 StartMsgFilter # u32_le (wire pid) @ u32_le fid
         @ u32_le (filter_type_u32 (ef_ftype (encode f))) @ ef_mask (encode f) @ ef_pattern (encode f)
         @ (case ef_flow (encode f) of None \<Rightarrow> replicate (ef_idlen (encode f)) 0 | Some b \<Rightarrow> b))"
proof -
  have "ef_idlen (encode f) \<in> {1, 4, 5}" "\<not> (is_can pid \<and> ef_idlen (encode f) = 1)"
    using width_ok [of f] by (auto split: if_splits)
  then show ?thesis
    using mask_width [of f] pattern_width [of f] flow_width [of f]
    unfolding start_encoded_def start_filter_Ok_iff by (auto split: option.split)
qed

end

lemma length_to_wire [simp]: "length (to_wire i) = 4"
  by (cases i) simp_all

interpretation iso9141: protocol Iso9141 encode_kline kline_wire
  by unfold_locales (simp_all add: encode_kline_def)

interpretation iso14230: protocol Iso14230 encode_kline kline_wire
  by unfold_locales (simp_all add: encode_kline_def)

interpretation raw_can: protocol Can encode_can can_wire
  by unfold_locales (simp_all add: encode_can_def)

interpretation iso15765: protocol Iso15765 encode_flow can_wire
  by unfold_locales (auto simp: encode_flow_def Let_def split: option.split)

section \<open>Identifiers on the wire\<close>

lemma std_id_mask: "ucast (ucast (v AND 0x7ff) :: u16) AND 0x7ff = (v AND 0x7ff :: u32)"
proof -
  have m: "(0x7ff :: u32) = mask 11" by (simp add: mask_eq_exp_minus_1)
  show ?thesis unfolding m by (rule bit_word_eqI) (auto simp: bit_simps)
qed

lemma to_wire_from_wire:
  "to_wire (from_wire b ext) = u32_be (u32_from_be b AND (if ext then 0x1fffffff else 0x7ff))"
  by (cases ext) (simp_all add: from_wire_def Let_def and.assoc std_id_mask)

text \<open>A CAN identifier in range survives the wire; any four bytes read as an identifier are
  written back masked to the identifier's width.\<close>
theorem can_id_round_trip:
  "from_wire (to_wire i) (is_ext i) = (case i of Std v \<Rightarrow> Std (v AND 0x7ff) | Ext v \<Rightarrow> Ext (v AND 0x1fffffff))
   \<and> to_wire (from_wire b ext) = u32_be (u32_from_be b AND (if ext then 0x1fffffff else 0x7ff))"
proof (intro conjI to_wire_from_wire)
  have std: "ucast (ucast v AND 0x7ff AND (0x7ff :: u32)) = v AND (0x7ff :: u16)" for v
    by (rule bit_word_eqI) (auto simp: bit_simps)
  show "from_wire (to_wire i) (is_ext i) = (case i of Std v \<Rightarrow> Std (v AND 0x7ff) | Ext v \<Rightarrow> Ext (v AND 0x1fffffff))"
    using std by (cases i) (simp_all add: from_wire_def Let_def and.assoc)
qed

text \<open>The typed filters of all four protocols are accepted by the command encoder, whatever
  their masks and identifiers: no width or field-length error is reachable from a typed channel,
  and an exact filter's mask covers every identifier bit.\<close>
theorem typed_filters_accepted:
  "(\<exists>c. start_encoded Iso9141 fid (encode_kline k) = Ok c)
   \<and> (\<exists>c. start_encoded Iso14230 fid (encode_kline k) = Ok c)
   \<and> (\<exists>c. start_encoded Can fid (encode_can f) = Ok c)
   \<and> (\<exists>c. start_encoded Iso15765 fid (encode_flow g) = Ok c)
   \<and> start_encoded Can fid (encode_can (can_exact i)) =
       Ok (ilen 24 @ cmd_u8 StartMsgFilter # u32_le 5 @ u32_le fid @ u32_le 1
           @ [0xff, 0xff, 0xff, 0xff] @ to_wire i @ [0, 0, 0, 0])"
proof -
  have "u32_be 0xffffffff = [0xff, 0xff, 0xff, 0xff]"
    by (simp add: u32_be_def)
  with raw_can.start_encoded_Ok [of fid "can_exact i"]
  have "start_encoded Can fid (encode_can (can_exact i)) =
       Ok (ilen 24 @ cmd_u8 StartMsgFilter # u32_le 5 @ u32_le fid @ u32_le 1
           @ [0xff, 0xff, 0xff, 0xff] @ to_wire i @ [0, 0, 0, 0])"
    by (simp add: encode_can_def can_exact_def eval_nat_numeral)
  then show ?thesis
    using iso9141.start_encoded_Ok iso14230.start_encoded_Ok raw_can.start_encoded_Ok iso15765.start_encoded_Ok
    by blast
qed

end
