(* ===== verification/Channel.thy ===== *)
theory Channel
  imports Raw_Channel Protocols
begin

text \<open>
  \<open>rmvci-core/src/session/channel.rs\<close>: the typed channel. \<open>channel\<close> extends
  \<open>raw_channel\<close> by the installed filter's identifier and the next one; the protocol parameter
  \<open>P\<close> appears as the encoded filter its filter type gives.
\<close>

record channel = raw_channel +
  ch_current_filter :: "u32 option"
  ch_next_filter_id :: u32

definition channel_new :: "raw_channel \<Rightarrow> channel" where
  "channel_new r =
     \<lparr>rc_proto = rc_proto r, rc_nfilters = rc_nfilters r, ch_current_filter = None,
      ch_next_filter_id = 0x000e7a00\<rparr>"

text \<open>\<open>Device::connect\<close>: on a clone of the handle, connect the raw channel with the configuration's wire pair.\<close>

definition dev_connect :: "'s env \<Rightarrow> protocol_id \<Rightarrow> u32 \<times> u32 \<Rightarrow> (channel, error, 's device) op" where
  "dev_connect E pid cfg d =
     (case cfg of (flags, baud) \<Rightarrow>
       sbind (raw_connect E pid flags baud) (\<lambda>r. sreturn (channel_new r)) (dev_clone d))"

definition set_current :: "u32 option \<Rightarrow> (unit, error, 's device \<times> channel) op" where
  "set_current f s = (Ok (), (fst s, (snd s)\<lparr>ch_current_filter := f\<rparr>))"

text \<open>Retiring the previous filter: a failure is only logged.\<close>

definition retire_current :: "'s env \<Rightarrow> (unit, error, 's device \<times> channel) op" where
  "retire_current E s =
     (case ch_current_filter (snd s) of
        None \<Rightarrow> (Ok (), s)
      | Some old \<Rightarrow>
          (case raw_stop_filter E old (fst s, (snd s)\<lparr>ch_current_filter := None\<rparr>) of
             (Inl Panic, s1) \<Rightarrow> (panic, s1)
           | (_, s1) \<Rightarrow> (Ok (), s1)))"

definition take_filter_id :: "bool \<Rightarrow> (u32, error, 's device \<times> channel) op" where
  "take_filter_id dbg s =
     (let i = ch_next_filter_id (snd s) in
      case u32_add dbg i 1 of
        Inl e \<Rightarrow> (Inl e, s)
      | Inr n \<Rightarrow> (Ok i, (fst s, (snd s)\<lparr>ch_next_filter_id := n\<rparr>)))"

definition set_filter :: "'s env \<Rightarrow> encoded_filter \<Rightarrow> (unit, error, 's device \<times> channel) op" where
  "set_filter E enc =
     sbind (retire_current E) (\<lambda>_.
     sbind (take_filter_id (ev_dbg E)) (\<lambda>i.
     sbind (raw_start_filter E i (filter_type_u32 (ef_ftype enc)) (ef_mask enc) (ef_pattern enc)
              (ef_flow enc) (ef_idlen enc)) (\<lambda>_.
       set_current (Some i))))"

definition clear_filter :: "'s env \<Rightarrow> (unit, error, 's device \<times> channel) op" where
  "clear_filter E s =
     (case ch_current_filter (snd s) of
        None \<Rightarrow> (Ok (), s)
      | Some old \<Rightarrow> raw_stop_filter E old (fst s, (snd s)\<lparr>ch_current_filter := None\<rparr>))"

definition chan_poll :: "'s env \<Rightarrow> duration \<Rightarrow> (rx_msg option, error, 's device \<times> channel) op" where
  "chan_poll E timeout = raw_poll E timeout"

definition chan_read :: "'s env \<Rightarrow> nat \<Rightarrow> duration \<Rightarrow> 's device \<times> channel
    \<Rightarrow> ((rx_msg, error) res \<times> ('s device \<times> channel)) option" where
  "chan_read E fuel timeout = raw_read E fuel timeout"

definition chan_set_config :: "'s env \<Rightarrow> u32 \<Rightarrow> u32 \<Rightarrow> (unit, error, 's device \<times> channel) op" where
  "chan_set_config E param v = raw_set_config E param v"

definition chan_disconnect :: "'s env \<Rightarrow> 's device \<Rightarrow> channel \<Rightarrow> 's device" where
  "chan_disconnect E d c = raw_drop E d c"

section \<open>K-line and CAN channels\<close>

definition kline_write :: "'s env \<Rightarrow> bytes \<Rightarrow> (unit, error, 's device \<times> channel) op" where
  "kline_write E msg = raw_write E 0 msg"

definition kline_fast_init :: "'s env \<Rightarrow> bytes \<Rightarrow> (bytes, error, 's device \<times> channel) op" where
  "kline_fast_init E init = raw_fast_init E init"

definition kline_five_baud_init :: "'s env \<Rightarrow> bytes \<Rightarrow> (bytes, error, 's device \<times> channel) op" where
  "kline_five_baud_init E init = raw_five_baud_init E init"

definition kline_clear_periodic :: "'s env \<Rightarrow> (unit, error, 's device \<times> channel) op" where
  "kline_clear_periodic E = raw_clear_periodic E"

definition send_flags :: "'s env \<Rightarrow> can_id \<Rightarrow> bytes \<Rightarrow> u32 \<Rightarrow> (unit, error, 's device \<times> channel) op" where
  "send_flags E i payload flags =
     (let flags = (if is_ext i then flags OR CAN_29BIT_ID else flags) in
      raw_write E flags (to_wire i @ payload))"

definition can_send :: "'s env \<Rightarrow> can_id \<Rightarrow> bytes \<Rightarrow> (unit, error, 's device \<times> channel) op" where
  "can_send E i payload = send_flags E i payload 0"

section \<open>Filter bookkeeping\<close>

text \<open>The channel's fields are only changed by its own operations, not by what the session does.\<close>

lemma on_dev_chan: "on_dev m s = (r, s') \<Longrightarrow> snd s' = snd s"
  by (metis rc_on_dev snd_conv)

lemma raw_status_chan: "keeps snd (raw_status E i c t)"
  unfolding raw_status_def
  by (intro keeps_sbind keeps_pure) (auto simp: keeps_def)

lemma raw_status_not_panic: "fst (raw_status E i c t s) \<noteq> panic"
proof -
  obtain r d where t: "dev_transact E i t (fst s) = (r, d)" by fastforce
  then have "r \<noteq> panic" using dev_calls_not_panic(1) [of E i t "fst s"] by simp
  with t show ?thesis
    by (cases r) (auto simp: raw_status_def on_dev_def codec_def sbind_def parsers_not_panic
        split: sum.split)
qed

text \<open>What is known of a channel: while a filter is recorded as installed, the count that decides
  how silence is reported is not zero, and its identifier has been used before.\<close>

definition chan_inv :: "channel \<Rightarrow> bool" where
  "chan_inv c \<longleftrightarrow>
     (case ch_current_filter c of None \<Rightarrow> True | Some i \<Rightarrow> 0 < rc_nfilters c \<and> i + 1 = ch_next_filter_id c)"

lemma chan_inv_new: "chan_inv (channel_new r)"
  by (simp add: chan_inv_def channel_new_def)

lemma raw_stop_filter_chan:
  assumes "raw_stop_filter E i s = (r, s')"
  shows "r \<noteq> panic" and "snd s' = (snd s)\<lparr>rc_nfilters := rc_nfilters (snd s) - (case r of Inr _ \<Rightarrow> 1 | Inl _ \<Rightarrow> 0)\<rparr>"
proof -
  obtain q s1 where q: "raw_status E (stop_filter (rc_proto (snd s)) i) StopMsgFilter (from_millis 2000) s = (q, s1)"
    by (metis surj_pair)
  have "snd s1 = snd s" by (rule keepsD [OF raw_status_chan q])
  moreover have "q \<noteq> panic"
    using raw_status_not_panic [of E "stop_filter (rc_proto (snd s)) i" StopMsgFilter "from_millis 2000" s] q
    by simp
  ultimately show "r \<noteq> panic"
    and "snd s' = (snd s)\<lparr>rc_nfilters := rc_nfilters (snd s) - (case r of Inr _ \<Rightarrow> 1 | Inl _ \<Rightarrow> 0)\<rparr>"
    using assms q by (cases q; auto simp: raw_stop_filter_def bump_filters_def)+
qed

lemma retire_current_chan:
  assumes "retire_current E s = (r, s')"
  shows "r = Ok ()" and "ch_current_filter (snd s') = None"
    and "ch_next_filter_id (snd s') = ch_next_filter_id (snd s)" and "rc_proto (snd s') = rc_proto (snd s)"
proof -
  have "r = Ok () \<and> ch_current_filter (snd s') = None \<and>
      ch_next_filter_id (snd s') = ch_next_filter_id (snd s) \<and> rc_proto (snd s') = rc_proto (snd s)"
  proof (cases "ch_current_filter (snd s)")
    case None
    with assms show ?thesis by (auto simp: retire_current_def)
  next
    case (Some old)
    obtain q s1 where q: "raw_stop_filter E old (fst s, (snd s)\<lparr>ch_current_filter := None\<rparr>) = (q, s1)"
      by (metis surj_pair)
    from raw_stop_filter_chan [OF q] assms Some q show ?thesis
      by (cases q) (auto simp: retire_current_def split: fault.splits)
  qed
  then show "r = Ok ()" and "ch_current_filter (snd s') = None"
    and "ch_next_filter_id (snd s') = ch_next_filter_id (snd s)" and "rc_proto (snd s') = rc_proto (snd s)"
    by auto
qed

lemma raw_start_filter_chan:
  assumes "raw_start_filter E i ft m p fl n s = (r, s')"
  shows "snd s' = (snd s)\<lparr>rc_nfilters := rc_nfilters (snd s) + (case r of Inr _ \<Rightarrow> 1 | Inl _ \<Rightarrow> 0)\<rparr>"
proof (cases "codec (start_filter (rc_proto (snd s)) i ft m p fl n)")
  case (Inl e)
  with assms show ?thesis by (auto simp: raw_start_filter_def)
next
  case (Inr c)
  obtain q s1 where q: "raw_status E c StartMsgFilter (from_millis 2000) s = (q, s1)"
    by (metis surj_pair)
  have "snd s1 = snd s" by (rule keepsD [OF raw_status_chan q])
  with assms Inr q show ?thesis
    by (cases q) (auto simp: raw_start_filter_def bump_filters_def)
qed

text \<open>C32: Setting a filter, whatever the adapter answers: on success exactly the new filter is
  recorded, under an identifier not used before on this channel; on any failure none is, so a
  filter the adapter may have lost is never reported as installed, and the count that turns silence
  into \<open>NoFilterInstalled\<close> is positive whenever a filter is recorded.\<close>
theorem set_filter_replaces:
  assumes "set_filter E enc s = (r, s')"
  shows "ch_current_filter (snd s') = (case r of Inr _ \<Rightarrow> Some (ch_next_filter_id (snd s)) | Inl _ \<Rightarrow> None)
    \<and> (\<forall>u. r = Inr u \<longrightarrow> ch_next_filter_id (snd s') = ch_next_filter_id (snd s) + 1)
    \<and> chan_inv (snd s')"
proof -
  obtain q1 s1 where 1: "retire_current E s = (q1, s1)" by (metis surj_pair)
  note c1 = retire_current_chan [OF 1]
  let ?i = "ch_next_filter_id (snd s1)"
  show ?thesis
  proof (cases "u32_add (ev_dbg E) ?i 1 :: (u32, error) res")
    case (Inl e)
    with 1 c1 assms show ?thesis
      by (auto simp: set_filter_def take_filter_id_def Let_def chan_inv_def)
  next
    case (Inr n)
    then have n: "n = ?i + 1" by (auto simp: u32_add_def split: if_splits)
    define s2 where "s2 = (fst s1, (snd s1)\<lparr>ch_next_filter_id := n\<rparr>)"
    obtain q3 s3 where 3: "raw_start_filter E ?i (filter_type_u32 (ef_ftype enc)) (ef_mask enc)
        (ef_pattern enc) (ef_flow enc) (ef_idlen enc) s2 = (q3, s3)" by (metis surj_pair)
    note c3 = raw_start_filter_chan [OF 3]
    have "take_filter_id (ev_dbg E) s1 = (Ok ?i, s2)"
      using Inr by (simp add: take_filter_id_def Let_def s2_def)
    with 1 c1(1) 3 assms have fin: "(case q3 of Inl e \<Rightarrow> (Inl e, s3) | Inr _ \<Rightarrow> set_current (Some ?i) s3) = (r, s')"
      by (cases q3) (auto simp: set_filter_def)
    show ?thesis
      using fin c1(2,3) c3 n
      by (cases q3) (auto simp: set_current_def s2_def chan_inv_def)
  qed
qed

text \<open>The witness needs an outcome only: any world and filter will do.\<close>

lemma set_filter_replaces_witness:
  "\<exists>r s'. set_filter (mock_env True xor_cipher xor_cipher) (encode_can (can_exact (Std 0x7e8)))
     (\<lparr>dv_actor = actor_new mock_transport None [1] (mock_new []), dv_alive = True, dv_handles = 1,
       dv_closed = False\<rparr>, channel_new \<lparr>rc_proto = Can, rc_nfilters = 0\<rparr>) = (r, s') \<and> chan_inv (snd s')"
  using set_filter_replaces [of "mock_env True xor_cipher xor_cipher" "encode_can (can_exact (Std 0x7e8))"]
  by (metis surj_pair)

text \<open>When retiring the previous filter fails and the new one is installed, the adapter still
  has one live filter but the channel counts one more: after a later successful \<open>clear_filter\<close> the
  count is not zero, so silence is reported as a timeout although no filter is installed.\<close>
theorem failed_retire_overcounts:
  assumes "ch_current_filter (snd s) = Some old"
    and "raw_stop_filter E old (fst s, (snd s)\<lparr>ch_current_filter := None\<rparr>) = (Err e, s1)"
    and "set_filter E enc s = (Ok u, s2)" and "clear_filter E s2 = (Ok v, s3)"
  shows "ch_current_filter (snd s3) = None \<and> rc_nfilters (snd s3) = rc_nfilters (snd s)"
proof -
  have r: "retire_current E s = (Ok (), s1)"
    using assms(1,2) by (simp add: retire_current_def)
  have n1: "rc_nfilters (snd s1) = rc_nfilters (snd s)"
    using raw_stop_filter_chan(2) [OF assms(2)] by simp
  obtain i s1' where t: "take_filter_id (ev_dbg E) s1 = (Ok i, s1')"
    and n1': "rc_nfilters (snd s1') = rc_nfilters (snd s)"
    using assms(3) r n1
    by (cases "u32_add (ev_dbg E) (ch_next_filter_id (snd s1)) 1 :: (u32, error) res")
      (auto simp: set_filter_def take_filter_id_def Let_def)
  obtain q s2' where st: "raw_start_filter E i (filter_type_u32 (ef_ftype enc)) (ef_mask enc)
        (ef_pattern enc) (ef_flow enc) (ef_idlen enc) s1' = (q, s2')" by (metis surj_pair)
  with assms(3) r t have q: "q = Ok ()" and s2: "s2 = (fst s2', (snd s2')\<lparr>ch_current_filter := Some i\<rparr>)"
    by (cases q; simp add: set_filter_def set_current_def)+
  have "rc_nfilters (snd s2) = rc_nfilters (snd s) + 1"
    using raw_start_filter_chan [OF st] n1' by (simp add: s2 q)
  moreover have "raw_stop_filter E i (fst s2, (snd s2)\<lparr>ch_current_filter := None\<rparr>) = (Ok v, s3)"
    using assms(4) by (simp add: clear_filter_def s2)
  ultimately show ?thesis
    using raw_stop_filter_chan(2) by fastforce
qed

text \<open>A status exchange of a channel with the scripted adapter.\<close>

lemma mock_raw_status:
  assumes "block_cipher e c" and "dv_alive D" and "\<not> ac_wedged (dv_actor D)"
    and "encode_encrypted d e (ac_key (dv_actor D)) i = Ok f" and "accepts (ac_io (dv_actor D)) f"
    and "encode_encrypted d e (ac_key (dv_actor D)) (status_reply cm st) = Ok (next_reply (ac_io (dv_actor D)))"
  shows "raw_status (mock_env d e c) i cm t (D, r) =
    (if st = 0 then Ok () else Err (Rejected cm (device_status_from st)),
     (D\<lparr>dv_actor := (dv_actor D)\<lparr>ac_io := mock_served f (ac_io (dv_actor D)),
        ac_last_wire := mk_now (ac_io (dv_actor D)) + 1, ac_silent := 0\<rparr>\<rparr>, r))"
proof -
  let ?a = "dv_actor D" and ?r = "status_reply cm st" and ?g = "next_reply (ac_io (dv_actor D))"
  have "length ?r \<le> MAX_INNER" "?r \<noteq> []" by (simp_all add: status_reply_def MAX_INNER_def)
  then have "well_framed ?g" "decode_encrypted d c (ac_key ?a) ?g = Ok (padded ?r)"
    using encode_encrypted_well_framed [OF assms(1), of ?r d "ac_key ?a"]
      encrypted_decodes [OF assms(1) _ assms(6)] assms(6) by auto
  with mock_exchange [OF assms(4,5), of c t] assms(2,3) show ?thesis
    by (simp add: raw_status_def on_dev_def dev_transact_def dev_request_def handle_def transact_def
        status_of_padded_reply status_is_ok_from)
qed

lemma failed_retire_overcounts_witness:
  "\<exists>s s1 s2 s3. ch_current_filter (snd s) = Some 7 \<and> rc_nfilters (snd s) = 1 \<and>
     raw_stop_filter (mock_env True xor_cipher xor_cipher) 7 (fst s, (snd s)\<lparr>ch_current_filter := None\<rparr>)
       = (Err (Rejected StopMsgFilter InvalidFilterId), s1) \<and>
     set_filter (mock_env True xor_cipher xor_cipher) (encode_can (can_exact (Std 0x7e8))) s = (Ok (), s2) \<and>
     clear_filter (mock_env True xor_cipher xor_cipher) s2 = (Ok (), s3) \<and>
     ch_current_filter (snd s3) = None \<and> rc_nfilters (snd s3) = 1"
proof -
  let ?E = "mock_env True xor_cipher xor_cipher" and ?k = "[1] :: bytes"
  have small: "\<exists>g. encode_encrypted True xor_cipher ?k i = Ok g" if "length i \<le> 60" for i
  proof (rule encode_encrypted_total)
    from pad8_mono [OF that] show "pad8 (length i) \<le> 65532" by (simp add: pad8_def)
  qed
  obtain g0 g1 g2 where g: "encode_encrypted True xor_cipher ?k (status_reply StopMsgFilter 0x16) = Ok g0"
    "encode_encrypted True xor_cipher ?k (status_reply StartMsgFilter 0) = Ok g1"
    "encode_encrypted True xor_cipher ?k (status_reply StopMsgFilter 0) = Ok g2"
    using small [of "status_reply StopMsgFilter 0x16"] small [of "status_reply StartMsgFilter 0"]
      small [of "status_reply StopMsgFilter 0"] by (auto simp: status_reply_def)
  obtain c where c: "start_encoded Can 8 (encode_can (can_exact (Std 0x7e8))) = Ok c"
    using raw_can.start_encoded_Ok by blast
  then have "length c \<le> 60"
    using raw_can.start_encoded_Ok [of 8 "can_exact (Std 0x7e8)"]
    by (simp add: encode_can_def can_exact_def)
  then obtain f0 f1 f2 where f: "encode_encrypted True xor_cipher ?k (stop_filter Can 7) = Ok f0"
    "encode_encrypted True xor_cipher ?k c = Ok f1"
    "encode_encrypted True xor_cipher ?k (stop_filter Can 8) = Ok f2"
    using small [of c] small [of "stop_filter Can 7"] small [of "stop_filter Can 8"]
    by (auto simp: stop_filter_def)
  define m where "m = mock_new [step_reply_any g0, step_reply_any g1, step_reply_any g2]"
  define a where "a = actor_new mock_transport None ?k m"
  define D where "D = \<lparr>dv_actor = a, dv_alive = True, dv_handles = 1, dv_closed = False\<rparr>"
  define r where "r = \<lparr>rc_proto = Can, rc_nfilters = 1, ch_current_filter = Some 7, ch_next_filter_id = 8\<rparr>"
  define r0 where "r0 = r\<lparr>ch_current_filter := None\<rparr>"
  define a1 where "a1 = a\<lparr>ac_io := mock_served f0 (ac_io a), ac_last_wire := mk_now (ac_io a) + 1, ac_silent := 0\<rparr>"
  define a2 where "a2 = a1\<lparr>ac_io := mock_served f1 (ac_io a1), ac_last_wire := mk_now (ac_io a1) + 1, ac_silent := 0\<rparr>"
  define a3 where "a3 = a2\<lparr>ac_io := mock_served f2 (ac_io a2), ac_last_wire := mk_now (ac_io a2) + 1, ac_silent := 0\<rparr>"
  note defs = a_def m_def actor_new_def mock_new_def a1_def a2_def a3_def mock_served_def
  have io: "mk_steps (ac_io a) = [step_reply_any g0, step_reply_any g1, step_reply_any g2]"
    "mk_steps (ac_io a1) = [step_reply_any g1, step_reply_any g2]"
    "mk_steps (ac_io a2) = [step_reply_any g2]"
    "ac_key a = ?k" "ac_key a1 = ?k" "ac_key a2 = ?k" "\<not> ac_wedged a" "\<not> ac_wedged a1" "\<not> ac_wedged a2"
    by (simp_all add: defs)
  have acc: "accepts (ac_io a) f" "accepts (ac_io a1) f" "accepts (ac_io a2) f"
    "next_reply (ac_io a) = g0" "next_reply (ac_io a1) = g1" "next_reply (ac_io a2) = g2" for f
    by (simp_all add: accepts_def next_reply_def io step_reply_any_def)
  have s0: "raw_status ?E (stop_filter Can 7) StopMsgFilter (from_millis 2000) (D, z) =
      (Err (Rejected StopMsgFilter InvalidFilterId), (D\<lparr>dv_actor := a1\<rparr>, z))" for z :: channel
    using mock_raw_status [OF xor_cipher_block, where D = "D" and d = True and i = "stop_filter Can 7" and f = f0 and cm = StopMsgFilter and st = "0x16" and t = "from_millis 2000" and r = z]
    by (simp add: D_def io acc f g a1_def device_status_from_def)
  have s1: "raw_status ?E c StartMsgFilter (from_millis 2000) (D\<lparr>dv_actor := a1\<rparr>, z) =
      (Ok (), (D\<lparr>dv_actor := a2\<rparr>, z))" for z :: channel
    using mock_raw_status [OF xor_cipher_block, where D = "D\<lparr>dv_actor := a1\<rparr>" and d = True and i = "c" and f = f1 and cm = StartMsgFilter and st = "0" and t = "from_millis 2000" and r = z]
    by (simp add: D_def io acc f g a2_def)
  have s2: "raw_status ?E (stop_filter Can 8) StopMsgFilter (from_millis 2000) (D\<lparr>dv_actor := a2\<rparr>, z) =
      (Ok (), (D\<lparr>dv_actor := a3\<rparr>, z))" for z :: channel
    using mock_raw_status [OF xor_cipher_block, where D = "D\<lparr>dv_actor := a2\<rparr>" and d = True and i = "stop_filter Can 8" and f = f2 and cm = StopMsgFilter and st = "0" and t = "from_millis 2000" and r = z]
    by (simp add: D_def io acc f g a3_def)
  note s0' = s0 [simplified] and s1' = s1 [simplified] and s2' = s2 [simplified]
  define x0 x1 x2 x3 where "x0 = (D, r)" and "x1 = (D\<lparr>dv_actor := a1\<rparr>, r0)"
    and "x2 = (D\<lparr>dv_actor := a2\<rparr>, r0\<lparr>rc_nfilters := 2, ch_current_filter := Some 8, ch_next_filter_id := 9\<rparr>)"
    and "x3 = (D\<lparr>dv_actor := a3\<rparr>, r0\<lparr>rc_nfilters := 1, ch_next_filter_id := 9\<rparr>)"
  note xs = x0_def x1_def x2_def x3_def r_def r0_def
  have 1: "raw_stop_filter ?E 7 (fst x0, (snd x0)\<lparr>ch_current_filter := None\<rparr>)
      = (Err (Rejected StopMsgFilter InvalidFilterId), x1)"
    by (simp add: raw_stop_filter_def xs s0')
  let ?e = "encode_can (can_exact (Std 0x7e8))"
  have cur: "ch_current_filter (snd x0) = Some 7" "rc_nfilters (snd x0) = 1" by (simp_all add: xs)
  have "retire_current ?E x0 = (Ok (), x1)"
    unfolding retire_current_def cur using 1 by simp
  then have 2: "set_filter ?E ?e x0 = (Ok (), x2)"
    using c unfolding set_filter_def start_encoded_def
    by (simp add: xs take_filter_id_def Let_def u32_add_def raw_start_filter_def s1' bump_filters_def set_current_def)
  have 3: "clear_filter ?E x2 = (Ok (), x3)"
    by (simp add: clear_filter_def raw_stop_filter_def xs s2' bump_filters_def)
  from failed_retire_overcounts [OF cur(1) 1 2 3] 1 2 3 cur show ?thesis
    by (intro exI [of _ x0] exI [of _ x1] exI [of _ x2] exI [of _ x3] conjI) simp_all
qed

end
