(* ===== verification/IsoTp_Machine.thy ===== *)
theory IsoTp_Machine
  imports Wire_Types
begin

text \<open>
  The sans-IO ISO 15765-2 transmit and receive state machines,
  \<open>rmvci-core/src/isotp/machine.rs\<close>: frames and clock readings go in, frames and events
  come out. \<open>TxMachine\<close> and \<open>RxMachine\<close> are the records \<open>tx_machine\<close> and \<open>rx_machine\<close>,
  their methods the functions \<open>tx_next\<close>, \<open>tx_on_frame\<close>, \<open>rx_on_frame\<close> and
  \<open>rx_check_timeout\<close>. The two \<open>u8\<close> frame counters and the WAIT counter are words with the
  build profile's overflow rule, every index, slice and subtraction is checked.
\<close>

section \<open>Shared pieces\<close>

definition MAX_PAYLOAD :: nat where "MAX_PAYLOAD = 4095"

definition decode_stmin :: "u8 \<Rightarrow> duration" where
  "decode_stmin b =
     (if b \<le> 0x7f then from_millis (unat b)
      else if 0xf1 \<le> b \<and> b \<le> 0xf9 then from_millis 1
      else from_millis 0x7f)"

definition pad_frame :: "bytes \<Rightarrow> u8 option \<Rightarrow> bytes" where
  "pad_frame frame padding = (case padding of None \<Rightarrow> frame | Some p \<Rightarrow> vec_resize 8 p frame)"

definition start_frame :: "u8 option \<Rightarrow> bytes" where
  "start_frame addr = (case addr of None \<Rightarrow> [] | Some a \<Rightarrow> [a])"

section \<open>Transmit machine\<close>

datatype tx_action = Send bytes | WaitFc instant | WaitUntil instant | TxDone

datatype tx_state = SingleFrame | FirstFrame | AwaitFc instant | Consecutive instant | Finished

record tx_machine =
  tx_payload :: bytes
  tx_offset :: nat
  tx_sn :: u8
  tx_bs :: u8
  tx_cfs_since_fc :: u8
  tx_stmin :: duration
  tx_wait_count :: u8
  tx_wft_max :: u8
  tx_n_bs :: duration
  tx_padding :: "u8 option"
  tx_addr :: "u8 option"
  tx_state :: tx_state

definition tx_with_addr ::
  "bytes \<Rightarrow> u8 option \<Rightarrow> duration \<Rightarrow> u8 \<Rightarrow> u8 option \<Rightarrow> (tx_machine, isotp_error) res" where
  "tx_with_addr payload padding n_bs wft_max addr =
     (if payload = [] then Err (Malformed ''empty payload'')
      else if length payload > MAX_PAYLOAD then Err (PayloadTooLong (length payload))
      else let sf_max = 7 - is_some_n addr in
        Ok \<lparr>tx_payload = payload, tx_offset = 0, tx_sn = 0, tx_bs = 0, tx_cfs_since_fc = 0,
            tx_stmin = 0, tx_wait_count = 0, tx_wft_max = wft_max, tx_n_bs = n_bs,
            tx_padding = padding, tx_addr = addr,
            tx_state = (if length payload \<le> sf_max then SingleFrame else FirstFrame)\<rparr>)"

definition tx_new :: "bytes \<Rightarrow> u8 option \<Rightarrow> duration \<Rightarrow> u8 \<Rightarrow> (tx_machine, isotp_error) res" where
  "tx_new payload padding n_bs wft_max = tx_with_addr payload padding n_bs wft_max None"

definition tx_next :: "bool \<Rightarrow> instant \<Rightarrow> (tx_action, isotp_error, tx_machine) op" where
  "tx_next dbg now m =
     (case tx_state m of
        SingleFrame \<Rightarrow>
          let f = start_frame (tx_addr m) @ [of_nat (length (tx_payload m))] @ tx_payload m in
          (Ok (Send (pad_frame f (tx_padding m))), m\<lparr>tx_state := Finished\<rparr>)
      | FirstFrame \<Rightarrow>
          let len = length (tx_payload m); first = 6 - is_some_n (tx_addr m) in
          (case slice (tx_payload m) 0 first of
             Inl e \<Rightarrow> (Inl e, m)
           | Inr d \<Rightarrow>
               let f = start_frame (tx_addr m) @ [0x10 OR of_nat (drop_bit 8 len)] @ [of_nat len] @ d in
               (Ok (Send f),
                m\<lparr>tx_offset := first, tx_sn := 1, tx_state := AwaitFc (now + tx_n_bs m)\<rparr>))
      | AwaitFc deadline \<Rightarrow>
          if now \<ge> deadline then (Err FcTimeout, m) else (Ok (WaitFc deadline), m)
      | Consecutive earliest \<Rightarrow>
          if now < earliest then (Ok (WaitUntil earliest), m)
          else
            let cf_max = 7 - is_some_n (tx_addr m); len = length (tx_payload m); off = tx_offset m in
            (case usize_sub dbg len off of
               Inl e \<Rightarrow> (Inl e, m)
             | Inr rem \<Rightarrow>
                 let chunk = min rem cf_max in
                 (case slice (tx_payload m) off (off + chunk) of
                    Inl e \<Rightarrow> (Inl e, m)
                  | Inr d \<Rightarrow>
                      let f = start_frame (tx_addr m) @ [0x20 OR tx_sn m] @ d in
                      (case u8_add dbg (tx_sn m) 1 of
                         Inl e \<Rightarrow> (Inl e, m)
                       | Inr sn1 \<Rightarrow>
                           let m1 = m\<lparr>tx_offset := off + chunk, tx_sn := sn1 AND 0x0f\<rparr> in
                           if off + chunk \<ge> len
                           then (Ok (Send (pad_frame f (tx_padding m))), m1\<lparr>tx_state := Finished\<rparr>)
                           else
                             (case u8_add dbg (tx_cfs_since_fc m) 1 of
                                Inl e \<Rightarrow> (Inl e, m1)
                              | Inr cfs \<Rightarrow>
                                  (Ok (Send (pad_frame f (tx_padding m))),
                                   m1\<lparr>tx_cfs_since_fc := cfs,
                                      tx_state := (if tx_bs m \<noteq> 0 \<and> cfs \<ge> tx_bs m
                                                   then AwaitFc (now + tx_n_bs m)
                                                   else Consecutive (now + tx_stmin m))\<rparr>)))))
      | Finished \<Rightarrow> (Ok TxDone, m))"

definition tx_on_frame :: "bool \<Rightarrow> bytes \<Rightarrow> instant \<Rightarrow> (unit, isotp_error, tx_machine) op" where
  "tx_on_frame dbg data now m =
     (case tx_state m of
        AwaitFc _ \<Rightarrow>
          let h = is_some_n (tx_addr m) in
          if (case tx_addr m of Some a \<Rightarrow> (case data of [] \<Rightarrow> True | x # _ \<Rightarrow> x \<noteq> a) | None \<Rightarrow> False)
          then (Ok (), m)
          else if length data < h + 1 then (Ok (), m)
          else (case idx data h of
            Inl e \<Rightarrow> (Inl e, m)
          | Inr pci \<Rightarrow>
              if drop_bit 4 pci \<noteq> 0x3 then (Ok (), m)
              else if length data < h + 3
              then (Err (Malformed ''flow control shorter than 3 bytes''), m)
              else (case slice data h (length data) of
                Inl e \<Rightarrow> (Inl e, m)
              | Inr d \<Rightarrow>
                (case rbind (idx d 0) (\<lambda>d0. rbind (idx d 1) (\<lambda>d1. rbind (idx d 2) (\<lambda>d2. Ok (d0, d1, d2)))) of
                  Inl e \<Rightarrow> (Inl e, m)
                | Inr (d0, d1, d2) \<Rightarrow>
                    if d0 AND 0x0f = 0 then
                      (Ok (), m\<lparr>tx_bs := d1, tx_stmin := decode_stmin d2, tx_cfs_since_fc := 0,
                              tx_wait_count := 0, tx_state := Consecutive now\<rparr>)
                    else if d0 AND 0x0f = 1 then
                      (case u8_add dbg (tx_wait_count m) 1 of
                         Inl e \<Rightarrow> (Inl e, m)
                       | Inr w \<Rightarrow>
                           let m1 = m\<lparr>tx_wait_count := w\<rparr> in
                           if w > tx_wft_max m then (Err (WaitLimit (tx_wft_max m)), m1)
                           else (Ok (), m1\<lparr>tx_state := AwaitFc (now + tx_n_bs m)\<rparr>))
                    else if d0 AND 0x0f = 2 then (Err Overflow, m)
                    else (Err (Malformed ''reserved flow status''), m))))
      | _ \<Rightarrow> (Ok (), m))"

section \<open>Receive machine\<close>

datatype rx_event = SendFc bytes | RxDone bytes | Continue

text \<open>\<open>Receiving expected_sn cfs_since_fc deadline\<close>.\<close>

datatype rx_state = Idle | Receiving u8 u8 instant

record rx_machine =
  rx_buf :: bytes
  rx_ff_dl :: nat
  rx_bs :: u8
  rx_stmin :: u8
  rx_padding :: "u8 option"
  rx_n_cr :: duration
  rx_addr :: "u8 option"
  rx_state :: rx_state

definition rx_with_addr :: "u8 \<Rightarrow> u8 \<Rightarrow> u8 option \<Rightarrow> duration \<Rightarrow> u8 option \<Rightarrow> rx_machine" where
  "rx_with_addr bs stmin padding n_cr addr =
     \<lparr>rx_buf = [], rx_ff_dl = 0, rx_bs = bs, rx_stmin = stmin, rx_padding = padding,
      rx_n_cr = n_cr, rx_addr = addr, rx_state = Idle\<rparr>"

definition rx_new :: "u8 \<Rightarrow> u8 \<Rightarrow> u8 option \<Rightarrow> duration \<Rightarrow> rx_machine" where
  "rx_new bs stmin padding n_cr = rx_with_addr bs stmin padding n_cr None"

definition rx_fc :: "rx_machine \<Rightarrow> bytes" where
  "rx_fc m = pad_frame (start_frame (rx_addr m) @ [0x30, rx_bs m, rx_stmin m]) (rx_padding m)"

definition rx_check_timeout :: "rx_machine \<Rightarrow> instant \<Rightarrow> (unit, isotp_error) res" where
  "rx_check_timeout m now =
     (case rx_state m of
        Receiving _ _ deadline \<Rightarrow> if now > deadline then Err CfTimeout else Ok ()
      | Idle \<Rightarrow> Ok ())"

text \<open>The four frame types, on the frame with the address byte stripped.\<close>

definition rx_single :: "bytes \<Rightarrow> (rx_event, isotp_error, rx_machine) op" where
  "rx_single d m =
     (case idx d 0 of
        Inl e \<Rightarrow> (Inl e, m)
      | Inr d0 \<Rightarrow>
          let len = unat (d0 AND 0x0f) in
          if len = 0 \<or> 1 + len > length d then (Err (Malformed ''bad single-frame length''), m)
          else (case slice d 1 (1 + len) of
            Inl e \<Rightarrow> (Inl e, m)
          | Inr p \<Rightarrow> (Ok (RxDone p), m\<lparr>rx_state := Idle\<rparr>)))"

definition rx_first :: "nat \<Rightarrow> bytes \<Rightarrow> instant \<Rightarrow> (rx_event, isotp_error, rx_machine) op" where
  "rx_first h d now m =
     (if length d < 8 - h then (Err (Malformed ''short first frame''), m)
      else case rbind (idx d 0) (\<lambda>d0. rbind (idx d 1) (\<lambda>d1. rbind (slice d 2 (8 - h)) (\<lambda>p. Ok (d0, d1, p)))) of
        Inl e \<Rightarrow> (Inl e, m)
      | Inr (d0, d1, p) \<Rightarrow>
          let ff_dl = push_bit 8 (unat (d0 AND 0x0f)) OR unat d1 in
          if ff_dl \<le> 7 - h then (Err (Malformed ''FF_DL fits in a single frame''), m)
          else let m1 = m\<lparr>rx_ff_dl := ff_dl, rx_buf := p, rx_state := Receiving 1 0 (now + rx_n_cr m)\<rparr>
               in (Ok (SendFc (rx_fc m1)), m1))"

definition rx_consecutive :: "bool \<Rightarrow> nat \<Rightarrow> bytes \<Rightarrow> instant \<Rightarrow> (rx_event, isotp_error, rx_machine) op" where
  "rx_consecutive dbg h d now m =
     (case rx_state m of
        Idle \<Rightarrow> (Err (Malformed ''consecutive frame without first frame''), m)
      | Receiving expected_sn cfs_since_fc _ \<Rightarrow>
        (case idx d 0 of
          Inl e \<Rightarrow> (Inl e, m)
        | Inr d0 \<Rightarrow>
          let sn = d0 AND 0x0f in
          if sn \<noteq> expected_sn then (Err (SequenceError expected_sn sn), m\<lparr>rx_state := Idle\<rparr>)
          else
          (case rbind (usize_sub dbg (rx_ff_dl m) (length (rx_buf m))) (\<lambda>need.
                rbind (usize_sub dbg (length d) 1) (\<lambda>avail.
                slice d 1 (1 + min need (min (7 - h) avail)))) of
             Inl e \<Rightarrow> (Inl e, m)
           | Inr p \<Rightarrow>
               let buf = rx_buf m @ p in
               if length buf \<ge> rx_ff_dl m
               then (Ok (RxDone (take (rx_ff_dl m) buf)), m\<lparr>rx_state := Idle, rx_buf := []\<rparr>)
               else
                 (case u8_add dbg cfs_since_fc 1 of
                    Inl e \<Rightarrow> (Inl e, m\<lparr>rx_buf := buf\<rparr>)
                  | Inr cfs \<Rightarrow>
                      if rx_bs m \<noteq> 0 \<and> cfs \<ge> rx_bs m
                      then let m1 = m\<lparr>rx_buf := buf,
                                     rx_state := Receiving ((sn + 1) AND 0x0f) 0 (now + rx_n_cr m)\<rparr>
                           in (Ok (SendFc (rx_fc m1)), m1)
                      else (Ok Continue,
                            m\<lparr>rx_buf := buf,
                              rx_state := Receiving ((sn + 1) AND 0x0f) cfs (now + rx_n_cr m)\<rparr>)))))"

definition rx_on_frame :: "bool \<Rightarrow> bytes \<Rightarrow> instant \<Rightarrow> (rx_event, isotp_error, rx_machine) op" where
  "rx_on_frame dbg data now m =
     (if data = [] then (Err (Malformed ''empty frame''), m)
      else
        let h = is_some_n (rx_addr m) in
        (case idx data 0 of
           Inl e \<Rightarrow> (Inl e, m)
         | Inr a0 \<Rightarrow>
             if (case rx_addr m of Some a \<Rightarrow> a0 \<noteq> a | None \<Rightarrow> False)
             then (Err (Malformed ''extended-address mismatch''), m)
             else if length data < h + 1
             then (Err (Malformed ''frame too short for extended address''), m)
             else (case rbind (slice data h (length data)) (\<lambda>d. rbind (idx d 0) (\<lambda>d0. Ok (d, d0))) of
               Inl e \<Rightarrow> (Inl e, m)
             | Inr (d, d0) \<Rightarrow>
                 if drop_bit 4 d0 = 0x0 then rx_single d m
                 else if drop_bit 4 d0 = 0x1 then rx_first h d now m
                 else if drop_bit 4 d0 = 0x2 then rx_consecutive dbg h d now m
                 else if drop_bit 4 d0 = 0x3 then (Ok Continue, m)
                 else (Err (Malformed ''unknown PCI type''), m))))"

section \<open>Nibbles, frames\<close>

definition nibble :: "u8 \<Rightarrow> bool" where
  "nibble x \<longleftrightarrow> x AND 0x0f = x"

lemma nibble_and [simp]: "nibble (x AND 0x0f)"
  by (simp add: nibble_def and.assoc)

lemma nibble_small [simp]: "nibble 0" "nibble 1"
  by (simp_all add: nibble_def)

lemma drop_bit_4_nibble: "nibble x \<Longrightarrow> drop_bit 4 x = 0"
proof -
  have "drop_bit 4 (x AND 0x0f) = drop_bit 4 x AND drop_bit 4 0x0f"
    by (rule drop_bit_and)
  also have "\<dots> = 0" by simp
  finally show "nibble x \<Longrightarrow> drop_bit 4 x = 0"
    by (simp add: nibble_def)
qed

lemma pci_fields:
  assumes "nibble x"
  shows "drop_bit 4 (0x10 OR x) = 1" "(0x10 OR x) AND 0x0f = x"
    and "drop_bit 4 (0x20 OR x) = 2" "(0x20 OR x) AND 0x0f = x"
  using assms by (simp_all add: drop_bit_or drop_bit_4_nibble bit.conj_disj_distrib2 nibble_def)

lemma unat_nibble: "nibble x \<Longrightarrow> unat x < 16"
proof -
  have "unat (x AND 0x0f) = unat x AND 15"
    by (simp add: unsigned_and_eq)
  also have "\<dots> = unat x mod 16"
    using take_bit_eq_mask [of 4 "unat x"] by (simp add: take_bit_eq_mod mask_eq_exp_minus_1)
  finally show "nibble x \<Longrightarrow> unat x < 16"
    by (simp add: nibble_def)
qed

lemma nibble_of_nat: "n < 16 \<Longrightarrow> nibble (of_nat n)"
proof -
  assume n: "n < 16"
  have "take_bit 4 (of_nat n :: u8) = of_nat (take_bit 4 n)"
    by (rule take_bit_of_nat)
  also have "take_bit 4 n = n"
    using n by (simp add: take_bit_nat_eq_self)
  finally show ?thesis
    by (simp add: nibble_def take_bit_eq_mask mask_eq_exp_minus_1)
qed

lemma u8_add_nibble: "nibble x \<Longrightarrow> u8_add dbg x 1 = Ok (x + 1)"
  using unat_nibble [of x] by (intro u8_add_Ok) simp

lemma length_start_frame [simp]: "length (start_frame addr) = is_some_n addr"
  by (cases addr) (simp_all add: start_frame_def)

lemma start_frame_simps: "start_frame None = []" "start_frame (Some a) = [a]"
  by (simp_all add: start_frame_def)

lemma pad_frame_ext:
  assumes "length f \<le> 8"
  obtains q where "pad_frame f padding = f @ q"
proof (cases padding)
  case None
  with that [of "[]"] show thesis by (simp add: pad_frame_def)
next
  case (Some p)
  with assms that [of "replicate (8 - length f) p"] show thesis
    by (simp add: pad_frame_def vec_resize_ge)
qed

text \<open>A frame for our own address is handled by its PCI nibble, the address byte stripped.\<close>

lemma rx_on_frame_strip:
  "rx_on_frame dbg (start_frame (rx_addr m) @ pci # r) now m =
     (if drop_bit 4 pci = 0x0 then rx_single (pci # r) m
      else if drop_bit 4 pci = 0x1 then rx_first (is_some_n (rx_addr m)) (pci # r) now m
      else if drop_bit 4 pci = 0x2 then rx_consecutive dbg (is_some_n (rx_addr m)) (pci # r) now m
      else if drop_bit 4 pci = 0x3 then (Ok Continue, m)
      else (Err (Malformed ''unknown PCI type''), m))"
  by (cases "rx_addr m") (simp_all add: rx_on_frame_def start_frame_simps Let_def)

lemma rx_on_frame_cases:
  obtains "data = []" "rx_on_frame dbg data now m = (Err (Malformed ''empty frame''), m)"
  | "rx_on_frame dbg data now m = (Err (Malformed ''extended-address mismatch''), m)"
  | "rx_on_frame dbg data now m = (Err (Malformed ''frame too short for extended address''), m)"
  | pci r where "data = start_frame (rx_addr m) @ pci # r"
proof (cases "rx_addr m")
  case None
  then show thesis
    using that by (cases data) (auto simp: start_frame_simps rx_on_frame_def)
next
  case (Some a)
  show thesis
  proof (cases data)
    case Nil
    then show thesis using that(1) by (simp add: rx_on_frame_def)
  next
    case (Cons x xs)
    show thesis
    proof (cases "x = a")
      case False
      with Cons Some have "rx_on_frame dbg data now m = (Err (Malformed ''extended-address mismatch''), m)"
        by (simp add: rx_on_frame_def)
      then show thesis by (rule that(2))
    next
      case True
      show thesis
      proof (cases xs)
        case Nil
        with Cons Some True
        have "rx_on_frame dbg data now m = (Err (Malformed ''frame too short for extended address''), m)"
          by (simp add: rx_on_frame_def)
        then show thesis by (rule that(3))
      next
        case (Cons y ys)
        with \<open>data = x # xs\<close> True Some show thesis
          by (intro that(4) [of y ys]) (simp add: start_frame_simps)
      qed
    qed
  qed
qed

section \<open>The receive machine's invariant\<close>

text \<open>
  While receiving, the buffer is shorter than the announced length and the expected
  sequence number is a nibble; the buffer never grows past the announced length, which
  fits twelve bits.
\<close>

definition rx_inv :: "rx_machine \<Rightarrow> bool" where
  "rx_inv m \<longleftrightarrow> rx_ff_dl m \<le> MAX_PAYLOAD \<and> length (rx_buf m) \<le> rx_ff_dl m
     \<and> (case rx_state m of Idle \<Rightarrow> True
        | Receiving sn _ _ \<Rightarrow> nibble sn \<and> length (rx_buf m) < rx_ff_dl m)"

lemma rx_inv_init [simp]: "rx_inv (rx_with_addr bs stmin padding n_cr addr)"
  by (simp add: rx_inv_def rx_with_addr_def MAX_PAYLOAD_def)

lemma ff_dl_bound: "push_bit 8 (unat (d0 AND 0x0f)) OR unat (d1 :: u8) = 256 * unat (d0 AND 0x0f) + unat d1"
  by (subst or.commute) (simp add: unat_or_shift8 add.commute)

lemma rx_single_inv: "rx_single d m = (r, m') \<Longrightarrow> rx_inv m \<Longrightarrow> rx_inv m'"
  by (auto simp: rx_single_def rx_inv_def Let_def split: sum.splits if_splits)

lemma rx_first_eq:
  assumes "8 - h \<le> length (d0 # d1 # r)" and "h \<le> 1"
  shows "rx_first h (d0 # d1 # r) now m =
    (let ff_dl = 256 * unat (d0 AND 0x0f) + unat d1;
         m1 = m\<lparr>rx_ff_dl := ff_dl, rx_buf := take (6 - h) r, rx_state := Receiving 1 0 (now + rx_n_cr m)\<rparr> in
     if ff_dl \<le> 7 - h then (Err (Malformed ''FF_DL fits in a single frame''), m)
     else (Ok (SendFc (rx_fc m1)), m1))"
proof -
  have "slice (d0 # d1 # r) 2 (8 - h) = Ok (take (6 - h) r)"
    using assms by (auto simp: slice_def le_Suc_eq drop_Cons')
  with assms show ?thesis
    by (simp add: rx_first_def Let_def ff_dl_bound)
qed

lemma rx_first_inv:
  assumes "rx_first h d now m = (r, m')" and "rx_inv m" and "h \<le> 1"
  shows "rx_inv m'"
proof (cases "length d < 8 - h")
  case False
  then obtain d0 d1 rest where d: "d = d0 # d1 # rest"
    using assms(3) by (cases d; cases "tl d") auto
  have "unat (d0 AND 0x0f) < 16" by (rule unat_nibble) simp
  moreover have "unat d1 < 256" by simp
  ultimately have "256 * unat (d0 AND 0x0f) + unat d1 \<le> 4095" by linarith
  then show ?thesis
    using assms False unfolding d
    by (auto simp: rx_first_eq not_less rx_inv_def Let_def MAX_PAYLOAD_def split: if_splits)
qed (use assms in \<open>simp add: rx_first_def\<close>)

lemma rx_consecutive_eq:
  assumes "rx_state m = Receiving sn c t" and "length (rx_buf m) < rx_ff_dl m"
  shows "rx_consecutive dbg h (d0 # r) now m =
    (if d0 AND 0x0f \<noteq> sn then (Err (SequenceError sn (d0 AND 0x0f)), m\<lparr>rx_state := Idle\<rparr>)
     else let buf = rx_buf m @ take (min (rx_ff_dl m - length (rx_buf m)) (7 - h)) r in
       if length buf = rx_ff_dl m then (Ok (RxDone buf), m\<lparr>rx_state := Idle, rx_buf := []\<rparr>)
       else (case u8_add dbg c 1 of
           Inl e \<Rightarrow> (Inl e, m\<lparr>rx_buf := buf\<rparr>)
         | Inr cfs \<Rightarrow>
             if rx_bs m \<noteq> 0 \<and> cfs \<ge> rx_bs m
             then (Ok (SendFc (rx_fc m)),
                   m\<lparr>rx_buf := buf, rx_state := Receiving ((sn + 1) AND 0x0f) 0 (now + rx_n_cr m)\<rparr>)
             else (Ok Continue,
                   m\<lparr>rx_buf := buf, rx_state := Receiving ((sn + 1) AND 0x0f) cfs (now + rx_n_cr m)\<rparr>)))"
    (is "_ = ?rhs")
proof -
  define n where "n = min (rx_ff_dl m - length (rx_buf m)) (min (7 - h) (length r))"
  define p where "p = take n r"
  have n: "n \<le> rx_ff_dl m - length (rx_buf m)" "n \<le> length r" "length p = n"
    by (simp_all add: n_def p_def)
  have p: "take (min (rx_ff_dl m - length (rx_buf m)) (7 - h)) r = p"
    unfolding p_def n_def min.assoc [symmetric] by simp
  have s: "slice (d0 # r) 1 (1 + n) = Ok p"
    using n by (simp add: slice_def p_def)
  have fc: "rx_fc (m\<lparr>rx_buf := b, rx_state := s\<rparr>) = rx_fc m" for b s
    by (simp add: rx_fc_def)
  have len: "rx_ff_dl m \<le> length (rx_buf m @ p) \<longleftrightarrow> length (rx_buf m @ p) = rx_ff_dl m"
    using assms(2) n by auto
  have eq: "rbind (usize_sub dbg (rx_ff_dl m) (length (rx_buf m))) (\<lambda>need.
      rbind (usize_sub dbg (length (d0 # r)) 1) (\<lambda>avail.
        slice (d0 # r) 1 (1 + min need (min (7 - h) avail)))) = (Ok p :: (bytes, isotp_error) res)"
    using assms(2) s by (simp add: n_def)
  show ?thesis
    unfolding rx_consecutive_def assms(1) eq p
    using len by (simp add: Let_def fc split: sum.split)
qed

lemma rx_consecutive_inv:
  assumes "rx_consecutive dbg h d now m = (r, m')" and "rx_inv m" and "d \<noteq> []"
  shows "rx_inv m'"
proof (cases "rx_state m")
  case Idle
  then show ?thesis using assms by (simp add: rx_consecutive_def)
next
  case (Receiving sn c t)
  obtain d0 p where d: "d = d0 # p"
    using assms(3) by (cases d) auto
  have len: "length (rx_buf m) < rx_ff_dl m"
    using assms(2) Receiving by (simp add: rx_inv_def)
  define buf where "buf = rx_buf m @ take (min (rx_ff_dl m - length (rx_buf m)) (7 - h)) p"
  have bl: "length buf \<le> rx_ff_dl m"
    using len by (auto simp: buf_def)
  have dl: "rx_ff_dl m \<le> MAX_PAYLOAD"
    using assms(2) by (simp add: rx_inv_def)
  note eq = assms(1) [unfolded d rx_consecutive_eq [OF Receiving len] Let_def, folded buf_def]
  consider "d0 AND 0x0f \<noteq> sn" | "d0 AND 0x0f = sn" "length buf = rx_ff_dl m"
    | e where "d0 AND 0x0f = sn" "length buf \<noteq> rx_ff_dl m" "u8_add dbg c 1 = (Inl e :: (u8, isotp_error) res)"
    | c' where "d0 AND 0x0f = sn" "length buf \<noteq> rx_ff_dl m" "u8_add dbg c 1 = (Inr c' :: (u8, isotp_error) res)"
    by (cases "u8_add dbg c 1 :: (u8, isotp_error) res") auto
  then show ?thesis
  proof cases
    case 1
    with eq assms(2) show ?thesis by (auto simp: rx_inv_def)
  next
    case 2
    with eq dl show ?thesis by (auto simp: rx_inv_def)
  next
    case 3
    with eq assms(2) bl dl Receiving show ?thesis by (auto simp: rx_inv_def)
  next
    case 4
    with eq bl dl show ?thesis by (auto simp: rx_inv_def split: if_splits)
  qed
qed

lemma rx_on_frame_inv:
  assumes "rx_on_frame dbg data now m = (r, m')" and "rx_inv m"
  shows "rx_inv m'"
proof (cases rule: rx_on_frame_cases [of data dbg now m])
  case (4 pci p)
  have "is_some_n (rx_addr m) \<le> 1" by simp
  then show ?thesis
    using assms unfolding 4 rx_on_frame_strip
    by (auto split: if_splits intro: rx_single_inv rx_first_inv rx_consecutive_inv)
qed (use assms in simp_all)

text \<open>In a release build no frame makes the receive machine panic.\<close>

lemma rx_single_not_panic: "d \<noteq> [] \<Longrightarrow> fst (rx_single d m) \<noteq> panic"
  by (auto simp: rx_single_def Let_def split: sum.splits)

lemma rx_first_not_panic: "h \<le> 1 \<Longrightarrow> fst (rx_first h d now m) \<noteq> panic"
proof (cases "length d < 8 - h")
  case False
  moreover assume "h \<le> 1"
  ultimately obtain d0 d1 rest where "d = d0 # d1 # rest"
    by (cases d; cases "tl d") auto
  with False \<open>h \<le> 1\<close> show ?thesis
    by (simp add: rx_first_eq not_less Let_def)
qed (simp add: rx_first_def)

lemma rx_consecutive_not_panic:
  assumes "rx_inv m" and "d \<noteq> []"
    and "dbg \<Longrightarrow> case rx_state m of Receiving _ c _ \<Rightarrow> unat c < 255 | Idle \<Rightarrow> True"
  shows "fst (rx_consecutive dbg h d now m) \<noteq> panic"
proof (cases "rx_state m")
  case Idle
  then show ?thesis by (simp add: rx_consecutive_def)
next
  case (Receiving sn c t)
  obtain d0 r where d: "d = d0 # r"
    using assms(2) by (cases d) auto
  have "length (rx_buf m) < rx_ff_dl m"
    using assms(1) Receiving by (simp add: rx_inv_def)
  moreover have "u8_add dbg c 1 = (Ok (c + 1) :: (u8, isotp_error) res)"
    using assms(3) Receiving by (cases dbg) (simp_all add: u8_add_Ok)
  ultimately show ?thesis
    using Receiving d by (simp add: rx_consecutive_eq Let_def)
qed

lemma rx_on_frame_not_panic:
  assumes "rx_inv m"
    and "dbg \<Longrightarrow> case rx_state m of Receiving _ c _ \<Rightarrow> unat c < 255 | Idle \<Rightarrow> True"
  shows "fst (rx_on_frame dbg data now m) \<noteq> panic"
proof (cases rule: rx_on_frame_cases [of data dbg now m])
  case (4 pci r)
  then show ?thesis
    using assms by (simp add: rx_on_frame_strip rx_single_not_panic rx_first_not_panic rx_consecutive_not_panic)
qed simp_all

end
