(* ===== verification/IsoTp_Transfer.thy ===== *)
theory IsoTp_Transfer
  imports IsoTp_Machine "HOL-Library.Sublist"
begin

text \<open>
  The two ISO-TP machines against each other and against an arbitrary peer.
  \<open>segments\<close> is the reference segmentation of a payload, \<open>tx_run\<close> the transmit machine
  driven by any clock and any received frames, \<open>pipe\<close> the lockstep driver of
  \<open>rmvci-core/tests/isotp_props.rs\<close>. The transmit machine only ever emits a prefix of the
  reference segmentation; in lockstep the receive machine reassembles the payload for
  every length, block size, separation time, padding and address byte.
\<close>

section \<open>One consecutive frame\<close>

definition cf_frame :: "u8 option \<Rightarrow> u8 option \<Rightarrow> u8 \<Rightarrow> bytes \<Rightarrow> bytes" where
  "cf_frame addr padding sn d = pad_frame (start_frame addr @ [0x20 OR sn] @ d) padding"

lemma tx_next_cf:
  assumes "tx_state m = Consecutive e" and "e \<le> now"
    and "tx_offset m < length (tx_payload m)" and "nibble (tx_sn m)"
    and "n = min (length (tx_payload m) - tx_offset m) (7 - is_some_n (tx_addr m))"
  shows "tx_next dbg now m =
    (let f = cf_frame (tx_addr m) (tx_padding m) (tx_sn m) (take n (drop (tx_offset m) (tx_payload m)));
         m1 = m\<lparr>tx_offset := tx_offset m + n, tx_sn := (tx_sn m + 1) AND 0x0f\<rparr> in
     if tx_offset m + n = length (tx_payload m) then (Ok (Send f), m1\<lparr>tx_state := Finished\<rparr>)
     else (case u8_add dbg (tx_cfs_since_fc m) 1 of
         Inl e \<Rightarrow> (Inl e, m1)
       | Inr cfs \<Rightarrow> (Ok (Send f), m1\<lparr>tx_cfs_since_fc := cfs,
             tx_state := (if tx_bs m \<noteq> 0 \<and> cfs \<ge> tx_bs m then AwaitFc (now + tx_n_bs m)
                          else Consecutive (now + tx_stmin m))\<rparr>)))"
proof -
  have n: "n \<le> length (tx_payload m) - tx_offset m"
    using assms(5) by simp
  then have "length (tx_payload m) \<le> tx_offset m + n \<longleftrightarrow> tx_offset m + n = length (tx_payload m)"
    using assms(3) by auto
  then show ?thesis
    using assms(1-4) n
    by (simp add: tx_next_def Let_def u8_add_nibble cf_frame_def assms(5) [symmetric] split: sum.split)
qed

lemma tx_on_fc_cts:
  assumes "tx_state m = AwaitFc d"
  shows "tx_on_frame dbg (start_frame (tx_addr m) @ [0x30, b, s] @ q) now m =
    (Ok (), m\<lparr>tx_bs := b, tx_stmin := decode_stmin s, tx_cfs_since_fc := 0,
              tx_wait_count := 0, tx_state := Consecutive now\<rparr>)"
  using assms by (cases "tx_addr m") (simp_all add: tx_on_frame_def start_frame_simps)

lemma cf_frame_ext:
  assumes "length d \<le> 7 - is_some_n addr"
  obtains q where "cf_frame addr padding sn d = start_frame addr @ (0x20 OR sn) # d @ q"
proof -
  have "length (start_frame addr @ [0x20 OR sn] @ d) \<le> 8"
    using assms by (cases addr) auto
  then show thesis
    using that by (elim pad_frame_ext [of _ padding]) (simp add: cf_frame_def)
qed

lemma rx_fc_ext: obtains q where "rx_fc m = start_frame (rx_addr m) @ [0x30, rx_bs m, rx_stmin m] @ q"
proof -
  have "length (start_frame (rx_addr m) @ [0x30, rx_bs m, rx_stmin m]) \<le> 8"
    by (cases "rx_addr m") auto
  then show thesis
    using that by (elim pad_frame_ext [of _ "rx_padding m"]) (simp add: rx_fc_def)
qed

lemma rx_on_cf:
  assumes "rx_state m = Receiving sn c t" and "length (rx_buf m) < rx_ff_dl m" and "nibble sn"
    and "length d = min (rx_ff_dl m - length (rx_buf m)) (7 - is_some_n (rx_addr m))"
  shows "rx_on_frame dbg (cf_frame (rx_addr m) padding sn d) now m =
    (let buf = rx_buf m @ d in
     if length buf = rx_ff_dl m then (Ok (RxDone buf), m\<lparr>rx_state := Idle, rx_buf := []\<rparr>)
     else (case u8_add dbg c 1 of
         Inl e \<Rightarrow> (Inl e, m\<lparr>rx_buf := buf\<rparr>)
       | Inr cfs \<Rightarrow>
           if rx_bs m \<noteq> 0 \<and> cfs \<ge> rx_bs m
           then (Ok (SendFc (rx_fc m)),
                 m\<lparr>rx_buf := buf, rx_state := Receiving ((sn + 1) AND 0x0f) 0 (now + rx_n_cr m)\<rparr>)
           else (Ok Continue,
                 m\<lparr>rx_buf := buf, rx_state := Receiving ((sn + 1) AND 0x0f) cfs (now + rx_n_cr m)\<rparr>)))"
proof -
  obtain q where q: "cf_frame (rx_addr m) padding sn d = start_frame (rx_addr m) @ (0x20 OR sn) # d @ q"
    using assms(4) by (elim cf_frame_ext [rotated]) auto
  show ?thesis
    unfolding q rx_on_frame_strip pci_fields(3) [OF assms(3)]
    using assms by (simp add: rx_consecutive_eq [OF assms(1,2)] pci_fields Let_def)
qed

section \<open>Lockstep\<close>

text \<open>
  The driver of the property tests: the transmit machine's frames go to the receive
  machine, its flow control back, the clock moves to the instant the transmit machine
  asks for. \<open>None\<close> is fuel exhausted; the test gives up after \<open>2 * 4096\<close> frames.
\<close>

fun pipe :: "bool \<Rightarrow> nat \<Rightarrow> instant \<Rightarrow> tx_machine \<Rightarrow> rx_machine \<Rightarrow> bytes option
    \<Rightarrow> (bytes, isotp_error) res option" where
  "pipe dbg 0 now tx rx result = None"
| "pipe dbg (Suc k) now tx rx result =
     (case tx_next dbg now tx of
        (Inl e, _) \<Rightarrow> Some (Inl e)
      | (Inr (Send f), tx1) \<Rightarrow>
          (case rx_on_frame dbg f now rx of
             (Inl e, _) \<Rightarrow> Some (Inl e)
           | (Inr (SendFc fc), rx1) \<Rightarrow>
               (case tx_on_frame dbg fc now tx1 of
                  (Inl e, _) \<Rightarrow> Some (Inl e)
                | (Inr _, tx2) \<Rightarrow> pipe dbg k now tx2 rx1 result)
           | (Inr (RxDone p), rx1) \<Rightarrow> pipe dbg k now tx1 rx1 (Some p)
           | (Inr Continue, rx1) \<Rightarrow> pipe dbg k now tx1 rx1 result)
      | (Inr (WaitUntil t), tx1) \<Rightarrow> pipe dbg k t tx1 rx result
      | (Inr (WaitFc _), tx1) \<Rightarrow> pipe dbg k (now + from_secs 1) tx1 rx result
      | (Inr TxDone, _) \<Rightarrow> (case result of None \<Rightarrow> Some panic | Some p \<Rightarrow> Some (Ok p)))"

definition synced :: "tx_machine \<Rightarrow> rx_machine \<Rightarrow> bool" where
  "synced tx rx \<longleftrightarrow>
     (\<exists>e. tx_state tx = Consecutive e) \<and>
     (\<exists>t. rx_state rx = Receiving (tx_sn tx) (tx_cfs_since_fc tx) t) \<and>
     nibble (tx_sn tx) \<and> tx_offset tx < length (tx_payload tx) \<and>
     rx_addr rx = tx_addr tx \<and> rx_bs rx = tx_bs tx \<and> rx_ff_dl rx = length (tx_payload tx) \<and>
     rx_buf rx = take (tx_offset tx) (tx_payload tx)"

text \<open>Consecutive frames still to be sent.\<close>

definition cfs_left :: "tx_machine \<Rightarrow> nat" where
  "cfs_left tx = (length (tx_payload tx) - tx_offset tx + (6 - is_some_n (tx_addr tx)))
     div (7 - is_some_n (tx_addr tx))"

definition counter_fits :: "bool \<Rightarrow> tx_machine \<Rightarrow> bool" where
  "counter_fits dbg tx \<longleftrightarrow>
     dbg \<longrightarrow> (if tx_bs tx \<noteq> 0 then tx_cfs_since_fc tx < tx_bs tx
             else unat (tx_cfs_since_fc tx) + cfs_left tx \<le> 256)"

lemma cfs_left_step:
  assumes "tx_offset tx + n < length (tx_payload tx)" and "n = 7 - is_some_n (tx_addr tx)"
    and "tx_payload tx' = tx_payload tx" "tx_addr tx' = tx_addr tx" "tx_offset tx' = tx_offset tx + n"
  shows "cfs_left tx = Suc (cfs_left tx')" and "0 < cfs_left tx'"
proof -
  have n: "0 < n" using assms(2) is_some_n_le [of "tx_addr tx"] by simp
  have "6 - is_some_n (tx_addr tx) = n - 1"
    using assms(2) by simp
  then have *: "cfs_left tx = (length (tx_payload tx) - tx_offset tx + (n - 1)) div n"
    "cfs_left tx' = (length (tx_payload tx) - (tx_offset tx + n) + (n - 1)) div n"
    using assms(2-5) by (simp_all add: cfs_left_def)
  have "length (tx_payload tx) - tx_offset tx + (n - 1)
      = (length (tx_payload tx) - (tx_offset tx + n) + (n - 1)) + n"
    using assms(1) by simp
  with n * show "cfs_left tx = Suc (cfs_left tx')"
    by (metis add.commute add_Suc div_add_self2 le_add1 less_le_trans not_less_zero plus_1_eq_Suc add_0 neq0_conv)
  have "n \<le> length (tx_payload tx) - (tx_offset tx + n) + (n - 1)"
    using assms(1) n by simp
  with n * show "0 < cfs_left tx'"
    by (simp add: div_greater_zero_iff)
qed

lemma unat_inc_le: "unat (a + 1 :: u8) \<le> Suc (unat a)"
  by (simp add: unat_word_ariths)

lemma counter_fits_add:
  assumes "counter_fits dbg tx" and "tx_offset tx + n < length (tx_payload tx)"
    and "n = 7 - is_some_n (tx_addr tx)"
  shows "u8_add dbg (tx_cfs_since_fc tx) 1 = Ok (tx_cfs_since_fc tx + 1)"
proof (cases dbg)
  case True
  have "unat (tx_cfs_since_fc tx) < 255"
  proof (cases "tx_bs tx = 0")
    case False
    with assms(1) True have "unat (tx_cfs_since_fc tx) < unat (tx_bs tx)"
      by (simp add: counter_fits_def word_less_nat_alt)
    with unat_u8_less [of "tx_bs tx"] show ?thesis by linarith
  next
    case True
    define tx' where "tx' = tx\<lparr>tx_offset := tx_offset tx + n\<rparr>"
    have "cfs_left tx = Suc (cfs_left tx')" "0 < cfs_left tx'"
      using cfs_left_step [OF assms(2,3), of tx'] by (simp_all add: tx'_def)
    with assms(1) True \<open>dbg\<close> show ?thesis
      by (simp add: counter_fits_def)
  qed
  then show ?thesis by (simp add: u8_add_Ok)
qed simp

lemma counter_fits_next:
  assumes "counter_fits dbg tx" and "tx_offset tx + n < length (tx_payload tx)"
    and "n = min (length (tx_payload tx) - tx_offset tx) (7 - is_some_n (tx_addr tx))"
    and "tx_payload tx' = tx_payload tx" "tx_addr tx' = tx_addr tx" "tx_offset tx' = tx_offset tx + n"
    and "tx_bs tx' = tx_bs tx"
    and "tx_cfs_since_fc tx' = tx_cfs_since_fc tx + 1" and "tx_bs tx = 0 \<or> tx_cfs_since_fc tx' < tx_bs tx"
  shows "counter_fits dbg tx'"
proof -
  have "n = 7 - is_some_n (tx_addr tx)" using assms(2,3) by auto
  from cfs_left_step(1) [OF assms(2) this assms(4-6)] show ?thesis
    using assms unat_inc_le [of "tx_cfs_since_fc tx"] by (auto simp: counter_fits_def)
qed

text \<open>One frame of a synchronised transfer: it is the last, or the machines stay in step.\<close>

lemma synced_step:
  assumes "synced tx rx" and "tx_state tx = Consecutive e" and "e \<le> now"
    and "n = min (length (tx_payload tx) - tx_offset tx) (7 - is_some_n (tx_addr tx))"
    and "tx_offset tx + n < length (tx_payload tx) \<Longrightarrow>
      u8_add dbg (tx_cfs_since_fc tx) 1 = (Ok (tx_cfs_since_fc tx + 1) :: (u8, isotp_error) res)"
  obtains f tx1 rx1 where "tx_next dbg now tx = (Ok (Send f), tx1)"
      "rx_on_frame dbg f now rx = (Ok (RxDone (tx_payload tx)), rx1)" "tx_state tx1 = Finished"
      "tx_offset tx + n = length (tx_payload tx)"
  | f tx1 rx1 where "tx_next dbg now tx = (Ok (Send f), tx1)"
      "rx_on_frame dbg f now rx = (Ok Continue, rx1)"
      "synced tx1 rx1" "tx_payload tx1 = tx_payload tx" "tx_addr tx1 = tx_addr tx"
      "tx_offset tx1 = tx_offset tx + n" "tx_offset tx + n < length (tx_payload tx)"
      "tx_bs tx1 = tx_bs tx" "tx_cfs_since_fc tx1 = tx_cfs_since_fc tx + 1"
      "tx_bs tx = 0 \<or> tx_cfs_since_fc tx1 < tx_bs tx"
  | f tx1 fc rx1 tx2 where "tx_next dbg now tx = (Ok (Send f), tx1)"
      "rx_on_frame dbg f now rx = (Ok (SendFc fc), rx1)"
      "tx_on_frame dbg fc now tx1 = (Ok (), tx2)"
      "synced tx2 rx1" "tx_payload tx2 = tx_payload tx" "tx_addr tx2 = tx_addr tx"
      "tx_offset tx2 = tx_offset tx + n" "tx_offset tx + n < length (tx_payload tx)"
      "tx_bs tx2 = tx_bs tx" "tx_bs tx \<noteq> 0" "tx_cfs_since_fc tx2 = 0"
proof -
  let ?d = "take n (drop (tx_offset tx) (tx_payload tx))"
  let ?f = "cf_frame (tx_addr tx) (tx_padding tx) (tx_sn tx) ?d"
  obtain t where rx: "rx_state rx = Receiving (tx_sn tx) (tx_cfs_since_fc tx) t"
    and sn: "nibble (tx_sn tx)" and off: "tx_offset tx < length (tx_payload tx)"
    and addr: "rx_addr rx = tx_addr tx" and bs: "rx_bs rx = tx_bs tx"
    and dl: "rx_ff_dl rx = length (tx_payload tx)"
    and buf: "rx_buf rx = take (tx_offset tx) (tx_payload tx)"
    using assms(1) by (auto simp: synced_def)
  note tx_eq = tx_next_cf [OF assms(2,3) off sn assms(4), of dbg]
  have n0: "0 < n" using assms(4) off is_some_n_le [of "tx_addr tx"] by simp
  have len: "length ?d = n" using assms(4) by simp
  have "length (rx_buf rx) < rx_ff_dl rx" using buf dl off by simp
  moreover have "length ?d = min (rx_ff_dl rx - length (rx_buf rx)) (7 - is_some_n (rx_addr rx))"
    using len off buf dl addr assms(4) by simp
  ultimately have rx_eq: "rx_on_frame dbg ?f now rx = (let buf = take (tx_offset tx + n) (tx_payload tx) in
     if tx_offset tx + n = length (tx_payload tx)
     then (Ok (RxDone buf), rx\<lparr>rx_state := Idle, rx_buf := []\<rparr>)
     else (case u8_add dbg (tx_cfs_since_fc tx) 1 of
         Inl e \<Rightarrow> (Inl e, rx\<lparr>rx_buf := buf\<rparr>)
       | Inr cfs \<Rightarrow>
           if rx_bs rx \<noteq> 0 \<and> cfs \<ge> rx_bs rx
           then (Ok (SendFc (rx_fc rx)),
                 rx\<lparr>rx_buf := buf, rx_state := Receiving ((tx_sn tx + 1) AND 0x0f) 0 (now + rx_n_cr rx)\<rparr>)
           else (Ok Continue,
                 rx\<lparr>rx_buf := buf, rx_state := Receiving ((tx_sn tx + 1) AND 0x0f) cfs (now + rx_n_cr rx)\<rparr>)))"
    using rx_on_cf [OF rx _ sn, of ?d dbg "tx_padding tx" now] len off buf dl addr assms(4)
    by (simp add: Let_def take_add)
  show thesis
  proof (cases "tx_offset tx + n = length (tx_payload tx)")
    case True
    with tx_eq rx_eq show thesis
      by (intro that(1) [of ?f "tx\<lparr>tx_offset := tx_offset tx + n,
            tx_sn := (tx_sn tx + 1) AND 0x0f, tx_state := Finished\<rparr>"]) (simp_all add: Let_def)
  next
    case False
    then have n: "n = 7 - is_some_n (tx_addr tx)" and more: "tx_offset tx + n < length (tx_payload tx)"
      using assms(4) off by auto
    let ?c = "tx_cfs_since_fc tx + 1"
    have add: "u8_add dbg (tx_cfs_since_fc tx) 1 = (Ok ?c :: (u8, isotp_error) res)"
      by (rule assms(5) [OF more])
    show thesis
    proof (cases "tx_bs tx \<noteq> 0 \<and> ?c \<ge> tx_bs tx")
      case False
      define tx1 where "tx1 = tx\<lparr>tx_offset := tx_offset tx + n, tx_sn := (tx_sn tx + 1) AND 0x0f,
        tx_cfs_since_fc := ?c, tx_state := Consecutive (now + tx_stmin tx)\<rparr>"
      define rx1 where "rx1 = rx\<lparr>rx_buf := take (tx_offset tx + n) (tx_payload tx),
        rx_state := Receiving ((tx_sn tx + 1) AND 0x0f) ?c (now + rx_n_cr rx)\<rparr>"
      from False have "\<not> (rx_bs rx \<noteq> 0 \<and> ?c \<ge> rx_bs rx)" by (simp add: bs)
      then show thesis
        using \<open>tx_offset tx + n \<noteq> length (tx_payload tx)\<close> False tx_eq rx_eq more
        by (intro that(2) [of ?f tx1 rx1])
          (auto simp: Let_def add tx1_def rx1_def synced_def addr bs dl)
    next
      case True
      obtain q where q: "rx_fc rx = start_frame (tx_addr tx) @ [0x30, tx_bs tx, rx_stmin rx] @ q"
        using rx_fc_ext [of rx] by (auto simp: addr bs)
      define tx1 where "tx1 = tx\<lparr>tx_offset := tx_offset tx + n, tx_sn := (tx_sn tx + 1) AND 0x0f,
        tx_cfs_since_fc := ?c, tx_state := AwaitFc (now + tx_n_bs tx)\<rparr>"
      define rx1 where "rx1 = rx\<lparr>rx_buf := take (tx_offset tx + n) (tx_payload tx),
        rx_state := Receiving ((tx_sn tx + 1) AND 0x0f) 0 (now + rx_n_cr rx)\<rparr>"
      have tx2: "tx_on_frame dbg (rx_fc rx) now tx1 = (Ok (), tx1\<lparr>tx_bs := tx_bs tx,
          tx_stmin := decode_stmin (rx_stmin rx), tx_cfs_since_fc := 0, tx_wait_count := 0,
          tx_state := Consecutive now\<rparr>)" (is "_ = (_, ?tx2)")
        using tx_on_fc_cts [of tx1 "now + tx_n_bs tx" dbg "tx_bs tx" "rx_stmin rx" q now]
        by (simp add: q tx1_def)
      show thesis
        using \<open>tx_offset tx + n \<noteq> length (tx_payload tx)\<close> True tx_eq rx_eq more tx2
        by (intro that(3) [of ?f tx1 "rx_fc rx" rx1 ?tx2])
          (simp_all add: Let_def add tx1_def rx1_def synced_def addr bs dl)
    qed
  qed
qed


text \<open>A synchronised transfer delivers the payload; two rounds per frame are enough.\<close>

lemma pipe_synced:
  assumes "synced tx rx" and "counter_fits dbg tx"
    and "2 * (length (tx_payload tx) - tx_offset tx) + 2 \<le> fuel"
  shows "pipe dbg fuel now tx rx result = Some (Ok (tx_payload tx))"
  using assms
proof (induction "length (tx_payload tx) - tx_offset tx" arbitrary: tx rx now fuel rule: less_induct)
  case less
  obtain e where e: "tx_state tx = Consecutive e"
    using less.prems(1) by (auto simp: synced_def)
  have off: "tx_offset tx < length (tx_payload tx)"
    using less.prems(1) by (simp add: synced_def)
  define n where "n = min (length (tx_payload tx) - tx_offset tx) (7 - is_some_n (tx_addr tx))"
  have n: "0 < n" using off by (simp add: n_def)
  have send: "pipe dbg k t tx rx result = Some (Ok (tx_payload tx))"
    if "e \<le> t" and k: "2 * (length (tx_payload tx) - tx_offset tx) + 1 \<le> k" for k t
  proof -
    obtain k' where k': "k = Suc k'" using k by (cases k) auto
    have small: "2 * (length (tx_payload tx) - (tx_offset tx + n)) + 2 \<le> k'"
      using k k' n off by simp
    have add: "u8_add dbg (tx_cfs_since_fc tx) 1 = (Ok (tx_cfs_since_fc tx + 1) :: (u8, isotp_error) res)"
      if "tx_offset tx + n < length (tx_payload tx)"
      using that by (intro counter_fits_add [OF less.prems(2) that]) (auto simp: n_def)
    show ?thesis
    proof (cases rule: synced_step [OF less.prems(1) e that(1) n_def add])
      case (2 f tx1 rx1)
      then show ?thesis using k' off k by (cases k') (auto simp: tx_next_def)
    next
      case (3 f tx1 rx1)
      have "counter_fits dbg tx1"
        by (rule counter_fits_next [OF less.prems(2) 3(7) n_def 3(4,5,6) 3(8,9)]) (use 3 in simp)
      with 3 k' less.hyps [of tx1 rx1 k' t] small n off show ?thesis by simp
    next
      case (4 f tx1 fc rx1 tx2)
      then have "counter_fits dbg tx2" by (simp add: counter_fits_def word_neq_0_conv)
      with 4 k' less.hyps [of tx2 rx1 k' t] small n off show ?thesis by simp
    qed
  qed
  show ?case
  proof (cases "now < e")
    case True
    then obtain k where "fuel = Suc k" using less.prems(3) by (cases fuel) auto
    moreover from True e have "tx_next dbg now tx = (Ok (WaitUntil e), tx)"
      by (simp add: tx_next_def)
    ultimately show ?thesis using send [of e k] less.prems(3) by simp
  next
    case False
    then show ?thesis using send [of now fuel] less.prems(3) by simp
  qed
qed

section \<open>From the first frame\<close>

lemma single_frame_transfer:
  assumes "tx_state tx = SingleFrame" and "tx_payload tx \<noteq> []"
    and "length (tx_payload tx) \<le> 7 - is_some_n (tx_addr tx)" and "rx_addr rx = tx_addr tx"
  obtains f rx1 where "tx_next dbg now tx = (Ok (Send f), tx\<lparr>tx_state := Finished\<rparr>)"
    and "rx_on_frame dbg f now rx = (Ok (RxDone (tx_payload tx)), rx1)"
proof -
  let ?p = "tx_payload tx"
  let ?l = "of_nat (length ?p) :: u8"
  have len: "length ?p \<le> 7" using assms(3) by simp
  then have nib: "nibble ?l" by (intro nibble_of_nat) simp
  have "length (start_frame (tx_addr tx) @ [?l] @ ?p) \<le> 8"
    using assms(3) by (cases "tx_addr tx") auto
  then obtain q where q: "pad_frame (start_frame (tx_addr tx) @ [?l] @ ?p) (tx_padding tx)
      = start_frame (rx_addr rx) @ ?l # ?p @ q"
    by (elim pad_frame_ext [of _ "tx_padding tx"]) (simp add: assms(4))
  have "?l AND 0x0f = ?l" using nib by (simp add: nibble_def)
  moreover have "unat ?l = length ?p" using len by (simp add: unat_of_nat_u8)
  moreover have "length ?p \<noteq> 0" using assms(2) by simp
  ultimately have "rx_on_frame dbg (start_frame (rx_addr rx) @ ?l # ?p @ q) now rx
      = (Ok (RxDone ?p), rx\<lparr>rx_state := Idle\<rparr>)"
    unfolding rx_on_frame_strip drop_bit_4_nibble [OF nib]
    by (simp add: rx_single_def Let_def)
  moreover have "tx_next dbg now tx = (Ok (Send (pad_frame (start_frame (tx_addr tx) @ [?l] @ ?p)
      (tx_padding tx))), tx\<lparr>tx_state := Finished\<rparr>)"
    using assms(1) by (simp add: tx_next_def)
  ultimately show thesis using that q by metis
qed

lemma ff_dl_encode:
  assumes "n \<le> 4095"
  shows "256 * unat ((0x10 OR of_nat (drop_bit 8 n) :: u8) AND 0x0f) + unat (of_nat n :: u8) = n"
    and "drop_bit 4 (0x10 OR of_nat (drop_bit 8 n) :: u8) = 1"
proof -
  have hi: "drop_bit 8 n < 16"
    using assms by (simp add: drop_bit_eq_div div_less_iff_less_mult)
  then have nib: "nibble (of_nat (drop_bit 8 n))"
    by (rule nibble_of_nat)
  have "unat (of_nat (drop_bit 8 n) :: u8) = n div 256"
    using hi by (simp add: unat_of_nat_u8 drop_bit_eq_div)
  then show "256 * unat ((0x10 OR of_nat (drop_bit 8 n) :: u8) AND 0x0f) + unat (of_nat n :: u8) = n"
    by (simp add: pci_fields(2) [OF nib] unsigned_of_nat take_bit_eq_mod)
  show "drop_bit 4 (0x10 OR of_nat (drop_bit 8 n) :: u8) = 1"
    by (rule pci_fields(1) [OF nib])
qed

lemma first_frame_transfer:
  assumes "tx_state tx = FirstFrame" and "7 - is_some_n (tx_addr tx) < length (tx_payload tx)"
    and "length (tx_payload tx) \<le> 4095" and "rx_addr rx = tx_addr tx"
  obtains f tx1 fc rx1 tx2 where "tx_next dbg now tx = (Ok (Send f), tx1)"
    and "rx_on_frame dbg f now rx = (Ok (SendFc fc), rx1)"
    and "tx_on_frame dbg fc now tx1 = (Ok (), tx2)"
    and "synced tx2 rx1" and "tx_payload tx2 = tx_payload tx" and "tx_addr tx2 = tx_addr tx"
    and "tx_offset tx2 = 6 - is_some_n (tx_addr tx)" and "tx_bs tx2 = rx_bs rx"
    and "tx_cfs_since_fc tx2 = 0" and "tx_state tx2 = Consecutive now"
    and "tx_stmin tx2 = decode_stmin (rx_stmin rx)"
proof -
  let ?p = "tx_payload tx" and ?h = "is_some_n (tx_addr tx)"
  let ?d0 = "0x10 OR of_nat (drop_bit 8 (length ?p)) :: u8" and ?d1 = "of_nat (length ?p) :: u8"
  define tx1 where "tx1 = tx\<lparr>tx_offset := 6 - ?h, tx_sn := 1, tx_state := AwaitFc (now + tx_n_bs tx)\<rparr>"
  define rx1 where "rx1 = rx\<lparr>rx_ff_dl := length ?p, rx_buf := take (6 - ?h) ?p,
    rx_state := Receiving 1 0 (now + rx_n_cr rx)\<rparr>"
  have "?h \<le> 1" by simp
  have tx: "tx_next dbg now tx = (Ok (Send (start_frame (rx_addr rx) @ ?d0 # ?d1 # take (6 - ?h) ?p)), tx1)"
    using assms by (simp add: tx_next_def tx1_def Let_def)
  have "rx_first (is_some_n (rx_addr rx)) (?d0 # ?d1 # take (6 - ?h) ?p) now rx = (Ok (SendFc (rx_fc rx1)), rx1)"
    using assms ff_dl_encode(1) [OF assms(3)] by (simp add: rx_first_eq Let_def rx1_def)
  then have rx: "rx_on_frame dbg (start_frame (rx_addr rx) @ ?d0 # ?d1 # take (6 - ?h) ?p) now rx
      = (Ok (SendFc (rx_fc rx1)), rx1)"
    unfolding rx_on_frame_strip ff_dl_encode(2) [OF assms(3)] by simp
  obtain q where q: "rx_fc rx1 = start_frame (tx_addr tx) @ [0x30, rx_bs rx, rx_stmin rx] @ q"
    using rx_fc_ext [of rx1] assms(4) by (auto simp: rx1_def)
  have fc: "tx_on_frame dbg (rx_fc rx1) now tx1 = (Ok (), tx1\<lparr>tx_bs := rx_bs rx,
      tx_stmin := decode_stmin (rx_stmin rx), tx_cfs_since_fc := 0, tx_wait_count := 0,
      tx_state := Consecutive now\<rparr>)"
    using tx_on_fc_cts [of tx1 "now + tx_n_bs tx" dbg "rx_bs rx" "rx_stmin rx" q now]
    by (simp add: q tx1_def)
  from tx rx fc show thesis
    by (rule that) (use assms(2,4) in \<open>simp_all add: synced_def tx1_def rx1_def\<close>)
qed


text \<open>C1: For every payload of 1 to 4095 bytes, every block size, separation time, padding,
  address byte and clock, a transmit machine in lockstep with a receive machine delivers exactly
  the payload, within two driver rounds per payload byte and a constant. In a build with overflow
  checks this needs a block size, or at most 256 consecutive frames.\<close>
theorem isotp_lockstep_delivers:
  assumes "payload \<noteq> []" and "length payload \<le> 4095"
    and "dbg \<Longrightarrow> bs \<noteq> 0 \<or> length payload div (7 - is_some_n addr) \<le> 256"
    and "2 * length payload + 4 \<le> fuel"
  shows "\<exists>tx. tx_with_addr payload padding n_bs wft_max addr = Ok tx \<and>
    pipe dbg fuel now tx (rx_with_addr bs stmin rx_pad n_cr addr) None = Some (Ok payload)"
proof -
  let ?rx = "rx_with_addr bs stmin rx_pad n_cr addr"
  obtain tx where new: "tx_with_addr payload padding n_bs wft_max addr = Ok tx"
    and tx: "tx_payload tx = payload" "tx_addr tx = addr"
      "tx_state tx = (if length payload \<le> 7 - is_some_n addr then SingleFrame else FirstFrame)"
    using assms(1,2) by (simp add: tx_with_addr_def MAX_PAYLOAD_def Let_def)
  have rx: "rx_addr ?rx = addr" "rx_bs ?rx = bs" by (simp_all add: rx_with_addr_def)
  have "pipe dbg fuel now tx ?rx None = Some (Ok payload)"
  proof (cases "length payload \<le> 7 - is_some_n addr")
    case True
    then obtain f rx1 where "tx_next dbg now tx = (Ok (Send f), tx\<lparr>tx_state := Finished\<rparr>)"
      and "rx_on_frame dbg f now ?rx = (Ok (RxDone payload), rx1)"
      using single_frame_transfer [of tx ?rx dbg now] assms(1) tx rx by auto
    moreover obtain k where "fuel = Suc (Suc k)"
      using assms(4) by (cases fuel; cases "fuel - 1") auto
    ultimately show ?thesis by (simp add: tx_next_def)
  next
    case False
    then have ff: "tx_state tx = FirstFrame" "7 - is_some_n (tx_addr tx) < length (tx_payload tx)"
      "length (tx_payload tx) \<le> 4095" "rx_addr ?rx = tx_addr tx"
      using assms(2) tx rx by simp_all
    obtain f tx1 fc rx1 tx2 where *: "tx_next dbg now tx = (Ok (Send f), tx1)"
      "rx_on_frame dbg f now ?rx = (Ok (SendFc fc), rx1)" "tx_on_frame dbg fc now tx1 = (Ok (), tx2)"
      "synced tx2 rx1" "tx_payload tx2 = payload" "tx_addr tx2 = addr"
      "tx_offset tx2 = 6 - is_some_n addr" "tx_bs tx2 = bs" "tx_cfs_since_fc tx2 = 0"
      by (rule first_frame_transfer [OF ff, of dbg now]) (unfold tx rx, rule that, assumption+)
    have "cfs_left tx2 = length payload div (7 - is_some_n addr)"
      using * False by (simp add: cfs_left_def)
    then have "counter_fits dbg tx2"
      using * assms(3) by (auto simp: counter_fits_def word_neq_0_conv)
    moreover obtain k where "fuel = Suc k"
      using assms(4) by (cases fuel) auto
    ultimately show ?thesis
      using * pipe_synced [of tx2 rx1 dbg k now None] assms(4) by simp
  qed
  with new show ?thesis by blast
qed

text \<open>A 1000-byte payload in a checked build, block size 8, mixed addressing.\<close>

lemma isotp_lockstep_delivers_witness:
  "\<exists>tx. tx_with_addr (replicate 1000 0xAA) (Some 0) (from_secs 1) 8 (Some 0xF1) = Ok tx \<and>
    pipe True 2004 7 tx (rx_with_addr 8 0x14 (Some 0) (from_secs 1) (Some 0xF1)) None
      = Some (Ok (replicate 1000 0xAA))"
  by (rule isotp_lockstep_delivers) simp_all

section \<open>The frame counter of an unlimited block\<close>

lemma u8_le_255: "w \<le> (255 :: u8)"
proof -
  have "unat w \<le> 255" using unat_u8_less [of w] by linarith
  then show ?thesis by (simp add: word_le_nat_alt)
qed

lemma u8_inc:
  assumes "c \<noteq> (255 :: u8)"
  shows "unat c + unat (1 :: u8) < 256" and "unat (c + 1) = Suc (unat c)"
proof -
  have "unat c \<noteq> 255"
  proof
    assume "unat c = 255"
    then have "(of_nat (unat c) :: u8) = of_nat 255" by simp
    with assms show False by simp
  qed
  with unat_u8_less [of c] have "unat c < 255" by linarith
  then show "unat c + unat (1 :: u8) < 256" and "unat (c + 1) = Suc (unat c)"
    by (simp_all add: unat_word_ariths)
qed

lemma tx_counter_overflow:
  assumes "tx_state tx = Consecutive e" and "e \<le> now" and "nibble (tx_sn tx)"
    and "tx_offset tx + (7 - is_some_n (tx_addr tx)) < length (tx_payload tx)"
    and "tx_cfs_since_fc tx = 255"
  shows "fst (tx_next True now tx) = panic"
proof -
  have "tx_offset tx < length (tx_payload tx)" using assms(4) by simp
  from tx_next_cf [OF assms(1,2) this assms(3) refl, of True] show ?thesis
    using assms(4,5) by (simp add: Let_def u8_add_def min_def)
qed

lemma pipe_counter_overflow:
  assumes "synced tx rx" and "tx_bs tx = 0" and "256 < unat (tx_cfs_since_fc tx) + cfs_left tx"
    and "2 * (length (tx_payload tx) - tx_offset tx) + 2 \<le> fuel"
  shows "pipe True fuel now tx rx result = Some panic"
  using assms
proof (induction "length (tx_payload tx) - tx_offset tx" arbitrary: tx rx now fuel rule: less_induct)
  case less
  let ?c = "tx_cfs_since_fc tx"
  define n where "n = 7 - is_some_n (tx_addr tx)"
  then have n0: "0 < n" by simp
  obtain e t where e: "tx_state tx = Consecutive e" and off: "tx_offset tx < length (tx_payload tx)"
    and sn: "nibble (tx_sn tx)" and rx: "rx_state rx = Receiving (tx_sn tx) ?c t"
    and addr: "rx_addr rx = tx_addr tx" and bs: "rx_bs rx = 0"
    and dl: "rx_ff_dl rx = length (tx_payload tx)"
    and buf: "rx_buf rx = take (tx_offset tx) (tx_payload tx)"
    using less.prems(1,2) by (auto simp: synced_def)
  have "1 < cfs_left tx" using less.prems(3) unat_u8_less [of ?c] by linarith
  have more: "tx_offset tx + n < length (tx_payload tx)"
  proof (rule ccontr)
    assume "\<not> ?thesis"
    then have "length (tx_payload tx) - tx_offset tx + (6 - is_some_n (tx_addr tx)) < 2 * n"
      by (cases "tx_addr tx") (auto simp: n_def)
    then have "cfs_left tx < 2" using n0 by (simp add: cfs_left_def n_def div_less_iff_less_mult)
    with \<open>1 < cfs_left tx\<close> show False by simp
  qed
  have send: "pipe True k s tx rx result = Some panic"
    if s: "e \<le> s" and k: "2 * (length (tx_payload tx) - tx_offset tx) + 1 \<le> k" for k s
  proof -
    obtain k' where k': "k = Suc k'" using k by (cases k) auto
    show ?thesis
    proof (cases "?c = 255")
      case True
      with tx_counter_overflow [OF e s sn more [unfolded n_def]] k' show ?thesis
        by (cases "tx_next True s tx") simp
    next
      case False
      then have add: "u8_add True ?c 1 = (Ok (?c + 1) :: (u8, isotp_error) res)" and c: "unat (?c + 1) = Suc (unat ?c)"
        using u8_inc [of ?c] by (simp_all add: u8_add_Ok)
      have n: "min (length (tx_payload tx) - tx_offset tx) (7 - is_some_n (tx_addr tx)) = n"
        using more by (simp add: n_def)
      have small: "2 * (length (tx_payload tx) - (tx_offset tx + n)) + 2 \<le> k'"
        using k k' more n0 by linarith
      show ?thesis
      proof (cases rule: synced_step [OF less.prems(1) e s n [symmetric] add])
        case (2 f tx1 rx1)
        with cfs_left_step(1) [OF more n_def 2(4,5,6)] less.prems(3) c
        have "256 < unat (tx_cfs_since_fc tx1) + cfs_left tx1" by simp
        with 2 k' less.hyps [of tx1 rx1 k' s] small off n0 less.prems(2) show ?thesis by simp
      qed (use more less.prems(2) in simp_all)
        qed
  qed
  show ?case
  proof (cases "now < e")
    case True
    then obtain k where "fuel = Suc k" using less.prems(4) by (cases fuel) auto
    moreover from True e have "tx_next True now tx = (Ok (WaitUntil e), tx)"
      by (simp add: tx_next_def)
    ultimately show ?thesis using send [of e k] less.prems(4) by simp
  next
    case False
    then show ?thesis using send [of now fuel] less.prems(4) by simp
  qed
qed

text \<open>In a build with overflow checks, a transfer granted an unlimited block that takes more
  than 256 consecutive frames panics: both machines count the frames since the last flow control
  in a byte, also when the block is unlimited and the count unused.\<close>
theorem unlimited_block_overflows:
  assumes "length payload \<le> 4095" and "256 < length payload div (7 - is_some_n addr)"
    and "2 * length payload + 4 \<le> fuel"
  shows "\<exists>tx. tx_with_addr payload padding n_bs wft_max addr = Ok tx \<and>
    pipe True fuel now tx (rx_with_addr 0 stmin rx_pad n_cr addr) None = Some panic"
proof -
  let ?rx = "rx_with_addr 0 stmin rx_pad n_cr addr"
  have long: "7 < length payload" "payload \<noteq> []" "\<not> length payload \<le> 7 - is_some_n addr"
    using assms(2) by (cases addr; auto)+
  obtain tx where new: "tx_with_addr payload padding n_bs wft_max addr = Ok tx"
    and tx: "tx_payload tx = payload" "tx_addr tx = addr" "tx_state tx = FirstFrame"
    using assms(1) long by (simp add: tx_with_addr_def MAX_PAYLOAD_def Let_def)
  have rx: "rx_addr ?rx = addr" "rx_bs ?rx = 0" by (simp_all add: rx_with_addr_def)
  have ff: "tx_state tx = FirstFrame" "7 - is_some_n (tx_addr tx) < length (tx_payload tx)"
    "length (tx_payload tx) \<le> 4095" "rx_addr ?rx = tx_addr tx"
    using assms(1) long tx rx by simp_all
  obtain f tx1 fc rx1 tx2 where *: "tx_next True now tx = (Ok (Send f), tx1)"
    "rx_on_frame True f now ?rx = (Ok (SendFc fc), rx1)" "tx_on_frame True fc now tx1 = (Ok (), tx2)"
    "synced tx2 rx1" "tx_payload tx2 = payload" "tx_addr tx2 = addr"
    "tx_offset tx2 = 6 - is_some_n addr" "tx_bs tx2 = 0" "tx_cfs_since_fc tx2 = 0"
    by (rule first_frame_transfer [OF ff, of True now]) (unfold tx rx, rule that, assumption+)
  have "cfs_left tx2 = length payload div (7 - is_some_n addr)"
    using * long by (simp add: cfs_left_def)
  moreover obtain k where "fuel = Suc k"
    using assms(3) by (cases fuel) auto
  ultimately have "pipe True fuel now tx ?rx None = Some panic"
    using * pipe_counter_overflow [of tx2 rx1 k now None] assms(2,3) by simp
  with new show ?thesis by blast
qed

lemma unlimited_block_overflows_witness:
  "\<exists>tx. tx_with_addr (replicate 1800 1) None (from_secs 1) 8 None = Ok tx \<and>
    pipe True 3604 0 tx (rx_with_addr 0 0 None (from_secs 1) None) None = Some panic"
  by (rule unlimited_block_overflows) simp_all

section \<open>The transmit machine against any peer\<close>

text \<open>Reference segmentation of a payload into frames.\<close>

lemma cf_frames_measure [termination_simp]: "n + is_some_n a - 6 < Suc n"
  by (cases a) simp_all

fun cf_frames :: "u8 option \<Rightarrow> u8 option \<Rightarrow> u8 \<Rightarrow> bytes \<Rightarrow> bytes list" where
  "cf_frames addr padding sn [] = []"
| "cf_frames addr padding sn (x # xs) =
     cf_frame addr padding sn (x # take (6 - is_some_n addr) xs)
       # cf_frames addr padding ((sn + 1) AND 0x0f) (drop (6 - is_some_n addr) xs)"

definition segments :: "u8 option \<Rightarrow> u8 option \<Rightarrow> bytes \<Rightarrow> bytes list" where
  "segments addr padding p =
     (if length p \<le> 7 - is_some_n addr
      then [pad_frame (start_frame addr @ of_nat (length p) # p) padding]
      else (start_frame addr @ (0x10 OR of_nat (length p div 256)) # of_nat (length p)
              # take (6 - is_some_n addr) p)
            # cf_frames addr padding 1 (drop (6 - is_some_n addr) p))"

text \<open>
  The driver may ask for the next action and feed any received bytes at any time, in any
  order, also after an error; a panic ends the run. \<open>fs\<close> is what has been put on the bus.
\<close>

inductive tx_run :: "bool \<Rightarrow> tx_machine \<Rightarrow> bytes list \<Rightarrow> tx_machine \<Rightarrow> bool" for dbg m0 where
  tx_start: "tx_run dbg m0 [] m0"
| tx_send: "tx_run dbg m0 fs m \<Longrightarrow> tx_next dbg now m = (Ok (Send f), m') \<Longrightarrow> tx_run dbg m0 (fs @ [f]) m'"
| tx_idle: "tx_run dbg m0 fs m \<Longrightarrow> tx_next dbg now m = (r, m') \<Longrightarrow> (\<forall>f. r \<noteq> Ok (Send f))
    \<Longrightarrow> r \<noteq> panic \<Longrightarrow> tx_run dbg m0 fs m'"
| tx_feed: "tx_run dbg m0 fs m \<Longrightarrow> tx_on_frame dbg data now m = (r, m') \<Longrightarrow> tx_run dbg m0 fs m'"

definition tx_inv :: "bytes \<Rightarrow> u8 option \<Rightarrow> u8 option \<Rightarrow> bytes list \<Rightarrow> tx_machine \<Rightarrow> bool" where
  "tx_inv p addr padding fs m \<longleftrightarrow>
     tx_payload m = p \<and> tx_addr m = addr \<and> tx_padding m = padding \<and>
     (case tx_state m of
        SingleFrame \<Rightarrow> fs = [] \<and> length p \<le> 7 - is_some_n addr
      | FirstFrame \<Rightarrow> fs = [] \<and> 7 - is_some_n addr < length p
      | Finished \<Rightarrow> fs = segments addr padding p
      | _ \<Rightarrow> nibble (tx_sn m) \<and> tx_offset m < length p \<and>
             fs @ cf_frames addr padding (tx_sn m) (drop (tx_offset m) p) = segments addr padding p)"

lemma tx_on_frame_preserves:
  assumes "tx_on_frame dbg data now m = (r, m')" and "tx_inv p addr padding fs m"
  shows "tx_inv p addr padding fs m'"
  using assms
  by (auto simp: tx_on_frame_def tx_inv_def Let_def
      split: tx_state.splits if_splits sum.splits option.splits list.splits)

lemma cf_frames_step:
  assumes "off < length p"
  shows "cf_frames addr padding sn (drop off p) =
    cf_frame addr padding sn (take (7 - is_some_n addr) (drop off p))
      # cf_frames addr padding ((sn + 1) AND 0x0f) (drop (off + (7 - is_some_n addr)) p)"
proof -
  obtain x xs where d: "drop off p = x # xs"
    using assms by (cases "drop off p") auto
  have h: "7 - is_some_n addr = Suc (6 - is_some_n addr)" by (cases addr) simp_all
  have "drop (off + (7 - is_some_n addr)) p = drop (6 - is_some_n addr) xs"
    unfolding h add.commute [of off] drop_drop [symmetric] d by simp
  then show ?thesis by (simp add: d h)
qed


lemma tx_next_preserves:
  assumes "tx_next dbg now m = (r, m')" and "tx_inv p addr padding fs m" and "p \<noteq> []"
  shows "case r of Ok (Send f) \<Rightarrow> tx_inv p addr padding (fs @ [f]) m' | Ok _ \<Rightarrow> tx_inv p addr padding fs m'
    | Inl _ \<Rightarrow> True"
proof (cases "tx_state m")
  case SingleFrame
  with assms show ?thesis
    by (auto simp: tx_next_def tx_inv_def segments_def Let_def)
next
  case FirstFrame
  let ?h = "is_some_n addr"
  have inv: "tx_payload m = p" "tx_addr m = addr" "tx_padding m = padding" "fs = []" "7 - ?h < length p"
    using assms(2) FirstFrame by (simp_all add: tx_inv_def)
  have "drop_bit 8 (length p) = length p div 256" by (simp add: drop_bit_eq_div)
  then have "r = Ok (Send (start_frame addr @ (0x10 OR of_nat (length p div 256)) # of_nat (length p)
      # take (6 - ?h) p))" "m' = m\<lparr>tx_offset := 6 - ?h, tx_sn := 1, tx_state := AwaitFc (now + tx_n_bs m)\<rparr>"
    using assms(1) FirstFrame inv by (auto simp: tx_next_def Let_def)
  with inv show ?thesis by (simp add: tx_inv_def segments_def)
next
  case (AwaitFc d)
  with assms show ?thesis by (auto simp: tx_next_def split: if_splits)
next
  case (Consecutive e)
  show ?thesis
  proof (cases "now < e")
    case True
    with assms Consecutive show ?thesis by (auto simp: tx_next_def)
  next
    case False
    let ?k = "7 - is_some_n addr"
    define n where "n = min (length (tx_payload m) - tx_offset m) (7 - is_some_n (tx_addr m))"
    have inv: "tx_payload m = p" "tx_addr m = addr" "tx_padding m = padding" "nibble (tx_sn m)"
      "tx_offset m < length p"
      "fs @ cf_frames addr padding (tx_sn m) (drop (tx_offset m) p) = segments addr padding p"
      using assms(2) Consecutive by (simp_all add: tx_inv_def)
    let ?f = "cf_frame addr padding (tx_sn m) (take ?k (drop (tx_offset m) p))"
    have seg: "(fs @ [?f]) @ cf_frames addr padding ((tx_sn m + 1) AND 0x0f) (drop (tx_offset m + ?k) p)
        = segments addr padding p"
      using inv(5,6) by (simp add: cf_frames_step)
    have eq: "take n (drop (tx_offset m) p) = take ?k (drop (tx_offset m) p)"
      unfolding n_def inv length_drop [symmetric] min.commute [of "length (drop (tx_offset m) p)"]
      by (rule take_min_length)
    have last: "tx_offset m + n = length p \<Longrightarrow> drop (tx_offset m + ?k) p = []"
      "tx_offset m + n \<noteq> length p \<Longrightarrow> n = ?k \<and> tx_offset m + n < length p"
      using inv(5) by (cases "length p - tx_offset m \<le> ?k"; simp add: n_def inv)+
    note eqn = tx_next_cf [OF Consecutive _ _ inv(4) n_def, of now dbg, unfolded inv(1,2,3) eq]
    show ?thesis
    proof (cases "tx_offset m + n = length p")
      case True
      with seg last(1) have "fs @ [?f] = segments addr padding p" by simp
      with True assms(1) eqn False inv(1,2,3,5) show ?thesis
        by (auto simp: Let_def tx_inv_def)
    next
      case notlast: False
      with last(2) have k: "n = ?k" "tx_offset m + n < length p" by auto
      show ?thesis
        using notlast assms(1) eqn False inv seg k
        by (auto simp: Let_def tx_inv_def split: sum.splits)
    qed
  qed
next
  case Finished
  with assms show ?thesis by (auto simp: tx_next_def)
qed


text \<open>The only error the transmit machine returns from \<open>next\<close> is the flow control timeout.\<close>

lemma checked_not_Err [simp]:
  "u8_add dbg a b \<noteq> Err e" "usize_sub dbg i j \<noteq> Err e" "slice xs i j \<noteq> Err e" "idx xs i \<noteq> Err e"
  by (simp_all add: u8_add_def usize_sub_def slice_def idx_def)

lemma tx_next_error:
  "tx_next dbg now m = (Err e, m') \<Longrightarrow>
     m' = m \<and> e = FcTimeout \<and> (\<exists>d. tx_state m = AwaitFc d \<and> d \<le> now)"
  by (auto simp: tx_next_def Let_def split: tx_state.splits if_splits sum.splits)

lemma tx_run_inv:
  assumes "tx_run dbg m0 fs m" and "p \<noteq> []" and "tx_inv p addr padding [] m0"
  shows "tx_inv p addr padding fs m"
  using assms(1)
proof induction
  case tx_start
  then show ?case by (rule assms(3))
next
  case (tx_send fs m now f m')
  then show ?case using tx_next_preserves [OF tx_send(2,3) assms(2)] by simp
next
  case (tx_idle fs m now r m')
  show ?case
  proof (cases r)
    case (Inl e)
    with tx_idle(2,4,5) tx_next_error [of dbg now m] show ?thesis by (cases e) auto
  next
    case (Inr a)
    with tx_next_preserves [OF tx_idle(2,5) assms(2)] tx_idle(3) show ?thesis
      by (auto split: tx_action.splits)
  qed
next
  case (tx_feed fs m data now r m')
  then show ?case by (blast intro: tx_on_frame_preserves)
qed


lemma tx_with_addr_Ok:
  assumes "tx_with_addr p padding n_bs wft_max addr = Ok m"
  shows "p \<noteq> []" and "length p \<le> 4095" and "tx_inv p addr padding [] m"
  using assms by (auto simp: tx_with_addr_def MAX_PAYLOAD_def tx_inv_def Let_def split: if_splits)

text \<open>C3: Whatever frames and clock readings the transmit machine is given, what it has put on
  the bus is a prefix of the reference segmentation of its payload, and once it reports that it
  is done it is the whole segmentation.\<close>
theorem tx_emits_segments:
  assumes "tx_with_addr p padding n_bs wft_max addr = Ok m0" and "tx_run dbg m0 fs m"
  shows "prefix fs (segments addr padding p) \<and>
    (fst (tx_next dbg now m) = Ok TxDone \<longrightarrow> fs = segments addr padding p)"
proof (intro conjI impI)
  have inv: "tx_inv p addr padding fs m"
    by (rule tx_run_inv [OF assms(2) tx_with_addr_Ok(1,3) [OF assms(1)]])
  show "prefix fs (segments addr padding p)"
    using inv by (cases "tx_state m") (auto simp: tx_inv_def prefix_def dest: sym)
  assume "fst (tx_next dbg now m) = Ok TxDone"
  then have "tx_state m = Finished"
    by (auto simp: tx_next_def Let_def split: tx_state.splits if_splits sum.splits)
  with inv show "fs = segments addr padding p" by (simp add: tx_inv_def)
qed


text \<open>A ten-byte payload: first frame, one WAIT, a block of one, the consecutive frame.\<close>

definition ten :: bytes where "ten = [1, 2, 3, 4, 5, 6, 7, 8, 9, 10]"

lemma tx_emits_segments_witness:
  "\<exists>m0 m. tx_with_addr ten (Some 0) 50 8 None = Ok m0 \<and>
    tx_run True m0 [[0x10, 10, 1, 2, 3, 4, 5, 6], [0x21, 7, 8, 9, 10, 0, 0, 0]] m \<and>
    fst (tx_next True 20 m) = Ok TxDone \<and>
    [[0x10, 10, 1, 2, 3, 4, 5, 6], [0x21, 7, 8, 9, 10, 0, 0, 0]] = segments None (Some 0) ten"
proof -
  obtain m0 where m0: "tx_with_addr ten (Some 0) 50 8 None = Ok m0"
    and m0_eq: "m0 = \<lparr>tx_payload = ten, tx_offset = 0, tx_sn = 0, tx_bs = 0, tx_cfs_since_fc = 0,
            tx_stmin = 0, tx_wait_count = 0, tx_wft_max = 8, tx_n_bs = 50,
            tx_padding = Some 0, tx_addr = None, tx_state = FirstFrame\<rparr>"
    by (simp add: tx_with_addr_def MAX_PAYLOAD_def ten_def)
  let ?m1 = "m0\<lparr>tx_offset := 6, tx_sn := 1, tx_state := AwaitFc 50\<rparr>"
  let ?m2 = "?m1\<lparr>tx_wait_count := 1, tx_state := AwaitFc 60\<rparr>"
  let ?m3 = "?m2\<lparr>tx_bs := 1, tx_stmin := from_millis 5, tx_cfs_since_fc := 0,
    tx_wait_count := 0, tx_state := Consecutive 20\<rparr>"
  let ?m4 = "?m3\<lparr>tx_offset := 10, tx_sn := 2, tx_state := Finished\<rparr>"
  have 1: "tx_next True 0 m0 = (Ok (Send [0x10, 10, 1, 2, 3, 4, 5, 6]), ?m1)"
    by (simp add: tx_next_def m0_eq ten_def start_frame_def drop_bit_eq_div)
  have 2: "tx_on_frame True [0x31, 0, 0] 10 ?m1 = (Ok (), ?m2)"
    by (simp add: tx_on_frame_def m0_eq u8_add_def)
  have 3: "tx_on_frame True [0x30, 1, 5] 20 ?m2 = (Ok (), ?m3)"
    by (simp add: tx_on_frame_def m0_eq decode_stmin_def)
  have 4: "tx_next True 20 ?m3 = (Ok (Send [0x21, 7, 8, 9, 10, 0, 0, 0]), ?m4)"
    by (simp add: tx_next_def m0_eq ten_def start_frame_def u8_add_def pad_frame_def vec_resize_def
        numeral_3_eq_3)
  have run: "tx_run True m0 (([] @ [[0x10, 10, 1, 2, 3, 4, 5, 6]]) @ [[0x21, 7, 8, 9, 10, 0, 0, 0]]) ?m4"
    by (rule tx_run.tx_send [OF tx_run.tx_feed [OF tx_run.tx_feed [OF tx_run.tx_send
          [OF tx_run.tx_start 1] 2] 3] 4])
  have fin: "fst (tx_next True 20 ?m4) = Ok TxDone"
    by (simp add: tx_next_def)
  from tx_emits_segments [OF m0 run, of 20] fin m0 run show ?thesis by auto
qed


section \<open>Block size and separation time\<close>

text \<open>Calls of \<open>next\<close> at the given clock readings, no frame received meanwhile: the frames sent,
  with their instants. An error or a panic ends it.\<close>

fun tx_burst :: "bool \<Rightarrow> instant list \<Rightarrow> tx_machine \<Rightarrow> (instant \<times> bytes) list" where
  "tx_burst dbg [] m = []"
| "tx_burst dbg (t # ts) m =
     (case tx_next dbg t m of
        (Inr (Send f), m') \<Rightarrow> (t, f) # tx_burst dbg ts m'
      | (Inr _, m') \<Rightarrow> tx_burst dbg ts m'
      | (Inl _, _) \<Rightarrow> [])"

lemma tx_burst_silent:
  "(\<exists>d. tx_state m = AwaitFc d) \<or> tx_state m = Finished \<Longrightarrow> tx_burst dbg ts m = []"
  by (induction ts arbitrary: m) (auto simp: tx_next_def)

lemma tx_next_consecutive:
  assumes "tx_next dbg now m = (Ok a, m')" and "tx_state m = Consecutive e"
  shows "(now < e \<and> a = WaitUntil e \<and> m' = m) \<or>
    (e \<le> now \<and> (\<exists>f. a = Send f) \<and> tx_bs m' = tx_bs m \<and> tx_stmin m' = tx_stmin m \<and>
      (tx_state m' = Finished \<or> (\<exists>d. tx_state m' = AwaitFc d)
       \<or> tx_state m' = Consecutive (now + tx_stmin m) \<and> tx_cfs_since_fc m' = tx_cfs_since_fc m + 1
         \<and> (tx_bs m \<noteq> 0 \<longrightarrow> tx_cfs_since_fc m + 1 < tx_bs m)))"
proof (cases "now < e")
  case True
  with assms show ?thesis by (simp add: tx_next_def)
next
  case False
  let ?len = "length (tx_payload m)" and ?off = "tx_offset m"
  obtain rem where 1: "usize_sub dbg ?len ?off = (Ok rem :: (nat, isotp_error) res)"
    using assms False
    by (cases "usize_sub dbg ?len ?off :: (nat, isotp_error) res") (simp_all add: tx_next_def Let_def)
  let ?n = "min rem (7 - is_some_n (tx_addr m))"
  obtain d where 2: "slice (tx_payload m) ?off (?off + ?n) = (Ok d :: (bytes, isotp_error) res)"
    using assms False 1
    by (cases "slice (tx_payload m) ?off (?off + ?n) :: (bytes, isotp_error) res")
      (simp_all add: tx_next_def Let_def)
  obtain sn where 3: "u8_add dbg (tx_sn m) 1 = (Ok sn :: (u8, isotp_error) res)"
    using assms False 1 2
    by (cases "u8_add dbg (tx_sn m) 1 :: (u8, isotp_error) res") (simp_all add: tx_next_def Let_def)
  show ?thesis
  proof (cases "?off + ?n \<ge> ?len")
    case True
    with assms False 1 2 3 show ?thesis by (auto simp: tx_next_def Let_def)
  next
    case more: False
    obtain c where 4: "u8_add dbg (tx_cfs_since_fc m) 1 = (Ok c :: (u8, isotp_error) res)"
      using assms False 1 2 3 more
      by (cases "u8_add dbg (tx_cfs_since_fc m) 1 :: (u8, isotp_error) res")
        (simp_all add: tx_next_def Let_def)
    then have "c = tx_cfs_since_fc m + 1" by (simp add: u8_add_def split: if_splits)
    with assms False 1 2 3 4 more show ?thesis
      by (cases "tx_bs m \<noteq> 0 \<and> tx_bs m \<le> c") (auto simp: tx_next_def Let_def not_le)
  qed
qed

lemma unat_inc_less:
  assumes "c < b"
  shows "unat (c + 1 :: u8) = Suc (unat c)"
proof -
  from assms have "unat c < 255"
    using unat_u8_less [of b] unfolding word_less_nat_alt by linarith
  then show ?thesis by (simp add: unat_word_ariths)
qed

lemma tx_burst_block:
  assumes "tx_state m = Consecutive e" and "tx_bs m = 0 \<or> tx_cfs_since_fc m < tx_bs m"
  shows "(tx_bs m \<noteq> 0 \<longrightarrow> length (tx_burst dbg ts m) \<le> unat (tx_bs m) - unat (tx_cfs_since_fc m))
    \<and> (\<forall>x \<in> set (tx_burst dbg ts m). e \<le> fst x)
    \<and> sorted_wrt (\<lambda>x y. fst x + tx_stmin m \<le> fst y) (tx_burst dbg ts m)"
  using assms
proof (induction ts arbitrary: m e)
  case (Cons t ts)
  show ?case
  proof (cases "tx_next dbg t m")
    case (Pair r m')
    show ?thesis
    proof (cases r)
      case (Inl x)
      with Pair show ?thesis by simp
    next
      case (Inr a)
      with Pair have next_eq: "tx_next dbg t m = (Ok a, m')" by simp
      from tx_next_consecutive [OF this Cons.prems(1)] show ?thesis
      proof (elim disjE conjE exE)
        assume "a = WaitUntil e" "m' = m"
        with next_eq Cons.IH [OF Cons.prems] show ?thesis by simp
      next
        fix f
        assume a: "e \<le> t" "a = Send f" and keep: "tx_bs m' = tx_bs m" "tx_stmin m' = tx_stmin m"
          and st: "tx_state m' = Consecutive (t + tx_stmin m)"
          and c: "tx_cfs_since_fc m' = tx_cfs_since_fc m + 1"
          and le: "tx_bs m \<noteq> 0 \<longrightarrow> tx_cfs_since_fc m + 1 < tx_bs m"
        from le have "tx_bs m = 0 \<or> tx_cfs_since_fc m + 1 < tx_bs m" by blast
        with Cons.IH [OF st] keep c
        have IH: "(tx_bs m \<noteq> 0 \<longrightarrow> length (tx_burst dbg ts m') \<le> unat (tx_bs m) - unat (tx_cfs_since_fc m + 1))
          \<and> (\<forall>x \<in> set (tx_burst dbg ts m'). t + tx_stmin m \<le> fst x)
          \<and> sorted_wrt (\<lambda>x y. fst x + tx_stmin m \<le> fst y) (tx_burst dbg ts m')" by simp
        have "unat (tx_cfs_since_fc m + 1) = Suc (unat (tx_cfs_since_fc m))"
          "unat (tx_cfs_since_fc m) < unat (tx_bs m)" if "tx_bs m \<noteq> 0"
          using that Cons.prems(2) unat_inc_less [of "tx_cfs_since_fc m" "tx_bs m"]
          by (auto simp: word_less_nat_alt)
        with IH next_eq a show ?thesis by auto
      qed (use next_eq Cons.prems(2) in \<open>auto simp: tx_burst_silent word_less_nat_alt\<close>)
    qed
  qed
qed simp

text \<open>C4: After a clear-to-send frame with block size \<open>b\<close> and separation time \<open>s\<close>, and until the
  next flow control frame arrives, the transmit machine sends at most \<open>b\<close> frames (if \<open>b\<close> is not
  zero), and any two of them at least the separation time apart, whatever the clock readings.\<close>
theorem tx_honours_flow_control:
  assumes "tx_state m = AwaitFc d"
    and "tx_on_frame dbg (start_frame (tx_addr m) @ [0x30, b, s] @ q) now m = (Ok (), m')"
  shows "(b = 0 \<or> length (tx_burst dbg ts m') \<le> unat b)
    \<and> sorted_wrt (\<lambda>x y. fst x + decode_stmin s \<le> fst y) (tx_burst dbg ts m')"
proof -
  have m': "m' = m\<lparr>tx_bs := b, tx_stmin := decode_stmin s, tx_cfs_since_fc := 0,
              tx_wait_count := 0, tx_state := Consecutive now\<rparr>"
    using assms(2) by (simp only: tx_on_fc_cts [OF assms(1)] prod.inject)
  have "tx_bs m' = 0 \<or> tx_cfs_since_fc m' < tx_bs m'"
    unfolding m' using word_neq_0_conv [of b] by (cases "b = 0") simp_all
  from tx_burst_block [OF _ this, of now dbg ts] show ?thesis
    by (auto simp: m')
qed


text \<open>Two bursts of a 40-byte transfer, block size 3, separation time 10 ms.\<close>

lemma tx_honours_flow_control_witness:
  "\<exists>m m'. tx_state m = AwaitFc 50 \<and> tx_on_frame True [0x30, 3, 10] 7 m = (Ok (), m') \<and>
     length (tx_burst True [7, 8, 10000007, 20000007, 30000007] m') = 3 \<and>
     length (tx_burst True [7, 8, 10000007, 20000007, 30000007] m') \<le> unat (3 :: u8)"
proof -
  let ?m = "\<lparr>tx_payload = replicate 40 1, tx_offset = 6, tx_sn = 1, tx_bs = 0, tx_cfs_since_fc = 0,
            tx_stmin = 0, tx_wait_count = 0, tx_wft_max = 8, tx_n_bs = 50,
            tx_padding = None, tx_addr = None, tx_state = AwaitFc 50\<rparr>"
  let ?m' = "?m\<lparr>tx_bs := 3, tx_stmin := decode_stmin 10, tx_cfs_since_fc := 0,
              tx_wait_count := 0, tx_state := Consecutive 7\<rparr>"
  have st: "tx_state ?m = AwaitFc 50" by simp
  have on: "tx_on_frame True (start_frame (tx_addr ?m) @ [0x30, 3, 10] @ []) 7 ?m = (Ok (), ?m')"
    by (rule tx_on_fc_cts [OF st])
  have "length (tx_burst True [7, 8, 10000007, 20000007, 30000007] ?m') = 3"
    by (simp add: tx_next_def u8_add_def decode_stmin_def word_le_nat_alt)
  moreover have "length (tx_burst True [7, 8, 10000007, 20000007, 30000007] ?m') \<le> unat (3 :: u8)"
    using tx_honours_flow_control [OF st on, of "[7, 8, 10000007, 20000007, 30000007]"] by simp
  moreover have "tx_on_frame True [0x30, 3, 10] 7 ?m = (Ok (), ?m')"
    using on by (simp add: start_frame_def)
  ultimately show ?thesis using st by blast
qed


section \<open>The WAIT limit\<close>

text \<open>\<open>n\<close> WAIT frames in a row; the first error stops.\<close>

fun tx_waits :: "bool \<Rightarrow> nat \<Rightarrow> instant \<Rightarrow> tx_machine \<Rightarrow> (unit, isotp_error) res \<times> tx_machine" where
  "tx_waits dbg 0 now m = (Ok (), m)"
| "tx_waits dbg (Suc n) now m =
     (case tx_on_frame dbg (start_frame (tx_addr m) @ [0x31, 0, 0]) now m of
        (Inl e, m') \<Rightarrow> (Inl e, m')
      | (Inr _, m') \<Rightarrow> tx_waits dbg n now m')"

lemma tx_on_wait:
  assumes "tx_state m = AwaitFc d"
  shows "tx_on_frame dbg (start_frame (tx_addr m) @ [0x31, x, y]) now m =
    (case u8_add dbg (tx_wait_count m) 1 of
       Inl e \<Rightarrow> (Inl e, m)
     | Inr w \<Rightarrow> let m1 = m\<lparr>tx_wait_count := w\<rparr> in
         if w > tx_wft_max m then (Err (WaitLimit (tx_wft_max m)), m1)
         else (Ok (), m1\<lparr>tx_state := AwaitFc (now + tx_n_bs m)\<rparr>))"
  using assms by (cases "tx_addr m") (simp_all add: tx_on_frame_def start_frame_simps)

lemma tx_waits_count:
  assumes "tx_state m = AwaitFc d" and "tx_wft_max m \<noteq> 255" and "tx_wait_count m \<le> tx_wft_max m"
  shows "fst (tx_waits dbg n now m) =
    (if n + unat (tx_wait_count m) \<le> unat (tx_wft_max m) then Ok () else Err (WaitLimit (tx_wft_max m)))"
  using assms
proof (induction n arbitrary: m d)
  case 0
  then show ?case by (simp add: word_le_nat_alt)
next
  case (Suc n)
  let ?w = "tx_wait_count m"
  have "?w \<noteq> 255"
    using Suc.prems(2,3) u8_le_255 by (metis order_antisym)
  note inc = u8_inc [OF this]
  have add: "u8_add dbg ?w 1 = (Ok (?w + 1) :: (u8, isotp_error) res)"
    by (rule u8_add_Ok) (rule inc(1))
  show ?case
  proof (cases "?w + 1 > tx_wft_max m")
    case True
    with inc(2) have "\<not> Suc n + unat ?w \<le> unat (tx_wft_max m)"
      by (simp add: word_less_nat_alt)
    with True show ?thesis by (simp add: tx_on_wait [OF Suc.prems(1)] add)
  next
    case False
    with inc(2) show ?thesis
      using Suc.IH [of "m\<lparr>tx_wait_count := ?w + 1, tx_state := AwaitFc (now + tx_n_bs m)\<rparr>"] Suc.prems(2)
      by (simp add: tx_on_wait [OF Suc.prems(1)] add)
  qed
qed

text \<open>A waiting transmit machine tolerates exactly \<open>wft_max\<close> consecutive WAIT frames: with
  one more it gives up with the limit as its error. This is for a limit below 255.\<close>
theorem tx_wait_limit:
  assumes "tx_state m = AwaitFc d" and "tx_wft_max m \<noteq> 255" and "tx_wait_count m = 0"
  shows "fst (tx_waits dbg n now m) =
    (if n \<le> unat (tx_wft_max m) then Ok () else Err (WaitLimit (tx_wft_max m)))"
  using tx_waits_count [OF assms(1,2), of dbg n now] assms(3) by simp

lemma tx_wait_limit_witness:
  "\<exists>m. tx_state m = AwaitFc 5 \<and> tx_wft_max m = 2 \<and> tx_wait_count m = 0 \<and>
     fst (tx_waits True 2 0 m) = Ok () \<and> fst (tx_waits True 3 0 m) = Err (WaitLimit 2)"
proof -
  let ?m = "\<lparr>tx_payload = replicate 40 1, tx_offset = 6, tx_sn = 1, tx_bs = 0, tx_cfs_since_fc = 0,
            tx_stmin = 0, tx_wait_count = 0, tx_wft_max = 2, tx_n_bs = 50,
            tx_padding = None, tx_addr = None, tx_state = AwaitFc 5\<rparr>"
  have "fst (tx_waits True 2 0 ?m) = Ok ()" "fst (tx_waits True 3 0 ?m) = Err (WaitLimit 2)"
    using tx_wait_limit [of ?m 5 True 2 0] tx_wait_limit [of ?m 5 True 3 0] by simp_all
  then show ?thesis by (intro exI [of _ ?m]) simp
qed

text \<open>With the limit 255 the counter overflows: a release build never gives up however many
  WAIT frames arrive, a build with overflow checks panics at the 256th.\<close>
theorem tx_wait_limit_255:
  assumes "tx_state m = AwaitFc d" and "tx_wft_max m = 255"
  shows "fst (tx_waits False n now m) = Ok () \<and>
    (tx_wait_count m = 255 \<longrightarrow> fst (tx_waits True (Suc n) now m) = panic)"
proof
  show "fst (tx_waits False n now m) = Ok ()"
    using assms
  proof (induction n arbitrary: m d)
    case (Suc n)
    then have "\<not> tx_wft_max m < tx_wait_count m + 1"
      using u8_le_255 by (simp add: not_less)
    with Suc.prems Suc.IH [of "m\<lparr>tx_wait_count := tx_wait_count m + 1, tx_state := AwaitFc (now + tx_n_bs m)\<rparr>"]
    show ?case by (simp add: tx_on_wait [OF Suc.prems(1)])
  qed simp
  show "tx_wait_count m = 255 \<longrightarrow> fst (tx_waits True (Suc n) now m) = panic"
    by (simp add: tx_on_wait [OF assms(1)] u8_add_def)
qed

lemma tx_wait_limit_255_witness:
  "\<exists>m. tx_state m = AwaitFc 5 \<and> tx_wft_max m = 255 \<and> fst (tx_waits False 1000 0 m) = Ok ()
     \<and> tx_wait_count m = 255 \<and> fst (tx_waits True (Suc 0) 0 m) = panic"
proof -
  let ?m = "\<lparr>tx_payload = replicate 40 1, tx_offset = 6, tx_sn = 1, tx_bs = 0, tx_cfs_since_fc = 0,
            tx_stmin = 0, tx_wait_count = 255, tx_wft_max = 255, tx_n_bs = 50,
            tx_padding = None, tx_addr = None, tx_state = AwaitFc 5\<rparr>"
  have "tx_state ?m = AwaitFc 5" "tx_wft_max ?m = 255" "tx_wait_count ?m = 255" by simp_all
  with tx_wait_limit_255 [of ?m 5 1000 0] tx_wait_limit_255 [of ?m 5 0 0] show ?thesis by blast
qed

section \<open>The receive machine against any peer\<close>

text \<open>The outcomes of feeding frames, each with its instant; errors do not stop the feeding.\<close>

fun rx_feed :: "bool \<Rightarrow> (bytes \<times> instant) list \<Rightarrow> rx_machine
    \<Rightarrow> (rx_event, isotp_error) res list \<times> rx_machine" where
  "rx_feed dbg [] m = ([], m)"
| "rx_feed dbg ((f, t) # fs) m =
     (case rx_on_frame dbg f t m of
        (r, m') \<Rightarrow> (case rx_feed dbg fs m' of (rs, m'') \<Rightarrow> (r # rs, m'')))"

lemma rx_done_length:
  assumes "rx_on_frame dbg data now m = (Ok (RxDone p), m')" and "rx_inv m"
  shows "length p \<in> {1..4095}"
proof (cases rule: rx_on_frame_cases [of data dbg now m])
  case (4 pci r)
  have inv: "rx_ff_dl m \<le> 4095" using assms(2) by (simp add: rx_inv_def MAX_PAYLOAD_def)
  consider (single) "rx_single (pci # r) m = (Ok (RxDone p), m')"
    | (first) "rx_first (is_some_n (rx_addr m)) (pci # r) now m = (Ok (RxDone p), m')"
    | (cf) "rx_consecutive dbg (is_some_n (rx_addr m)) (pci # r) now m = (Ok (RxDone p), m')"
    using assms(1) unfolding 4 rx_on_frame_strip by (auto split: if_splits)
  then show ?thesis
  proof cases
    case single
    have "unat (pci AND 0x0f) < 16" by (rule unat_nibble) simp
    with single show ?thesis
      by (auto simp: rx_single_def Let_def split: if_splits)
  next
    case first
    then show ?thesis
      by (auto simp: rx_first_def Let_def split: if_splits sum.splits)
  next
    case cf
    then obtain sn c t where st: "rx_state m = Receiving sn c t"
      by (cases "rx_state m") (auto simp: rx_consecutive_def)
    then have len: "length (rx_buf m) < rx_ff_dl m"
      using assms(2) by (simp add: rx_inv_def)
    with cf inv show ?thesis
      unfolding rx_consecutive_eq [OF st len]
      by (auto simp: Let_def split: if_splits sum.splits)
  qed
qed (use assms(1) in simp_all)

lemma rx_feed_safe:
  assumes "rx_feed False fs m = (rs, m')" and "rx_inv m"
  shows "panic \<notin> set rs \<and> rx_inv m' \<and> {length p | p. Ok (RxDone p) \<in> set rs} \<subseteq> {1..4095}"
  using assms
proof (induction fs arbitrary: m rs)
  case (Cons ft fs)
  obtain f t where ft: "ft = (f, t)" by fastforce
  obtain r m1 where step: "rx_on_frame False f t m = (r, m1)" by fastforce
  obtain rs1 where rest: "rx_feed False fs m1 = (rs1, m')" and rs: "rs = r # rs1"
    using Cons.prems(1) by (auto simp: ft step split: prod.splits)
  have "rx_inv m1" by (rule rx_on_frame_inv [OF step Cons.prems(2)])
  from Cons.IH [OF rest this]
  have IH: "panic \<notin> set rs1" "rx_inv m'" "{length p | p. Ok (RxDone p) \<in> set rs1} \<subseteq> {1..4095}"
    by auto
  have "r \<noteq> panic"
    using rx_on_frame_not_panic [OF Cons.prems(2), of False f t] step by simp
  moreover have "length p \<in> {1..4095}" if "r = Ok (RxDone p)" for p
    using rx_done_length [of False f t m p m1] step Cons.prems(2) that by simp
  ultimately show ?case using IH rs by auto
qed simp

text \<open>C5: A release build's receive machine, fed any frames at any instants, never panics, never
  buffers more than 4095 bytes and only delivers payloads of 1 to 4095 bytes.\<close>
theorem rx_any_input:
  "case rx_feed False fs (rx_with_addr bs stmin padding n_cr addr) of (rs, m) \<Rightarrow>
     panic \<notin> set rs \<and> length (rx_buf m) \<le> 4095 \<and>
     {length p | p. Ok (RxDone p) \<in> set rs} \<subseteq> {1..4095}"
proof (cases "rx_feed False fs (rx_with_addr bs stmin padding n_cr addr)")
  case (Pair rs m)
  from rx_feed_safe [OF this rx_inv_init] show ?thesis
    by (auto simp: Pair rx_inv_def MAX_PAYLOAD_def)
qed

end
