(* ===== verification/IsoTp.thy ===== *)
theory IsoTp
  imports Channel IsoTp_Transfer
begin

text \<open>
  \<open>rmvci-core/src/isotp/mod.rs\<close>: one \<open>IsoTp\<close> type on either path. On the firmware path a
  message is one adapter command; on the host path the machines of \<open>IsoTp_Machine\<close> are driven
  over a raw CAN channel, with the standard library's clock. The loops carry fuel, the outer
  \<open>None\<close> is fuel exhausted; that they end is proved over ports whose writes take time.
\<close>

section \<open>Response pending\<close>

fun is_response_pending :: "bytes \<Rightarrow> bool" where
  "is_response_pending (a # b # c # rest) \<longleftrightarrow> a = 0x7f \<and> c = 0x78"
| "is_response_pending _ \<longleftrightarrow> False"

definition MAX_RESPONSE_PENDING :: nat where "MAX_RESPONSE_PENDING = 30"


function drain_from :: "('s \<Rightarrow> ((bytes, error) res \<times> 's) option) \<Rightarrow> nat \<Rightarrow> 's
    \<Rightarrow> ((bytes, error) res \<times> 's) option" where
  "drain_from recv count s =
     (case recv s of
        None \<Rightarrow> None
      | Some (Inl e, s1) \<Rightarrow> Some (Inl e, s1)
      | Some (Inr resp, s1) \<Rightarrow>
          if is_response_pending resp \<and> count < MAX_RESPONSE_PENDING
          then drain_from recv (count + 1) s1
          else Some (Ok resp, s1))"
  by pat_completeness auto
termination
  by (relation "measure (\<lambda>(recv, count, s). MAX_RESPONSE_PENDING - count)") auto

declare drain_from.simps [simp del]

definition drain_pending :: "('s \<Rightarrow> ((bytes, error) res \<times> 's) option) \<Rightarrow> 's
    \<Rightarrow> ((bytes, error) res \<times> 's) option" where
  "drain_pending recv s = drain_from recv 0 s"

section \<open>Paths and configuration\<close>

datatype isotp_path = FirmwarePath | HostPath

record isotp_config =
  tc_tx_id :: can_id
  tc_rx_id :: can_id
  tc_can :: can_config
  tc_rx_bs :: u8
  tc_rx_stmin :: u8
  tc_padding :: "u8 option"
  tc_n_bs :: duration
  tc_n_cr :: duration
  tc_wft_max :: u8
  tc_ext_addr :: "u8 option"

definition isotp_config_new :: "can_id \<Rightarrow> can_id \<Rightarrow> isotp_config" where
  "isotp_config_new tx rx =
     \<lparr>tc_tx_id = tx, tc_rx_id = rx, tc_can = can_config_default, tc_rx_bs = 0, tc_rx_stmin = 0,
      tc_padding = Some 0, tc_n_bs = from_secs 1, tc_n_cr = from_secs 1, tc_wft_max = 8,
      tc_ext_addr = None\<rparr>"

definition config_ext_addr :: "u8 \<Rightarrow> isotp_config \<Rightarrow> isotp_config" where
  "config_ext_addr a c = c\<lparr>tc_ext_addr := Some a\<rparr>"

definition config_can :: "can_config \<Rightarrow> isotp_config \<Rightarrow> isotp_config" where
  "config_can b c = c\<lparr>tc_can := b\<rparr>"

datatype path_channel = Firmware channel | Host channel

record isotp =
  tp_chan :: path_channel
  tp_cfg :: isotp_config

type_synonym ('a, 's) tp_op = "('a, error, 's device \<times> isotp) op"

definition isotp_path_of :: "isotp \<Rightarrow> isotp_path" where
  "isotp_path_of tp = (case tp_chan tp of Firmware _ \<Rightarrow> FirmwarePath | Host _ \<Rightarrow> HostPath)"

text \<open>The outcome of a loop with fuel.\<close>

type_synonym ('a, 's) outcome = "(('a, error) res \<times> ('s device \<times> isotp)) option"

text \<open>The borrow of the channel on the path that was matched; \<open>host_chan\<close> panics on the other.\<close>

definition on_firmware :: "('a, error, 's device \<times> channel) op \<Rightarrow> channel \<Rightarrow> ('a, 's) tp_op" where
  "on_firmware m c s = (case m (fst s, c) of (r, (d, c')) \<Rightarrow> (r, (d, (snd s)\<lparr>tp_chan := Firmware c'\<rparr>)))"

definition on_host :: "('a, error, 's device \<times> channel) op \<Rightarrow> ('a, 's) tp_op" where
  "on_host m s =
     (case tp_chan (snd s) of
        Firmware _ \<Rightarrow> (panic, s)
      | Host c \<Rightarrow> (case m (fst s, c) of (r, (d, c')) \<Rightarrow> (r, (d, (snd s)\<lparr>tp_chan := Host c'\<rparr>))))"

definition install_filter :: "'s env \<Rightarrow> (unit, 's) tp_op" where
  "install_filter E s =
     (let cfg = tp_cfg (snd s) in
      case tp_chan (snd s) of
        Host _ \<Rightarrow> on_host (set_filter E (encode_can (can_exact (tc_rx_id cfg)))) s
      | Firmware c \<Rightarrow>
          let flt = flow_exact (tc_rx_id cfg) (tc_tx_id cfg);
              flt = (case tc_ext_addr cfg of Some a \<Rightarrow> with_ext_addr a flt | None \<Rightarrow> flt) in
          on_firmware (set_filter E (encode_flow flt)) c s)"

definition connect_deferred :: "'s env \<Rightarrow> isotp_config \<Rightarrow> (isotp, error, 's device) op" where
  "connect_deferred E cfg =
     sbind (dev_connect E Can (can_wire (tc_can cfg))) (\<lambda>c. sreturn \<lparr>tp_chan = Host c, tp_cfg = cfg\<rparr>)"

definition isotp_connect :: "'s env \<Rightarrow> isotp_config \<Rightarrow> isotp_path \<Rightarrow> (isotp, error, 's device) op" where
  "isotp_connect E cfg path =
     (case path of
        FirmwarePath \<Rightarrow>
          sbind (dev_connect E Iso15765 (can_wire (tc_can cfg)))
            (\<lambda>c. sreturn \<lparr>tp_chan = Firmware c, tp_cfg = cfg\<rparr>)
      | HostPath \<Rightarrow> connect_deferred E cfg)"

text \<open>\<open>IsoTp::new\<close>: when the filter is refused the channel just connected is dropped.\<close>

definition chan_of :: "isotp \<Rightarrow> channel" where
  "chan_of tp = (case tp_chan tp of Firmware c \<Rightarrow> c | Host c \<Rightarrow> c)"

definition isotp_new :: "'s env \<Rightarrow> isotp_config \<Rightarrow> isotp_path \<Rightarrow> (isotp, error, 's device) op" where
  "isotp_new E cfg path =
     sbind (isotp_connect E cfg path) (\<lambda>tp d.
       case install_filter E (d, tp) of
         (Inl Panic, (d', tp')) \<Rightarrow> (panic, d')
       | (Inl (Fail e), (d', tp')) \<Rightarrow> (Err e, raw_drop E d' (chan_of tp'))
       | (Inr _, (d', tp')) \<Rightarrow> (Ok tp', d'))"

definition set_endpoints :: "'s env \<Rightarrow> can_id \<Rightarrow> can_id \<Rightarrow> u8 option \<Rightarrow> (unit, 's) tp_op" where
  "set_endpoints E tx rx ext s =
     install_filter E (fst s, (snd s)\<lparr>tp_cfg := (tp_cfg (snd s))\<lparr>tc_tx_id := tx, tc_rx_id := rx,
       tc_ext_addr := ext\<rparr>\<rparr>)"

section \<open>The host path\<close>

definition tp_now :: "'s env \<Rightarrow> 's device \<times> isotp \<Rightarrow> instant \<times> ('s device \<times> isotp)" where
  "tp_now E s =
     (case t_now (ev_io E) (ac_io (dv_actor (fst s))) of
        (now, w) \<Rightarrow> (now, ((fst s)\<lparr>dv_actor := (dv_actor (fst s))\<lparr>ac_io := w\<rparr>\<rparr>, snd s)))"

definition tp_sleep :: "'s env \<Rightarrow> duration \<Rightarrow> 's device \<times> isotp \<Rightarrow> 's device \<times> isotp" where
  "tp_sleep E d s =
     ((fst s)\<lparr>dv_actor := (dv_actor (fst s))\<lparr>ac_io := t_thread_sleep (ev_io E) d (ac_io (dv_actor (fst s)))\<rparr>\<rparr>, snd s)"

definition own_frame :: "isotp_config \<Rightarrow> rx_msg \<Rightarrow> bool" where
  "own_frame cfg m \<longleftrightarrow>
     \<not> is_indication m \<and> length (rx_data m) > 4 \<and> take 4 (rx_data m) = to_wire (tc_rx_id cfg) \<and>
     (case tc_ext_addr cfg of None \<Rightarrow> True | Some a \<Rightarrow> rx_data m ! 4 = a)"

definition poll_frame :: "'s env \<Rightarrow> duration \<Rightarrow> (rx_msg option, 's) tp_op" where
  "poll_frame E budget s =
     sbind (on_host (chan_poll E budget)) (\<lambda>r.
       sreturn (case r of None \<Rightarrow> None
                | Some m \<Rightarrow> if own_frame (tp_cfg (snd s)) m then Some m else None)) s"

definition host_tx :: "'s env \<Rightarrow> bytes \<Rightarrow> (unit, 's) tp_op" where
  "host_tx E f s = on_host (can_send E (tc_tx_id (tp_cfg (snd s))) f) s"

abbreviation stop :: "('a, error) res \<Rightarrow> 's \<Rightarrow> (('a, error) res \<times> 's) option" where
  "stop r s \<equiv> Some (r, s)"

fun host_send_loop :: "'s env \<Rightarrow> nat \<Rightarrow> tx_machine \<Rightarrow> 's device \<times> isotp \<Rightarrow> (unit, 's) outcome" where
  "host_send_loop E 0 tx s = None"
| "host_send_loop E (Suc k) tx s =
     (case tp_now E s of (now, s1) \<Rightarrow>
      case tx_next (ev_dbg E) now tx of
        (Inl e, tx1) \<Rightarrow> stop (map_err IsoTpErr (Inl e)) s1
      | (Inr (Send f), tx1) \<Rightarrow>
          (case host_tx E f s1 of
             (Inl e, s2) \<Rightarrow> stop (Inl e) s2
           | (Inr _, s2) \<Rightarrow> host_send_loop E k tx1 s2)
      | (Inr (WaitFc deadline), tx1) \<Rightarrow>
          (case tp_now E s1 of (now2, s2) \<Rightarrow>
             if now2 \<ge> deadline then host_send_loop E k tx1 s2
             else (case poll_frame E (min (deadline - now2) (from_millis 100)) s2 of
                 (Inl e, s3) \<Rightarrow> stop (Inl e) s3
               | (Inr None, s3) \<Rightarrow> host_send_loop E k tx1 s3
               | (Inr (Some m), s3) \<Rightarrow>
                   (case tp_now E s3 of (now3, s4) \<Rightarrow>
                    case tx_on_frame (ev_dbg E) (drop 4 (rx_data m)) now3 tx1 of
                      (Inl e, tx2) \<Rightarrow> stop (map_err IsoTpErr (Inl e)) s4
                    | (Inr _, tx2) \<Rightarrow> host_send_loop E k tx2 s4)))
      | (Inr (WaitUntil t), tx1) \<Rightarrow>
          (case tp_now E s1 of (now2, s2) \<Rightarrow>
             host_send_loop E k tx1 (if t > now2 then tp_sleep E (t - now2) s2 else s2))
      | (Inr TxDone, tx1) \<Rightarrow> stop (Ok ()) s1)"

definition host_send :: "'s env \<Rightarrow> nat \<Rightarrow> bytes \<Rightarrow> 's device \<times> isotp \<Rightarrow> (unit, 's) outcome" where
  "host_send E k payload s =
     (let cfg = tp_cfg (snd s) in
      case tx_with_addr payload (tc_padding cfg) (tc_n_bs cfg) (tc_wft_max cfg) (tc_ext_addr cfg) of
        Inl e \<Rightarrow> stop (map_err IsoTpErr (Inl e)) s
      | Inr tx \<Rightarrow> host_send_loop E k tx s)"

fun host_recv_loop :: "'s env \<Rightarrow> nat \<Rightarrow> instant \<Rightarrow> duration \<Rightarrow> rx_machine \<Rightarrow> 's device \<times> isotp \<Rightarrow> (bytes, 's) outcome" where
  "host_recv_loop E 0 deadline timeout rx s = None"
| "host_recv_loop E (Suc k) deadline timeout rx s =
     (case tp_now E s of (now, s1) \<Rightarrow>
      case rx_check_timeout rx now of
        Inl e \<Rightarrow> stop (map_err IsoTpErr (Inl e)) s1
      | Inr _ \<Rightarrow>
        if now \<ge> deadline then stop (Err (Timeout timeout)) s1
        else (case poll_frame E (min (deadline - now) (from_millis 200)) s1 of
            (Inl e, s2) \<Rightarrow> stop (Inl e) s2
          | (Inr None, s2) \<Rightarrow> host_recv_loop E k deadline timeout rx s2
          | (Inr (Some m), s2) \<Rightarrow>
              (case tp_now E s2 of (now2, s3) \<Rightarrow>
               case rx_on_frame (ev_dbg E) (drop 4 (rx_data m)) now2 rx of
                 (Inl e, rx1) \<Rightarrow> stop (map_err IsoTpErr (Inl e)) s3
               | (Inr (SendFc fc), rx1) \<Rightarrow>
                   (case host_tx E fc s3 of
                      (Inl e, s4) \<Rightarrow> stop (Inl e) s4
                    | (Inr _, s4) \<Rightarrow> host_recv_loop E k deadline timeout rx1 s4)
               | (Inr (RxDone p), rx1) \<Rightarrow> stop (Ok p) s3
               | (Inr Continue, rx1) \<Rightarrow> host_recv_loop E k deadline timeout rx1 s3)))"

definition host_recv :: "'s env \<Rightarrow> nat \<Rightarrow> duration \<Rightarrow> 's device \<times> isotp \<Rightarrow> (bytes, 's) outcome" where
  "host_recv E k timeout s =
     (let cfg = tp_cfg (snd s);
          rx = rx_with_addr (tc_rx_bs cfg) (tc_rx_stmin cfg) (tc_padding cfg) (tc_n_cr cfg) (tc_ext_addr cfg) in
      case tp_now E s of (now, s1) \<Rightarrow> host_recv_loop E k (now + timeout) timeout rx s1)"

section \<open>Both paths\<close>

text \<open>The message handed to the firmware and its flags.\<close>

definition firmware_message :: "isotp_config \<Rightarrow> bytes \<Rightarrow> bytes \<times> u32" where
  "firmware_message cfg payload =
     (case tc_ext_addr cfg of
        Some a \<Rightarrow> (a # payload, ISO15765_ADDR_TYPE)
      | None \<Rightarrow> (payload, 0))"

definition isotp_send :: "'s env \<Rightarrow> nat \<Rightarrow> bytes \<Rightarrow> 's device \<times> isotp \<Rightarrow> (unit, 's) outcome" where
  "isotp_send E k payload s =
     (case tp_chan (snd s) of
        Host _ \<Rightarrow> host_send E k payload s
      | Firmware c \<Rightarrow>
          (case firmware_message (tp_cfg (snd s)) payload of (buf, flags) \<Rightarrow>
             if length buf > 255 then stop (Err (IsoTpErr (FirmwareFfDlLimit (length buf)))) s
             else Some (on_firmware (send_flags E (tc_tx_id (tp_cfg (snd s))) buf flags) c s)))"

definition firmware_body :: "isotp_config \<Rightarrow> rx_msg \<Rightarrow> bytes" where
  "firmware_body cfg m =
     (let body = drop 4 (rx_data m);
          start = (if tc_ext_addr cfg \<noteq> None \<and> flags_contain (rx_status m) RX_ADDR_TYPE \<and> body \<noteq> []
                   then 1 else 0) in
      drop start body)"

text \<open>The receive loop of the firmware path: \<open>n\<close> is the fuel of each read.\<close>

fun firmware_recv :: "'s env \<Rightarrow> nat \<Rightarrow> nat \<Rightarrow> duration \<Rightarrow> isotp_config \<Rightarrow> 's device \<times> channel
    \<Rightarrow> ((bytes, error) res \<times> ('s device \<times> channel)) option" where
  "firmware_recv E n 0 timeout cfg s = None"
| "firmware_recv E n (Suc k) timeout cfg s =
     (case chan_read E n timeout s of
        None \<Rightarrow> None
      | Some (Inl e, s1) \<Rightarrow> stop (Inl e) s1
      | Some (Inr m, s1) \<Rightarrow>
          if length (rx_data m) > 4 \<and> take 4 (rx_data m) = to_wire (tc_rx_id cfg)
          then stop (Ok (firmware_body cfg m)) s1
          else firmware_recv E n k timeout cfg s1)"

definition isotp_recv :: "'s env \<Rightarrow> nat \<Rightarrow> duration \<Rightarrow> 's device \<times> isotp \<Rightarrow> (bytes, 's) outcome" where
  "isotp_recv E k timeout s =
     (case tp_chan (snd s) of
        Host _ \<Rightarrow> host_recv E k timeout s
      | Firmware c \<Rightarrow>
          map_option (\<lambda>(r, (d, c')). (r, (d, (snd s)\<lparr>tp_chan := Firmware c'\<rparr>)))
            (firmware_recv E k k timeout (tp_cfg (snd s)) (fst s, c)))"

definition isotp_request :: "'s env \<Rightarrow> nat \<Rightarrow> bytes \<Rightarrow> duration \<Rightarrow> 's device \<times> isotp \<Rightarrow> (bytes, 's) outcome" where
  "isotp_request E k req timeout s =
     (case isotp_send E k req s of
        None \<Rightarrow> None
      | Some (Inl e, s1) \<Rightarrow> stop (Inl e) s1
      | Some (Inr _, s1) \<Rightarrow> drain_pending (isotp_recv E k timeout) s1)"

end
