(* ===== verification/Exchanges.thy ===== *)
theory Exchanges
  imports Channel
begin

text \<open>
  What a channel's calls do to the session, for the layers above: each either is refused by the
  actor, is served from the queue of drained messages, or is one exchange. On a logged port an
  exchange writes at most its encrypted command, exactly that when it returns a reply; on a port
  whose writes take time the clock has moved when it returns one. \<open>written_msg\<close> reads a logged
  frame back as the adapter does and tells the message it puts on the vehicle's bus.
\<close>

section \<open>Case analysis of a call\<close>

lemma transact_keeps_key: "transact E i t a = (r, a') \<Longrightarrow>
    ac_key a' = ac_key a \<and> ac_queues a' = ac_queues a"
proof -
  assume t: "transact E i t a = (r, a')"
  obtain q a1 where i: "transact_inner E i t a = (q, a1)" by fastforce
  have "(ac_key a1, ac_queues a1) = (ac_key a, ac_queues a)"
    by (rule keepsD [OF transact_inner_keeps [where g = "\<lambda>a. (ac_key a, ac_queues a)"] i]) simp_all
  with t i show ?thesis by (auto simp: transact_def note_silence_def Let_def)
qed

text \<open>What a caller sees of a request: a panic in the actor's thread closes the session.\<close>

fun seen :: "'s device \<Rightarrow> ('a, error) res \<times> 's actor \<Rightarrow> ('a, error) res \<times> 's device" where
  "seen d (Inl Panic, a) = (Err Closed, d\<lparr>dv_actor := a, dv_alive := False\<rparr>)"
| "seen d (Inl (Fail e), a) = (Err e, d\<lparr>dv_actor := a\<rparr>)"
| "seen d (Inr v, a) = (Ok v, d\<lparr>dv_actor := a\<rparr>)"

lemma seen_props:
  "seen d (q, a) = (r, d') \<Longrightarrow> dv_actor d' = a"
  "seen d (q, a) = (r, d') \<Longrightarrow> r = Ok v \<longleftrightarrow> q = Ok v"
  by (cases "(d, q, a)" rule: seen.cases; auto)+

lemma dev_refused:
  assumes "\<not> (dv_alive d \<and> \<not> ac_wedged (dv_actor d))"
  shows "dev_request E req d = (Err (if dv_alive d then Wedged (ac_silent (dv_actor d)) else Closed), d)"
  using assms by (auto simp: dev_request_def handle_def)

lemma dev_request_seen:
  assumes "dv_alive d"
  shows "dev_request E req d = seen d (handle E req (dv_actor d))"
proof -
  obtain r a where h: "handle E req (dv_actor d) = (r, a)" by fastforce
  show ?thesis
    using assms by (cases "(d, r, a)" rule: seen.cases) (simp_all add: dev_request_def h)
qed

lemma dev_transact_seen:
  assumes "dv_alive d" and "\<not> ac_wedged (dv_actor d)"
  shows "dev_transact E i t d = seen d (transact E i t (dv_actor d))"
proof -
  obtain r a where h: "transact E i t (dv_actor d) = (r, a)" by fastforce
  then have "handle E (ReqTransact i t) (dv_actor d) = (case r of Inl e \<Rightarrow> (Inl e, a) | Inr v \<Rightarrow> (Ok (ABytes v), a))"
    using assms(2) by (cases r) (simp_all add: handle_def)
  then show ?thesis
    unfolding dev_transact_def sbind_def dev_request_seen [OF assms(1)] h
    by (cases "(d, r, a)" rule: seen.cases) simp_all
qed

lemma dev_transact_cases:
  assumes "dev_transact E i t d = (r, d')"
  obtains (refused) e where "r = Err e" "d' = d"
  | (exchange) q a' where "transact E i t (dv_actor d) = (q, a')" "dv_actor d' = a'" "\<And>v. r = Ok v \<longleftrightarrow> q = Ok v"
proof (cases "dv_alive d \<and> \<not> ac_wedged (dv_actor d)")
  case False
  from assms have "(Err (if dv_alive d then Wedged (ac_silent (dv_actor d)) else Closed), d) = (r, d')"
    by (simp only: dev_transact_def sbind_def dev_refused [OF False] prod.case sum.case)
  then show thesis by (metis prod.inject refused)
next
  case True
  obtain q a' where q: "transact E i t (dv_actor d) = (q, a')" by fastforce
  with assms True have "seen d (q, a') = (r, d')" by (simp add: dev_transact_seen)
  from exchange [OF q] seen_props [OF this] show thesis by simp
qed

lemma poll_proto_cases:
  assumes "poll_proto E p t d = (r, d')"
  obtains (refused) e where "r = Err e" "d' = d"
  | (queued) m ms where "ac_queues (dv_actor d) p = Some (m # ms)" "r = Ok (Some m)"
      "dv_actor d' = (dv_actor d)\<lparr>ac_queues := (ac_queues (dv_actor d))(p := Some ms)\<rparr>"
  | (exchange) q a' where "transact E (read_poll p) t (dv_actor d) = (q, a')" "dv_actor d' = a'"
      "\<And>v. r = Ok v \<Longrightarrow> \<exists>b. q = Ok b"
proof (cases "dv_alive d \<and> \<not> ac_wedged (dv_actor d)")
  case False
  from assms have "(Err (if dv_alive d then Wedged (ac_silent (dv_actor d)) else Closed), d) = (r, d')"
    by (simp only: poll_proto_def sbind_def dev_refused [OF False] prod.case sum.case)
  then show thesis by (metis prod.inject refused)
next
  case alive: True
  let ?h = "handle E (ReqPoll p t) (dv_actor d)"
  have poll: "(case seen d ?h of (Inl e, d1) \<Rightarrow> (Inl e, d1) | (Inr v, d1) \<Rightarrow> (answer_msg v, d1)) = (r, d')"
    using assms alive unfolding poll_proto_def sbind_def slift_def
    by (simp add: dev_request_seen split: prod.split_asm)
  show thesis
  proof (cases "ac_queues (dv_actor d) p = None \<or> ac_queues (dv_actor d) p = Some []")
    case False
    then obtain m ms where qs: "ac_queues (dv_actor d) p = Some (m # ms)"
      by (cases "ac_queues (dv_actor d) p"; cases "the (ac_queues (dv_actor d) p)") auto
    then have "?h = (Ok (AMsg (Some m)), (dv_actor d)\<lparr>ac_queues := (ac_queues (dv_actor d))(p := Some ms)\<rparr>)"
      using alive by (simp add: handle_def actor_poll_def)
    with poll qs show thesis by (intro queued) auto
  next
    case True
    obtain q a' where q: "transact E (read_poll p) t (dv_actor d) = (q, a')" by fastforce
    have h: "?h = (case q of Inl e \<Rightarrow> (Inl e, a')
        | Inr b \<Rightarrow> (rbind (codec (parse_read_reply b)) (\<lambda>pr. Ok (AMsg (msg_of_reply pr))), a'))"
      using alive True q
      by (cases q) (auto simp: handle_def actor_poll_def sbind_def rbind_def split: sum.split)
    obtain x where x: "?h = (x, a')" and ok: "\<And>v. x = Ok v \<Longrightarrow> \<exists>b. q = Ok b"
      unfolding h by (cases q) auto
    obtain y d1 where y: "seen d (x, a') = (y, d1)" by fastforce
    have "d1 = d'" and "\<And>v. r = Ok v \<Longrightarrow> \<exists>w. y = Ok w"
      using poll unfolding x y by (cases y; simp)+
    with seen_props [OF y] ok exchange [OF q] show thesis by blast
  qed
qed

text \<open>A write on a raw channel: refused before the wire, or one exchange of the message command.\<close>

lemma raw_write_cases:
  assumes "raw_write E fl msg (d, c) = (r, (d', c'))"
  obtains (refused) e where "r = Err e" "d' = d" "c' = c"
  | (exchange) cm q where "write_msg (rc_proto c) fl msg = Ok cm"
      "dev_transact E cm (from_millis 1000) d = (q, d')" "c' = c" "\<And>v. r = Ok v \<Longrightarrow> \<exists>w. q = Ok w" "r \<noteq> panic"
proof (cases "write_msg (rc_proto c) fl msg")
  case (Inl e)
  with assms refused show thesis
    by (cases "write_bounds (rc_proto c)") (auto simp: raw_write_def write_msg_def codec_def split: if_splits)
next
  case (Inr cm)
  obtain q d1 where t: "dev_transact E cm (from_millis 1000) d = (q, d1)" by fastforce
  obtain x d2 c1 where st: "raw_status E cm WriteMsg (from_millis 1000) (d, c) = (x, (d2, c1))"
    by (metis surj_pair)
  have "c1 = c" "x \<noteq> panic"
    using raw_status_not_panic [of E cm WriteMsg "from_millis 1000" "(d, c)"] keepsD [OF raw_status_chan st] st
    by simp_all
  moreover have "d2 = d1" "\<And>v. x = Ok v \<Longrightarrow> \<exists>w. q = Ok w"
    using st t by (cases q; auto simp: raw_status_def on_dev_def sbind_def split: sum.splits if_splits)+
  ultimately have c1: "c1 = c" "x \<noteq> panic" "d2 = d1" "\<And>v. x = Ok v \<Longrightarrow> \<exists>w. q = Ok w" by blast+
  show thesis
  proof (cases "raw_write E fl msg (d, c) = (x, (d2, c1))")
    case True
    with assms have "r = x" "d2 = d'" "c' = c1" by auto
    with exchange [OF Inr] t c1 show thesis by blast
  next
    case False
    with st Inr have "\<exists>e. raw_write E fl msg (d, c) = (Err e, (d, c))"
      by (cases "write_bounds (rc_proto c)") (auto simp: raw_write_def codec_def)
    with assms refused show thesis by auto
  qed
qed

text \<open>The queues of drained messages are left alone by an exchange.\<close>

abbreviation "cqueues \<equiv> \<lambda>s :: 's device \<times> 'z raw_channel_scheme. ac_queues (dv_actor (fst s))"

lemma dev_transact_queues:
  "dev_transact E i t d = (r, d') \<Longrightarrow> ac_queues (dv_actor d') = ac_queues (dv_actor d)"
  by (erule dev_transact_cases) (auto dest: transact_keeps_key)

lemma raw_status_queues: "raw_status E i c t s = (r, s') \<Longrightarrow> cqueues s' = cqueues s"
proof -
  assume st: "raw_status E i c t s = (r, s')"
  obtain q d where t: "dev_transact E i t (fst s) = (q, d)" by fastforce
  then have "fst s' = d"
    using st by (cases q) (auto simp: raw_status_def on_dev_def sbind_def split: sum.splits if_splits)
  with dev_transact_queues [OF t] show ?thesis by simp
qed

lemma raw_write_queues: "raw_write E fl msg s = (r, s') \<Longrightarrow> cqueues s' = cqueues s \<and> snd s' = snd s"
proof -
  assume w: "raw_write E fl msg s = (r, s')"
  then have "raw_write E fl msg (fst s, snd s) = (r, (fst s', snd s'))" by simp
  then show ?thesis
    by (cases rule: raw_write_cases) (auto dest: dev_transact_queues)
qed

section \<open>Time\<close>

locale paced_session = paced_clock "ev_io E" time for E :: "'s env" and time

sublocale paced_session \<subseteq> session_clock E time ..

lemma io_op_Ok: "io_op m s = (Ok v, s') \<longleftrightarrow> m s = (Ok v, s')"
  by (auto simp: io_op_def split: prod.splits)

lemma on_io_Ok: "on_io m a = (Ok v, a') \<longleftrightarrow> (\<exists>s. m (ac_io a) = (Ok v, s) \<and> a' = a\<lparr>ac_io := s\<rparr>)"
  by (auto simp: on_io_def split: prod.splits)

context paced_session
begin

lemma transact_takes:
  assumes "transact E i t a = (Ok v, a')"
  shows "time (ac_io a) < time (ac_io a')"
proof -
  from assms obtain a9 where in_: "transact_inner E i t a = (Ok v, a9)" and io: "ac_io a' = ac_io a9"
    by (auto simp: transact_def split: prod.splits)
  from in_ obtain f a1 a2 where 1: "on_io (io_op (t_purge_rx (ev_io E))) a = (Ok (), a1)"
    and 2: "on_io (io_op (t_write_all (ev_io E) f)) a1 = (Ok (), a2)"
    and 3: "sbind (stamp (ev_io E)) (\<lambda>_. sbind (on_io (read_frame (ev_io E) t)) (\<lambda>raw.
       sbind (stamp (ev_io E)) (\<lambda>_. slift (codec (decode_encrypted (ev_dbg E) (ev_dec E) (ac_key a) raw))))) a2
       = (Ok v, a9)"
    unfolding transact_inner_def by (auto simp: sbind_eq_Ok)
  have rest: "advances atime (sbind (stamp (ev_io E)) (\<lambda>_. sbind (on_io (read_frame (ev_io E) t)) (\<lambda>raw.
       sbind (stamp (ev_io E)) (\<lambda>_. slift (codec (decode_encrypted (ev_dbg E) (ev_dec E) (ac_key a) raw))))))"
    by (intro advances_sbind advances_pure advances_on_io advances_stamp advances_read_frame)
  have "time (ac_io a) \<le> time (ac_io a1)"
    using 1 forward(3) [of "ac_io a"] by (auto simp: on_io_Ok io_op_Ok)
  also have "time (ac_io a1) < time (ac_io a2)"
    using 2 write_takes [of "ac_io a1" f] by (auto simp: on_io_Ok io_op_Ok)
  also have "time (ac_io a2) \<le> time (ac_io a9)"
    using advancesD [OF rest 3] by simp
  finally show ?thesis by (simp add: io)
qed

end

text \<open>A poll that succeeds takes a queued message or moves the clock on; so does a read.\<close>

definition cqueued :: "'s device \<times> 'z raw_channel_scheme \<Rightarrow> nat" where
  "cqueued s = (case cqueues s (rc_proto (snd s)) of None \<Rightarrow> 0 | Some q \<Rightarrow> length q)"

context paced_session
begin

definition moved_on :: "'s device \<times> 'z raw_channel_scheme \<Rightarrow> 's device \<times> 'z raw_channel_scheme \<Rightarrow> bool" where
  "moved_on s s' \<longleftrightarrow> ctime s \<le> ctime s' \<and> cqueued s' \<le> cqueued s \<and> (ctime s < ctime s' \<or> cqueued s' < cqueued s)"

lemma raw_poll_moves:
  assumes "raw_poll E b s = (Ok v, s')"
  shows "moved_on s s' \<and> snd s' = snd s"
proof -
  obtain d where p: "poll_proto E (rc_proto (snd s)) b (fst s) = (Ok v, d)" and s': "s' = (d, snd s)"
    using assms by (auto simp: raw_poll_def on_dev_def split: prod.splits)
  from p show ?thesis
  proof (cases rule: poll_proto_cases)
    case (exchange x a')
    from exchange(3) [OF refl] obtain w where "x = Ok w" ..
    with exchange(1) have "transact E (read_poll (rc_proto (snd s))) b (dv_actor (fst s)) = (Ok w, a')" by (simp only:)
    from transact_takes [OF this] transact_keeps_key [OF this] exchange(2) show ?thesis
      by (simp add: moved_on_def cqueued_def s')
  next
    case (queued m ms)
    then show ?thesis by (simp add: moved_on_def cqueued_def s')
  qed simp
qed

lemma chan_now_sleep_quiet:
  "chan_now E s = (Ok now, s') \<Longrightarrow> ctime s \<le> now \<and> now \<le> ctime s' \<and> cqueued s' = cqueued s \<and> snd s' = snd s"
  "snd (chan_sleep E d s) = s' \<Longrightarrow> ctime s \<le> ctime s' \<and> cqueued s' = cqueued s \<and> snd s' = snd s"
  using now_between [of "ac_io (dv_actor (fst s))"] slept [of "ac_io (dv_actor (fst s))" d]
  by (auto simp: chan_now_def chan_sleep_def cqueued_def split: prod.splits)

lemma raw_read_loop_moves:
  "raw_read_loop E k dl t s = Some (Ok m, s') \<Longrightarrow> moved_on s s' \<and> snd s' = snd s"
proof (induction k arbitrary: s)
  case (Suc k)
  obtain r now s1 where n: "chan_now E s = (r, s1)" "r = Ok now"
    by (cases "t_now (ev_io E) (ac_io (dv_actor (fst s)))") (auto simp: chan_now_def)
  note n1 = chan_now_sleep_quiet(1) [OF n(1) [unfolded n(2)]]
  have go: "dl - now \<noteq> 0" using Suc.prems n by (auto simp: Let_def)
  let ?b = "min (dl - now) (from_millis 500)"
  obtain q s2 where p: "raw_poll E ?b s1 = (q, s2)" by (metis surj_pair)
  then obtain v where q: "q = Ok v" using Suc.prems n go by (cases q) (auto simp: Let_def)
  note m2 = raw_poll_moves [OF p [unfolded q]]
  define s3 where "s3 = snd (chan_sleep E (from_millis 2) s2)"
  note n3 = chan_now_sleep_quiet(2) [OF s3_def [symmetric]]
  from Suc.prems n go p q have "s' = s2 \<or> raw_read_loop E k dl t s3 = Some (Ok m, s')"
    by (auto simp: Let_def s3_def split: option.splits if_splits)
  then show ?case
  proof
    assume "s' = s2"
    with m2 n1 show ?thesis by (auto simp: moved_on_def)
  next
    assume "raw_read_loop E k dl t s3 = Some (Ok m, s')"
    from Suc.IH [OF this] m2 n1 n3 show ?thesis by (auto simp: moved_on_def)
  qed
qed simp

lemma raw_read_moves:
  assumes "raw_read E k t s = Some (Ok m, s')"
  shows "moved_on s s' \<and> snd s' = snd s"
proof -
  obtain r now s1 where n: "chan_now E s = (r, s1)" "r = Ok now"
    by (cases "t_now (ev_io E) (ac_io (dv_actor (fst s)))") (auto simp: chan_now_def)
  note n1 = chan_now_sleep_quiet(1) [OF n(1) [unfolded n(2)]]
  have "raw_read_loop E k (now + t) t s1 = Some (Ok m, s')"
    using assms n by (simp add: raw_read_def)
  from raw_read_loop_moves [OF this] n1 show ?thesis by (auto simp: moved_on_def)
qed

end

interpretation mock_paced: paced_session "mock_env d e c" mk_now for d e c
  by (unfold paced_session_def mock_env_simps) (rule mock_clock.paced_clock_axioms)

section \<open>Messages put on the bus\<close>

definition written_msg :: "'s env \<Rightarrow> bytes \<Rightarrow> bytes \<Rightarrow> bytes list" where
  "written_msg E key w =
     (case decode_encrypted (ev_dbg E) (ev_dec E) key w of
        Inl _ \<Rightarrow> []
      | Inr inner \<Rightarrow> (case decode_command inner of
            Some (c, args) \<Rightarrow> if c = cmd_u8 WriteMsg then [drop 8 args] else []
          | None \<Rightarrow> []))"

definition written_msgs :: "'s env \<Rightarrow> bytes \<Rightarrow> bytes list \<Rightarrow> bytes list" where
  "written_msgs E key ws = concat (map (written_msg E key) ws)"

lemma written_msgs_simps [simp]:
  "written_msgs E key [] = []" "written_msgs E key [w] = written_msg E key w"
  "written_msgs E key (vs @ ws) = written_msgs E key vs @ written_msgs E key ws"
  by (simp_all add: written_msgs_def)

lemma written_msg_of:
  assumes "block_cipher (ev_enc E) (ev_dec E)" and "encode_encrypted (ev_dbg E) (ev_enc E) key (ilen n @ c # args @ pad) = Ok f"
    and "n = length args" and "n < 65535"
  shows "written_msg E key f = (if c = cmd_u8 WriteMsg then [drop 8 args] else [])"
proof -
  have "decode_encrypted (ev_dbg E) (ev_dec E) key f = Ok (padded (ilen n @ c # args @ pad))"
    by (rule encrypted_decodes [OF assms(1) _ assms(2)]) simp
  moreover have "decode_command (padded (ilen n @ c # args @ pad)) = Some (c, args)"
    using decode_command_ilen [OF assms(3)] assms(3,4) by (simp add: padded_def)
  ultimately show ?thesis by (simp add: written_msg_def)
qed

lemma written_msg_poll:
  assumes "block_cipher (ev_enc E) (ev_dec E)" and "encode_encrypted (ev_dbg E) (ev_enc E) key (read_poll p) = Ok f"
  shows "written_msg E key f = []"
proof -
  have "read_poll p = ilen 4 @ cmd_u8 ReadMsg # u32_le (wire p) @ [0]"
    by (simp add: read_poll_def)
  from assms(2) [unfolded this]
  have "written_msg E key f = (if cmd_u8 ReadMsg = cmd_u8 WriteMsg then [drop 8 (u32_le (wire p))] else [])"
    by (rule written_msg_of [OF assms(1)]) simp_all
  then show ?thesis by simp
qed

lemma written_msg_write:
  assumes "block_cipher (ev_enc E) (ev_dec E)" and "write_msg p fl m = Ok c"
    and "encode_encrypted (ev_dbg E) (ev_enc E) key c = Ok f"
  shows "written_msg E key f = [m]"
proof -
  let ?args = "u32_le (wire p) @ u32_le fl @ m"
  have c: "length m \<le> 4100" "c = ilen (8 + length m) @ cmd_u8 WriteMsg # ?args @ []"
    using assms(2) by (auto simp: write_msg_def MAX_MSG_def split: if_splits)
  have "encode_encrypted (ev_dbg E) (ev_enc E) key (ilen (8 + length m) @ cmd_u8 WriteMsg # ?args @ []) = Ok f"
    using assms(3) unfolding c(2) .
  from written_msg_of [OF assms(1) this] c(1)
  have "written_msg E key f = [drop 8 ?args]" by (simp only: length_append length_byte_order if_True) simp
  then show ?thesis by simp
qed

context session_log
begin

lemma transact_writes_Ok:
  assumes "transact E i t a = (Ok v, a')"
  obtains f where "encode_encrypted (ev_dbg E) (ev_enc E) (ac_key a) i = Ok f"
    and "wrote (ac_io a') = wrote (ac_io a) @ [f]"
proof -
  from assms obtain a9 where in_: "transact_inner E i t a = (Ok v, a9)" and io: "ac_io a' = ac_io a9"
    by (auto simp: transact_def split: prod.splits)
  from in_ obtain f a1 a2 where 0: "encode_encrypted (ev_dbg E) (ev_enc E) (ac_key a) i = Ok f"
    and 1: "on_io (io_op (t_purge_rx (ev_io E))) a = (Ok (), a1)"
    and 2: "on_io (io_op (t_write_all (ev_io E) f)) a1 = (Ok (), a2)"
    and 3: "sbind (stamp (ev_io E)) (\<lambda>_. sbind (on_io (read_frame (ev_io E) t)) (\<lambda>raw.
       sbind (stamp (ev_io E)) (\<lambda>_. slift (codec (decode_encrypted (ev_dbg E) (ev_dec E) (ac_key a) raw))))) a2
       = (Ok v, a9)"
    unfolding transact_inner_def by (auto simp: sbind_eq_Ok codec_def)
  have "wrote (ac_io a1) = wrote (ac_io a)"
    using logsD [OF logs_on_io [OF logs_io(1)] 1] by simp
  moreover have "wrote (ac_io a2) = wrote (ac_io a1) @ [f]"
    using logsD [OF logs_on_io [OF logs_write] 2] by simp
  moreover have "wrote (ac_io a9) = wrote (ac_io a2)"
  proof -
    have "logs (\<lambda>a. wrote (ac_io a)) {[]} (sbind (stamp (ev_io E)) (\<lambda>_. sbind (on_io (read_frame (ev_io E) t)) (\<lambda>raw.
       sbind (stamp (ev_io E)) (\<lambda>_. slift (codec (decode_encrypted (ev_dbg E) (ev_dec E) (ac_key a) raw))))))"
      by (intro logs_after_silent logs_stamp logs_on_io logs_read_frame) simp_all
    from logsD [OF this 3] show ?thesis by simp
  qed
  ultimately show thesis using that [OF 0] by (simp add: io)
qed

abbreviation "dwrote \<equiv> \<lambda>d :: 's device. wrote (ac_io (dv_actor d))"

lemma dev_transact_writes:
  assumes "dev_transact E i t d = (r, d')"
  obtains (none) "dwrote d' = dwrote d" "\<And>v. r \<noteq> Ok v"
  | (one) f where "encode_encrypted (ev_dbg E) (ev_enc E) (ac_key (dv_actor d)) i = Ok f" "dwrote d' = dwrote d @ [f]"
  using assms
proof (cases rule: dev_transact_cases)
  case (refused e)
  with none show thesis by simp
next
  case (exchange q a')
  show thesis
  proof (cases q)
    case (Inl e)
    with transact_writes [OF exchange(1)] exchange none one show thesis by auto
  next
    case (Inr v)
    with exchange one show thesis by (auto elim: transact_writes_Ok)
  qed
qed

end

end
