(* ===== verification/IsoTp_Paths.thy ===== *)
theory IsoTp_Paths
  imports IsoTp Exchanges
begin

text \<open>
  Correctness of the ISO-TP layer: the draining of response-pending frames, what the host path's
  driver puts on the bus and that it ends, the firmware path's messages.
\<close>

section \<open>Draining\<close>

text \<open>\<open>replies recv s xs s'\<close>: the calls of \<open>recv\<close> from \<open>s\<close> yield \<open>xs\<close> and lead to \<open>s'\<close>.\<close>

fun replies :: "('s \<Rightarrow> ((bytes, error) res \<times> 's) option) \<Rightarrow> 's \<Rightarrow> bytes list \<Rightarrow> 's \<Rightarrow> bool" where
  "replies recv s [] s' \<longleftrightarrow> s' = s"
| "replies recv s (x # xs) s' \<longleftrightarrow> (\<exists>s1. recv s = Some (Ok x, s1) \<and> replies recv s1 xs s')"

lemma replies_append: "replies recv s (xs @ ys) s' \<longleftrightarrow> (\<exists>s1. replies recv s xs s1 \<and> replies recv s1 ys s')"
  by (induction xs arbitrary: s) auto

lemma drain_from_replies:
  assumes "replies recv s ps s1" and "\<forall>p \<in> set ps. is_response_pending p" and "n + length ps \<le> MAX_RESPONSE_PENDING"
  shows "drain_from recv n s = drain_from recv (n + length ps) s1"
  using assms
proof (induction ps arbitrary: s n)
  case (Cons p ps)
  then obtain s0 where "recv s = Some (Ok p, s0)" "replies recv s0 ps s1" by auto
  with Cons.IH [of s0 "Suc n"] Cons.prems show ?case
    by (simp add: drain_from.simps [of recv n])
qed simp

lemma drain_from_total:
  assumes "P s" and "\<And>s. P s \<Longrightarrow> \<exists>r s'. recv s = Some (r, s') \<and> P s'"
  shows "\<exists>r s'. drain_from recv n s = Some (r, s') \<and> P s'"
  using assms
proof (induction recv n s rule: drain_from.induct)
  case (1 recv n s)
  obtain r s1 where r: "recv s = Some (r, s1)" "P s1" using "1.prems" by blast
  show ?case
  proof (cases "\<exists>x. r = Ok x \<and> is_response_pending x \<and> n < MAX_RESPONSE_PENDING")
    case True
    with r "1.IH" [OF r(1) refl] "1.prems"(2) show ?thesis
      by (auto simp: drain_from.simps [of recv n])
  next
    case False
    with r show ?thesis
      by (cases r) (auto simp: drain_from.simps [of recv n])
  qed
qed

section \<open>The host path's channel\<close>

text \<open>What the loops of the host path rely on: the session key, the configuration and the channel's
  protocol do not change; the channel is a host one.\<close>

definition host_view :: "'s device \<times> isotp \<Rightarrow> bytes \<times> isotp_config \<times> protocol_id option" where
  "host_view s = (ac_key (dv_actor (fst s)), tp_cfg (snd s),
     (case tp_chan (snd s) of Firmware _ \<Rightarrow> None | Host c \<Rightarrow> Some (rc_proto c)))"

text \<open>The messages queued for the channel by idle polls.\<close>

definition host_queued :: "'s device \<times> isotp \<Rightarrow> nat" where
  "host_queued s =
     (case tp_chan (snd s) of Firmware _ \<Rightarrow> 0
      | Host c \<Rightarrow> (case ac_queues (dv_actor (fst s)) (rc_proto c) of None \<Rightarrow> 0 | Some q \<Rightarrow> length q))"

lemma tp_now_view [simp]: "host_view (snd (tp_now E s)) = host_view s" "host_queued (snd (tp_now E s)) = host_queued s"
  by (simp_all add: tp_now_def host_view_def host_queued_def split: prod.split path_channel.split)

lemma tp_sleep_view [simp]: "host_view (tp_sleep E d s) = host_view s" "host_queued (tp_sleep E d s) = host_queued s"
  by (simp_all add: tp_sleep_def host_view_def host_queued_def split: path_channel.split)

text \<open>A poll of the host channel is a call of \<open>poll_proto\<close>; a frame it returns passed the check.\<close>

lemma poll_frame_poll:
  assumes "poll_frame E b s = (r, s')" and "tp_chan (snd s) = Host c"
  obtains q where "poll_proto E (rc_proto c) b (fst s) = (q, fst s')" and "snd s' = (snd s)\<lparr>tp_chan := Host c\<rparr>"
    and "case q of Inl e \<Rightarrow> r = Inl e | Inr _ \<Rightarrow> \<exists>v. r = Ok v"
    and "\<And>m. r = Ok (Some m) \<Longrightarrow> own_frame (tp_cfg (snd s)) m \<and> q = Ok (Some m)"
proof -
  obtain q d where p: "poll_proto E (rc_proto c) b (fst s) = (q, d)" by fastforce
  show thesis
    using assms p
    by (cases q) (auto simp: poll_frame_def on_host_def chan_poll_def raw_poll_def on_dev_def intro!: that split: if_splits option.splits)
qed

lemma poll_frame_view:
  assumes "poll_frame E b s = (r, s')" and "host_view s = (k, cfg, Some p)"
  shows "host_view s' = host_view s" and "r \<noteq> panic"
proof -
  obtain c where c: "tp_chan (snd s) = Host c" "rc_proto c = p"
    using assms(2) by (auto simp: host_view_def split: path_channel.splits)
  from assms(1) c(1) obtain q where q: "poll_proto E (rc_proto c) b (fst s) = (q, fst s')"
    and s': "snd s' = (snd s)\<lparr>tp_chan := Host c\<rparr>" and r: "case q of Inl e \<Rightarrow> r = Inl e | Inr _ \<Rightarrow> \<exists>v. r = Ok v"
    by (rule poll_frame_poll)
  have "ac_key (dv_actor (fst s')) = ac_key (dv_actor (fst s))"
    using q by (cases rule: poll_proto_cases) (auto dest: transact_keeps_key)
  with s' c show "host_view s' = host_view s" by (simp add: host_view_def)
  show "r \<noteq> panic"
    using r dev_calls_not_panic(4) [of E "rc_proto c" b "fst s"] q by (auto split: sum.splits)
qed

lemma host_tx_cases:
  assumes "host_tx E f s = (r, s')" and "tp_chan (snd s) = Host c"
  obtains (refused) e where "r = Err e" "s' = s"
  | (exchange) fl cm q where "write_msg (rc_proto c) fl (to_wire (tc_tx_id (tp_cfg (snd s))) @ f) = Ok cm"
      "dev_transact E cm (from_millis 1000) (fst s) = (q, fst s')" "snd s' = snd s"
      "\<And>v. r = Ok v \<Longrightarrow> \<exists>w. q = Ok w" "r \<noteq> panic"
proof -
  let ?i = "tc_tx_id (tp_cfg (snd s))"
  obtain fl where fl: "can_send E ?i f (fst s, c) = raw_write E fl (to_wire ?i @ f) (fst s, c)"
    by (simp add: can_send_def send_flags_def Let_def)
  obtain x d' c' where w: "raw_write E fl (to_wire ?i @ f) (fst s, c) = (x, (d', c'))" by (metis surj_pair)
  have same: "(snd s)\<lparr>tp_chan := Host c\<rparr> = snd s"
    using assms(2) by (cases "snd s") simp
  have "host_tx E f s = (x, (d', (snd s)\<lparr>tp_chan := Host c'\<rparr>))"
    using assms(2) fl w by (simp add: host_tx_def on_host_def)
  with assms(1) have rs: "r = x" "s' = (d', (snd s)\<lparr>tp_chan := Host c'\<rparr>)" by auto
  from w show thesis
  proof (cases rule: raw_write_cases)
    case (refused e)
    with rs same show thesis by (intro that(1)) auto
  next
    case (exchange cm q)
    with rs same show thesis by (intro that(2)) auto
  qed
qed

lemma host_tx_view:
  assumes "host_tx E f s = (r, s')" and "host_view s = (k, cfg, Some p)"
  shows "host_view s' = host_view s" and "host_queued s' = host_queued s" and "r \<noteq> panic"
proof -
  obtain c where c: "tp_chan (snd s) = Host c"
    using assms(2) by (auto simp: host_view_def split: path_channel.splits)
  have "host_view s' = host_view s \<and> host_queued s' = host_queued s \<and> r \<noteq> panic"
    using assms(1) c
  proof (cases rule: host_tx_cases)
    case (exchange fl cm q)
    from exchange(2) have "ac_key (dv_actor (fst s')) = ac_key (dv_actor (fst s))
        \<and> ac_queues (dv_actor (fst s')) = ac_queues (dv_actor (fst s))"
      by (cases rule: dev_transact_cases) (auto dest: transact_keeps_key)
    with exchange(3,5) show ?thesis by (simp add: host_view_def host_queued_def split: path_channel.split)
  qed simp
  then show "host_view s' = host_view s" and "host_queued s' = host_queued s" and "r \<noteq> panic" by auto
qed

section \<open>The host loops end\<close>

context paced_session
begin

abbreviation "htime \<equiv> \<lambda>s :: 's device \<times> isotp. time (ac_io (dv_actor (fst s)))"

lemma tp_now_between:
  assumes "tp_now E s = (now, s')"
  shows "htime s \<le> now" "now \<le> htime s'" "host_view s' = host_view s" "host_queued s' = host_queued s"
proof -
  have s': "s' = snd (tp_now E s)" using assms by simp
  show "htime s \<le> now" "now \<le> htime s'"
    using assms now_between [of "ac_io (dv_actor (fst s))"] by (auto simp: tp_now_def split: prod.splits)
  show "host_view s' = host_view s" "host_queued s' = host_queued s"
    unfolding s' by simp_all
qed

lemma tp_sleep_time: "htime s + d \<le> htime (tp_sleep E d s)"
  using slept [of "ac_io (dv_actor (fst s))" d] by (simp add: tp_sleep_def)

lemma poll_frame_progress:
  assumes "poll_frame E b s = (Ok v, s')" and "host_view s = (k, cfg, Some p)"
  shows "htime s \<le> htime s' \<and> host_queued s' \<le> host_queued s
    \<and> (htime s < htime s' \<or> host_queued s' < host_queued s)"
proof -
  obtain c where c: "tp_chan (snd s) = Host c"
    using assms(2) by (auto simp: host_view_def split: path_channel.splits)
  from assms(1) c obtain q where q: "poll_proto E (rc_proto c) b (fst s) = (q, fst s')"
    and s': "snd s' = (snd s)\<lparr>tp_chan := Host c\<rparr>"
    and r: "case q of Inl e \<Rightarrow> (Ok v :: (_, error) res) = Inl e | Inr _ \<Rightarrow> \<exists>w. (Ok v :: (_, error) res) = Ok w"
    by (rule poll_frame_poll) (rule that)
  have ok: "\<exists>v. q = Ok v" using r by (cases q) simp_all
  from q show ?thesis
  proof (cases rule: poll_proto_cases)
    case (exchange x a')
    from ok obtain u where "q = Ok u" ..
    from exchange(3) [OF this] obtain w where "x = Ok w" ..
    with exchange(1) have "transact E (read_poll (rc_proto c)) b (dv_actor (fst s)) = (Ok w, a')" by (simp only:)
    from transact_takes [OF this] transact_keeps_key [OF this]
    have "htime s < htime s'" "ac_queues (dv_actor (fst s')) = ac_queues (dv_actor (fst s))"
      by (simp_all only: exchange(2))
    with s' c show ?thesis by (simp add: host_queued_def)
  next
    case (queued m ms)
    then have "host_queued s = Suc (length ms)" "host_queued s' = length ms" "htime s' = htime s"
      by (simp_all add: host_queued_def s' c)
    then show ?thesis by simp
  qed (use ok in simp)
qed

lemma host_tx_time:
  assumes "host_tx E f s = (Ok v, s')" and "host_view s = (k, cfg, Some p)"
  shows "htime s \<le> htime s'"
proof -
  obtain c where c: "tp_chan (snd s) = Host c"
    using assms(2) by (auto simp: host_view_def split: path_channel.splits)
  from assms(1) c show ?thesis
  proof (cases rule: host_tx_cases)
    case (exchange fl cm q)
    obtain w where "q = Ok w" using exchange(4) [OF refl] by blast
    with exchange(2) have "dev_transact E cm (from_millis 1000) (fst s) = (Ok w, fst s')" by (simp only:)
    then show ?thesis
    proof (cases rule: dev_transact_cases)
      case (exchange q a')
      have "transact E cm (from_millis 1000) (dv_actor (fst s)) = (Ok w, dv_actor (fst s'))"
        using exchange(1,2) exchange(3) [of w] by blast
      from transact_takes [OF this] show ?thesis by (rule less_imp_le)
    qed simp
  qed simp
qed

text \<open>Every round of the receive loop takes a queued message or moves the clock on.\<close>

lemma host_recv_loop_ends:
  assumes "host_view s = (key, cfg, Some p)" and "deadline - htime s + host_queued s \<le> n"
  shows "\<exists>r s'. host_recv_loop E (Suc n) deadline timeout rx s = Some (r, s') \<and> host_view s' = host_view s"
  using assms
proof (induction n arbitrary: s rx rule: less_induct)
  case (less n)
  obtain now s1 where 1: "tp_now E s = (now, s1)" by (metis surj_pair)
  note t1 = tp_now_between [OF 1]
  show ?case
  proof (cases "rx_check_timeout rx now")
    case (Inl e)
    with 1 t1 show ?thesis by simp
  next
    case ok: (Inr u)
    show ?thesis
    proof (cases "now \<ge> deadline")
      case True
      with 1 t1 ok show ?thesis by simp
    next
      case False
      let ?b = "min (deadline - now) (from_millis 200)"
      obtain r s2 where 2: "poll_frame E ?b s1 = (r, s2)" by (metis surj_pair)
      have v1: "host_view s1 = (key, cfg, Some p)" using t1(3) less.prems(1) by simp
      note t2 = poll_frame_view(1) [OF 2 v1]
      show ?thesis
      proof (cases r)
        case (Inl e)
        with 1 2 ok False t1 t2 show ?thesis by simp
      next
        case (Inr v)
        from poll_frame_progress [OF 2 [unfolded Inr] v1] t1 False less.prems(2)
        have dec: "deadline - htime s2 + host_queued s2 < n" by arith
        then obtain n' where n: "n = Suc n'" by (cases n) auto
        have again: "\<exists>r s'. host_recv_loop E n deadline timeout rx1 s3 = Some (r, s') \<and> host_view s' = host_view s"
          if "htime s2 \<le> htime s3" "host_view s3 = host_view s" "host_queued s3 = host_queued s2" for rx1 s3
          using less.IH [of n' s3 rx1] that dec less.prems(1) n by auto
        show ?thesis
        proof (cases v)
          case None
          with 1 2 ok False Inr again [of s2 rx] t1 t2 show ?thesis by simp
        next
          case (Some m)
          obtain now2 s3 where 3: "tp_now E s2 = (now2, s3)" by (metis surj_pair)
          note t3 = tp_now_between [OF 3]
          have v3: "host_view s3 = (key, cfg, Some p)" using t3 t2 v1 by simp
          obtain q rx1 where q: "rx_on_frame (ev_dbg E) (drop 4 (rx_data m)) now2 rx = (q, rx1)" by fastforce
          note step = 1 2 3 ok False Inr Some q
          show ?thesis
          proof (cases q)
            case (Inr ev)
            show ?thesis
            proof (cases ev)
              case (SendFc fc)
              obtain x s4 where 4: "host_tx E fc s3 = (x, s4)" by (metis surj_pair)
              note t4 = host_tx_view [OF 4 v3]
              have "host_view s4 = host_view s" "host_queued s4 = host_queued s2"
                using t4 t3 t2 t1 by simp_all
              moreover have "htime s2 \<le> htime s4" if "x = Ok ()"
                using host_tx_time [OF 4 [unfolded that] v3] t3 by simp
              ultimately show ?thesis
                using step 4 SendFc \<open>q = Inr ev\<close> again [of s4 rx1] by (cases x) simp_all
            qed (use step \<open>q = Inr ev\<close> again [of s3 rx1] t1 t2 t3 in simp_all)
          qed (use step t1 t2 t3 in simp_all)
        qed
      qed
    qed
  qed
qed

end

text \<open>A bound on the frames still to send, the phase within a block, the WAIT frames still tolerated.\<close>

definition tx_rank :: "tx_machine \<Rightarrow> nat" where
  "tx_rank m =
     (let left = length (tx_payload m) - tx_offset m in
      case tx_state m of
        Finished \<Rightarrow> 0 | SingleFrame \<Rightarrow> 1 | FirstFrame \<Rightarrow> 2 * length (tx_payload m) + 2
      | AwaitFc _ \<Rightarrow> 2 * left + 1 | Consecutive _ \<Rightarrow> 2 * left)"

definition tx_waits :: "tx_machine \<Rightarrow> nat" where
  "tx_waits m = unat (tx_wft_max m) - unat (tx_wait_count m)"

definition waits_bounded :: "bool \<Rightarrow> tx_machine \<Rightarrow> bool" where
  "waits_bounded dbg m \<longleftrightarrow> (dbg \<or> tx_wft_max m \<noteq> 255) \<and> tx_wait_count m \<le> tx_wft_max m"

lemma tx_next_waiting:
  "tx_next dbg now m = (Ok (WaitFc d), m') \<Longrightarrow> m' = m \<and> tx_state m = AwaitFc d \<and> now < d"
  "tx_next dbg now m = (Ok (WaitUntil d), m') \<Longrightarrow> m' = m \<and> tx_state m = Consecutive d \<and> now < d"
  by (auto simp: tx_next_def Let_def split: tx_state.splits if_splits sum.splits)

lemma tx_next_send_rank:
  assumes "tx_next dbg now m = (Ok (Send f), m')" and "tx_inv p addr padding fs m" and "p \<noteq> []"
  shows "tx_rank m' < tx_rank m" and "waits_bounded dbg m' = waits_bounded dbg m"
proof -
  have "tx_rank m' < tx_rank m \<and> tx_wft_max m' = tx_wft_max m \<and> tx_wait_count m' = tx_wait_count m"
  proof (cases "tx_state m")
    case SingleFrame
    with assms(1) show ?thesis by (auto simp: tx_next_def tx_rank_def Let_def)
  next
    case FirstFrame
    with assms(1,3) show ?thesis
      by (auto simp: tx_next_def tx_rank_def Let_def split: sum.splits)
  next
    case (Consecutive e)
    with assms(2) have inv: "tx_payload m = p" "tx_offset m < length p" by (simp_all add: tx_inv_def)
    from Consecutive assms(1) show ?thesis
      using inv
      by (cases "tx_addr m") (auto simp: tx_next_def tx_rank_def Let_def split: sum.splits if_splits)
  qed (use assms(1) in \<open>auto simp: tx_next_def split: if_splits\<close>)
  then show "tx_rank m' < tx_rank m" and "waits_bounded dbg m' = waits_bounded dbg m"
    by (simp_all add: waits_bounded_def)
qed

lemma tx_on_frame_awaiting:
  assumes "tx_on_frame dbg data now m = (Ok u, m')" and "tx_state m = AwaitFc d"
  shows "m' = m
    \<or> (\<exists>b t. m' = m\<lparr>tx_bs := b, tx_stmin := t, tx_cfs_since_fc := 0, tx_wait_count := 0, tx_state := Consecutive now\<rparr>)
    \<or> (\<exists>w. u8_add dbg (tx_wait_count m) 1 = (Ok w :: (_, isotp_error) res) \<and> w \<le> tx_wft_max m
        \<and> m' = m\<lparr>tx_wait_count := w, tx_state := AwaitFc (now + tx_n_bs m)\<rparr>)"
  using assms
  by (simp add: tx_on_frame_def Let_def not_less split: if_split_asm sum.split_asm prod.split_asm; blast?)

lemma tx_on_frame_rank:
  assumes "tx_on_frame dbg data now m = (Ok u, m')" and "tx_state m = AwaitFc d" and "waits_bounded dbg m"
  shows "waits_bounded dbg m'" and "m' = m \<or> tx_rank m' < tx_rank m \<or> tx_rank m' = tx_rank m \<and> tx_waits m' < tx_waits m"
proof -
  from tx_on_frame_awaiting [OF assms(1,2)] consider "m' = m"
    | b t where "m' = m\<lparr>tx_bs := b, tx_stmin := t, tx_cfs_since_fc := 0, tx_wait_count := 0, tx_state := Consecutive now\<rparr>"
    | w where "u8_add dbg (tx_wait_count m) 1 = (Ok w :: (_, isotp_error) res)" "w \<le> tx_wft_max m"
        "m' = m\<lparr>tx_wait_count := w, tx_state := AwaitFc (now + tx_n_bs m)\<rparr>"
    by blast
  then have "waits_bounded dbg m' \<and> (m' = m \<or> tx_rank m' < tx_rank m \<or> tx_rank m' = tx_rank m \<and> tx_waits m' < tx_waits m)"
  proof cases
    case (3 w)
    have lim: "unat (tx_wait_count m) \<le> unat (tx_wft_max m)" "dbg \<or> tx_wft_max m \<noteq> 255"
      using assms(3) by (simp_all add: waits_bounded_def word_le_nat_alt)
    have "unat w = Suc (unat (tx_wait_count m))"
    proof (cases "tx_wait_count m = 255")
      case True
      with 3(1) lim u8_le_255 [of "tx_wft_max m"] have "tx_wft_max m = 255"
        by (metis assms(3) order_antisym waits_bounded_def)
      with 3(1) True lim show ?thesis by (auto simp: u8_add_def)
    next
      case False
      then show ?thesis using 3(1) u8_inc by (auto simp: u8_add_def split: if_splits)
    qed
    moreover have "unat w \<le> unat (tx_wft_max m)" using 3(2) by (simp add: word_le_nat_alt)
    ultimately have "unat (tx_wft_max m) - unat w < unat (tx_wft_max m) - unat (tx_wait_count m)" by linarith
    then show ?thesis
      using 3(2,3) lim(2) assms(2) by (simp add: waits_bounded_def tx_rank_def tx_waits_def)
  qed (use assms(2,3) in \<open>auto simp: waits_bounded_def tx_rank_def Let_def\<close>)
  then show "waits_bounded dbg m'" and "m' = m \<or> tx_rank m' < tx_rank m \<or> tx_rank m' = tx_rank m \<and> tx_waits m' < tx_waits m"
    by auto
qed

text \<open>The rounds of the send loop in lexicographic order: frames left, WAIT frames tolerated, then
  the time until the current deadline with the messages queued.\<close>

context paced_session
begin

definition tx_pause :: "tx_machine \<Rightarrow> 's device \<times> isotp \<Rightarrow> nat" where
  "tx_pause m s = (case tx_state m of AwaitFc d \<Rightarrow> d - htime s + host_queued s
     | Consecutive t \<Rightarrow> t - htime s | _ \<Rightarrow> 0)"

lemma host_send_loop_ends:
  assumes "host_view s = (key, cfg, Some pr)" and "p \<noteq> []" and "tx_inv p addr padding fs tx"
    and "waits_bounded (ev_dbg E) tx"
  shows "\<exists>k r s'. host_send_loop E k tx s = Some (r, s') \<and> host_view s' = host_view s"
  using assms(1,3,4)
proof (induction "(tx_rank tx, tx_waits tx, tx_pause tx s)" arbitrary: tx s fs
    rule: wf_induct_rule [OF wf_lex_prod [OF wf_less_than wf_lex_prod [OF wf_less_than wf_less_than]]])
  case (1 tx s fs)
  note prems = 1(2-4)
  have IH: "\<exists>k r s''. host_send_loop E k tx' s' = Some (r, s'') \<and> host_view s'' = host_view s"
    if "tx_rank tx' < tx_rank tx \<or> tx_rank tx' = tx_rank tx \<and>
          (tx_waits tx' < tx_waits tx \<or> tx_waits tx' = tx_waits tx \<and> tx_pause tx' s' < tx_pause tx s)"
      and "host_view s' = host_view s" "tx_inv p addr padding fs' tx'" "waits_bounded (ev_dbg E) tx'" for tx' s' fs'
    using 1(1) [of tx' s' fs'] that prems(1) by auto
  obtain now s1 where n1: "tp_now E s = (now, s1)" by (metis surj_pair)
  note t1 = tp_now_between [OF n1]
  have v1: "host_view s1 = (key, cfg, Some pr)" using t1(3) prems(1) by simp
  obtain r tx1 where x: "tx_next (ev_dbg E) now tx = (r, tx1)" by fastforce
  show ?case
  proof (cases r)
    case (Inl e)
    with n1 x t1 show ?thesis by (intro exI [of _ "Suc 0"]) simp
  next
    case (Inr a)
    note x = x [unfolded Inr]
    show ?thesis
    proof (cases a)
      case (Send f)
      note x = x [unfolded Send]
      obtain q s2 where q: "host_tx E f s1 = (q, s2)" by (metis surj_pair)
      note t2 = host_tx_view [OF q v1]
      show ?thesis
      proof (cases q)
        case (Inl e)
        with n1 x q t1 t2 show ?thesis by (intro exI [of _ "Suc 0"]) simp
      next
        case (Inr u)
        have "tx_inv p addr padding (fs @ [f]) tx1" using tx_next_preserves [OF x prems(2) assms(2)] by simp
        moreover note tx_next_send_rank [OF x prems(2) assms(2)]
        ultimately obtain k r s'' where "host_send_loop E k tx1 s2 = Some (r, s'')" "host_view s'' = host_view s"
          using IH [of tx1 s2 "fs @ [f]"] t2 t1 prems(3) by auto
        with n1 x q Inr show ?thesis by (intro exI [of _ "Suc k"]) simp
      qed
    next
      case (WaitFc d)
      note x = x [unfolded WaitFc]
      note st = tx_next_waiting(1) [OF x]
      obtain now2 s2 where n2: "tp_now E s1 = (now2, s2)" by (metis surj_pair)
      note t2 = tp_now_between [OF n2]
      have v2: "host_view s2 = (key, cfg, Some pr)" using t2(3) v1 by simp
      show ?thesis
      proof (cases "now2 \<ge> d")
        case True
        then have "tx_pause tx s2 < tx_pause tx s"
          using st t1 t2 by (simp add: tx_pause_def) arith
        then obtain k r s'' where "host_send_loop E k tx s2 = Some (r, s'')" "host_view s'' = host_view s"
          using IH [of tx s2 fs] t2 t1 prems by auto
        with n1 x n2 st True show ?thesis by (intro exI [of _ "Suc k"]) simp
      next
        case False
        let ?b = "min (d - now2) (from_millis 100)"
        obtain q s3 where q: "poll_frame E ?b s2 = (q, s3)" by (metis surj_pair)
        note t3 = poll_frame_view(1) [OF q v2]
        show ?thesis
        proof (cases q)
          case (Inl e)
          with n1 x n2 False q t1 t2 t3 show ?thesis by (intro exI [of _ "Suc 0"]) simp
        next
          case (Inr v)
          have dec: "tx_pause tx s4 < tx_pause tx s" if "htime s3 \<le> htime s4" "host_queued s4 = host_queued s3" for s4
            using poll_frame_progress [OF q [unfolded Inr] v2] st t1 t2 that by (simp add: tx_pause_def) arith
          show ?thesis
          proof (cases v)
            case None
            obtain k r s'' where "host_send_loop E k tx s3 = Some (r, s'')" "host_view s'' = host_view s"
              using IH [of tx s3 fs] dec [of s3] t3 t2 t1 prems by auto
            with n1 x n2 st False q Inr None show ?thesis by (intro exI [of _ "Suc k"]) simp
          next
            case (Some m)
            obtain now3 s4 where n3: "tp_now E s3 = (now3, s4)" by (metis surj_pair)
            note t4 = tp_now_between [OF n3]
            obtain y tx2 where y: "tx_on_frame (ev_dbg E) (drop 4 (rx_data m)) now3 tx = (y, tx2)" by fastforce
            show ?thesis
            proof (cases y)
              case (Inl e)
              with n1 x n2 st False q \<open>q = Inr v\<close> Some n3 y t1 t2 t3 t4 show ?thesis
                by (intro exI [of _ "Suc 0"]) simp
            next
              case (Inr u)
              note rank = tx_on_frame_rank [OF y [unfolded Inr] conjunct1 [OF conjunct2 [OF st]] prems(3)]
              have "htime s3 \<le> htime s4" using t4 by simp
              with rank(2) dec [of s4] t4(4)
              have "tx_rank tx2 < tx_rank tx \<or> tx_rank tx2 = tx_rank tx \<and>
                (tx_waits tx2 < tx_waits tx \<or> tx_waits tx2 = tx_waits tx \<and> tx_pause tx2 s4 < tx_pause tx s)"
                by auto
              from IH [OF this _ tx_on_frame_preserves [OF y prems(2)] rank(1)] t4 t3 t2 t1
              obtain k r s'' where "host_send_loop E k tx2 s4 = Some (r, s'')" "host_view s'' = host_view s" by auto
              with n1 x n2 st False q \<open>q = Inr v\<close> Some n3 y Inr show ?thesis by (intro exI [of _ "Suc k"]) simp
            qed
          qed
        qed
      qed
    next
      case (WaitUntil t)
      note x = x [unfolded WaitUntil]
      note st = tx_next_waiting(2) [OF x]
      obtain now2 s2 where n2: "tp_now E s1 = (now2, s2)" by (metis surj_pair)
      note t2 = tp_now_between [OF n2]
      define s3 where "s3 = (if t > now2 then tp_sleep E (t - now2) s2 else s2)"
      have "t \<le> htime s3"
        using tp_sleep_time [of s2 "t - now2"] t2 unfolding s3_def by (cases "t > now2") auto
      then have "tx_pause tx s3 < tx_pause tx s" using st t1 by (simp add: tx_pause_def)
      moreover have "host_view s3 = host_view s" using t1 t2 by (simp add: s3_def)
      ultimately obtain k r s'' where "host_send_loop E k tx s3 = Some (r, s'')" "host_view s'' = host_view s"
        using IH [of tx s3 fs] prems by auto
      with n1 x n2 st show ?thesis by (intro exI [of _ "Suc k"]) (simp add: s3_def)
    next
      case TxDone
      with n1 x t1 show ?thesis by (intro exI [of _ "Suc 0"]) simp
    qed
  qed
qed

end

lemma host_send_loop_more:
  "host_send_loop E k tx s = Some x \<Longrightarrow> k \<le> k' \<Longrightarrow> host_send_loop E k' tx s = Some x"
proof (induction k arbitrary: tx s k')
  case (Suc k)
  then obtain j where j: "k' = Suc j" "k \<le> j" by (cases k') auto
  have IH: "host_send_loop E k tx s = Some x \<Longrightarrow> host_send_loop E j tx s = Some x" for tx s
    by (rule Suc.IH [OF _ j(2)])
  show ?case
    using Suc.prems(1) unfolding j(1)
    by (auto split: prod.splits sum.splits tx_action.splits option.splits if_splits intro: IH)
qed simp

lemma host_recv_loop_more:
  "host_recv_loop E k dl t rx s = Some x \<Longrightarrow> k \<le> k' \<Longrightarrow> host_recv_loop E k' dl t rx s = Some x"
proof (induction k arbitrary: rx s k')
  case (Suc k)
  then obtain j where j: "k' = Suc j" "k \<le> j" by (cases k') auto
  have IH: "host_recv_loop E k dl t rx s = Some x \<Longrightarrow> host_recv_loop E j dl t rx s = Some x" for rx s
    by (rule Suc.IH [OF _ j(2)])
  show ?case
    using Suc.prems(1) unfolding j(1)
    by (auto split: prod.splits sum.splits rx_event.splits option.splits if_splits intro: IH)
qed simp

section \<open>What the host path puts on the bus\<close>

lemma tx_inv_prefix: "tx_inv p addr padding fs m \<Longrightarrow> prefix fs (segments addr padding p)"
  by (cases "tx_state m") (auto simp: tx_inv_def prefix_def dest: sym)

lemma tx_done_whole:
  "tx_next dbg now m = (Ok TxDone, m') \<Longrightarrow> tx_inv p addr padding fs m \<Longrightarrow> fs = segments addr padding p"
  by (cases "tx_state m") (auto simp: tx_next_def tx_inv_def Let_def split: if_splits sum.splits)

context session_log
begin

abbreviation "hwrote \<equiv> \<lambda>s :: 's device \<times> isotp. wrote (ac_io (dv_actor (fst s)))"

text \<open>From \<open>s\<close> to \<open>s'\<close> the messages \<open>ms\<close> were put on the bus, among polls.\<close>

definition puts :: "'s device \<times> isotp \<Rightarrow> 's device \<times> isotp \<Rightarrow> bytes list \<Rightarrow> bool" where
  "puts s s' ms \<longleftrightarrow> host_view s' = host_view s \<and>
     (\<exists>ws. hwrote s' = hwrote s @ ws \<and> written_msgs E (fst (host_view s)) ws = ms)"

lemma puts_silent: "hwrote s' = hwrote s \<Longrightarrow> host_view s' = host_view s \<Longrightarrow> puts s s' []"
  by (simp add: puts_def)

lemma puts_trans: "puts s s1 ms \<Longrightarrow> puts s1 s2 ns \<Longrightarrow> puts s s2 (ms @ ns)"
  by (force simp: puts_def)

lemma puts_then: "puts s s1 [] \<Longrightarrow> puts s1 s2 ns \<Longrightarrow> puts s s2 ns"
  using puts_trans [of s s1 "[]"] by simp

lemma puts_now: "tp_now E s = (now, s') \<Longrightarrow> puts s s' []"
proof (rule puts_silent)
  assume n: "tp_now E s = (now, s')"
  then have s': "s' = snd (tp_now E s)" by simp
  show "host_view s' = host_view s" unfolding s' by simp
  obtain x w where t: "t_now (ev_io E) (ac_io (dv_actor (fst s))) = (x, w)" by fastforce
  have "wrote w = hwrote s"
    using others_silent(5) [of "ac_io (dv_actor (fst s))"] unfolding t by simp
  then show "hwrote s' = hwrote s" unfolding s' tp_now_def t by simp
qed

lemma puts_sleep: "puts s (tp_sleep E d s) []"
  by (rule puts_silent) (simp_all add: tp_sleep_def host_view_def)

lemma puts_poll:
  assumes "block_cipher (ev_enc E) (ev_dec E)" and "poll_frame E b s = (r, s')" and "host_view s = (key, cfg, Some p)"
  shows "puts s s' []"
proof -
  obtain c where c: "tp_chan (snd s) = Host c"
    using assms(3) by (auto simp: host_view_def split: path_channel.splits)
  from assms(2) c obtain q where q: "poll_proto E (rc_proto c) b (fst s) = (q, fst s')"
    by (rule poll_frame_poll)
  note v = poll_frame_view(1) [OF assms(2,3)]
  from q show ?thesis
  proof (cases rule: poll_proto_cases)
    case (exchange x a')
    from transact_writes [OF exchange(1)]
    have "hwrote s' = hwrote s \<or> (\<exists>f. encode_encrypted (ev_dbg E) (ev_enc E) (ac_key (dv_actor (fst s))) (read_poll (rc_proto c)) = Ok f
        \<and> hwrote s' = hwrote s @ [f])"
      unfolding exchange(2) .
    with v written_msg_poll [OF assms(1)] show ?thesis
      by (auto simp: puts_def host_view_def)
  qed (use v in \<open>simp_all add: puts_silent\<close>)
qed

lemma puts_tx:
  assumes "block_cipher (ev_enc E) (ev_dec E)" and "host_tx E f s = (r, s')" and "host_view s = (key, cfg, Some p)"
  shows "puts s s' [to_wire (tc_tx_id cfg) @ f] \<or> puts s s' [] \<and> (\<forall>v. r \<noteq> Ok v)"
proof -
  obtain c where c: "tp_chan (snd s) = Host c"
    using assms(3) by (auto simp: host_view_def split: path_channel.splits)
  have cfg: "tp_cfg (snd s) = cfg" using assms(3) by (simp add: host_view_def)
  note v = host_tx_view(1) [OF assms(2,3)]
  from assms(2) c show ?thesis
  proof (cases rule: host_tx_cases)
    case (refused e)
    then show ?thesis by (simp add: puts_silent)
  next
    case (exchange fl cm q)
    from exchange(2) show ?thesis
    proof (cases rule: dev_transact_writes)
      case none
      have "\<forall>v. r \<noteq> Ok v" using exchange(4) none(2) by blast
      with none(1) v show ?thesis by (simp add: puts_silent)
    next
      case (one g)
      then have "written_msg E (ac_key (dv_actor (fst s))) g = [to_wire (tc_tx_id cfg) @ f]"
        using written_msg_write [OF assms(1) exchange(1)] by (simp add: cfg)
      with one(2) v show ?thesis by (auto simp: puts_def host_view_def)
    qed
  qed
qed

end

context session_log
begin

lemma host_send_loop_puts:
  assumes "host_send_loop E k tx s = Some (r, s')" and "block_cipher (ev_enc E) (ev_dec E)"
    and "host_view s = (key, cfg, Some pr)" and "p \<noteq> []" and "tx_inv p addr padding fs tx"
  shows "\<exists>gs. puts s s' (map ((@) (to_wire (tc_tx_id cfg))) gs) \<and> prefix (fs @ gs) (segments addr padding p)
    \<and> (r = Ok () \<longrightarrow> fs @ gs = segments addr padding p)"
  using assms(1,3,5)
proof (induction k arbitrary: tx s fs)
  case (Suc k)
  note prems = Suc.prems(2,3)
  let ?res = "\<lambda>s fs. \<exists>gs. puts s s' (map ((@) (to_wire (tc_tx_id cfg))) gs) \<and> prefix (fs @ gs) (segments addr padding p)
    \<and> (r = Ok () \<longrightarrow> fs @ gs = segments addr padding p)"
  have pre: "prefix fs (segments addr padding p)"
    using tx_inv_prefix [OF Suc.prems(3)] .
  have stopped: "?res s fs" if "puts s s' []" "r \<noteq> Ok () \<or> fs = segments addr padding p"
    using that pre by (intro exI [of _ "[]"]) auto
  have go: "?res s fs" if "puts s s0 []" "host_send_loop E k tx0 s0 = Some (r, s')" "tx_inv p addr padding fs tx0" for s0 tx0
  proof -
    have "host_view s0 = (key, cfg, Some pr)" using that(1) prems(1) by (simp add: puts_def)
    from Suc.IH [OF that(2) this that(3)] that(1) show ?thesis by (blast intro: puts_then)
  qed
  obtain now s1 where n1: "tp_now E s = (now, s1)" by (metis surj_pair)
  note q1 = puts_now [OF n1]
  have v1: "host_view s1 = (key, cfg, Some pr)" using q1 prems(1) by (simp add: puts_def)
  obtain x tx1 where x: "tx_next (ev_dbg E) now tx = (x, tx1)" by fastforce
  note tx1 = tx_next_preserves [OF x prems(2) assms(4)]
  show ?case
  proof (cases x)
    case (Inl e)
    with Suc.prems(1) n1 x q1 show ?thesis
      by (intro stopped) (cases e; auto)+
  next
    case (Inr a)
    show ?thesis
    proof (cases a)
      case (Send f)
      obtain q s2 where q: "host_tx E f s1 = (q, s2)" by (metis surj_pair)
      have inv: "tx_inv p addr padding (fs @ [f]) tx1" using tx1 Inr Send by simp
      from puts_tx [OF assms(2) q v1] show ?thesis
      proof
        assume sent: "puts s1 s2 [to_wire (tc_tx_id cfg) @ f]"
        show ?thesis
        proof (cases q)
          case (Inl e)
          with Suc.prems(1) n1 x \<open>x = Inr a\<close> Send q have "s' = s2" "r = Inl e" by auto
          with puts_then [OF q1 sent] tx_inv_prefix [OF inv] show ?thesis by (intro exI [of _ "[f]"]) simp
        next
          case (Inr u)
          with Suc.prems(1) n1 x \<open>x = Inr a\<close> Send q have loop: "host_send_loop E k tx1 s2 = Some (r, s')" by simp
          have "host_view s2 = (key, cfg, Some pr)" using sent v1 by (simp add: puts_def)
          from Suc.IH [OF loop this inv] obtain gs where gs: "puts s2 s' (map ((@) (to_wire (tc_tx_id cfg))) gs)"
            "prefix (fs @ f # gs) (segments addr padding p)" "r = Ok () \<longrightarrow> fs @ f # gs = segments addr padding p"
            by auto
          with puts_trans [OF puts_then [OF q1 sent] gs(1)] show ?thesis by (intro exI [of _ "f # gs"]) simp
        qed
      next
        assume none: "puts s1 s2 [] \<and> (\<forall>v. q \<noteq> Ok v)"
        then obtain e where "q = Inl e" by (cases q) auto
        with Suc.prems(1) n1 x Inr Send q have "s' = s2" "r = Inl e" by auto
        with puts_then [OF q1] none show ?thesis by (intro stopped) auto
      qed
    next
      case (WaitFc d)
      obtain now2 s2 where n2: "tp_now E s1 = (now2, s2)" by (metis surj_pair)
      note q2 = puts_then [OF q1 puts_now [OF n2]]
      have v2: "host_view s2 = (key, cfg, Some pr)" using q2 prems(1) by (simp add: puts_def)
      have inv: "tx_inv p addr padding fs tx1" using tx1 Inr WaitFc by simp
      show ?thesis
      proof (cases "now2 \<ge> d")
        case True
        with Suc.prems(1) n1 x Inr WaitFc n2 show ?thesis by (intro go [OF q2 _ inv]) simp
      next
        case False
        obtain q s3 where q: "poll_frame E (min (d - now2) (from_millis 100)) s2 = (q, s3)" by (metis surj_pair)
        note q3 = puts_then [OF q2 puts_poll [OF assms(2) q v2]]
        note step = Suc.prems(1) n1 x Inr WaitFc n2 False q
        show ?thesis
        proof (cases q)
          case (Inl e)
          with step q3 show ?thesis by (intro stopped) auto
        next
          case (Inr v)
          show ?thesis
          proof (cases v)
            case None
            with step Inr show ?thesis by (intro go [OF q3 _ inv]) simp
          next
            case (Some m)
            obtain now3 s4 where n3: "tp_now E s3 = (now3, s4)" by (metis surj_pair)
            note q4 = puts_then [OF q3 puts_now [OF n3]]
            obtain y tx2 where y: "tx_on_frame (ev_dbg E) (drop 4 (rx_data m)) now3 tx1 = (y, tx2)" by fastforce
            note step = step Inr Some n3 y
            show ?thesis
            proof (cases y)
              case (Inl e)
              with step q4 show ?thesis by (intro stopped) (cases e; auto)+
            next
              case (Inr u)
              with step show ?thesis by (intro go [OF q4 _ tx_on_frame_preserves [OF y inv]]) simp
            qed
          qed
        qed
      qed
    next
      case (WaitUntil t)
      obtain now2 s2 where n2: "tp_now E s1 = (now2, s2)" by (metis surj_pair)
      note q2 = puts_then [OF q1 puts_now [OF n2]]
      have "puts s (if t > now2 then tp_sleep E (t - now2) s2 else s2) []"
        using q2 puts_then [OF q2 puts_sleep] by simp
      with Suc.prems(1) n1 x Inr WaitUntil n2 tx1 show ?thesis by (intro go) auto
    next
      case TxDone
      then have "fs = segments addr padding p"
        using tx_done_whole x Inr prems(2) by blast
      with Suc.prems(1) n1 x Inr TxDone q1 show ?thesis by (intro stopped) auto
    qed
  qed
qed simp

end

lemma host_recv_loop_length:
  "host_recv_loop E k dl t rx s = Some (Ok p, s') \<Longrightarrow> rx_inv rx \<Longrightarrow> length p \<in> {1..4095}"
proof (induction k arbitrary: rx s)
  case (Suc k)
  have IH: "host_recv_loop E k dl t rx1 s1 = Some (Ok p, s') \<Longrightarrow> rx_on_frame dbg f now rx = (q, rx1) \<Longrightarrow>
      length p \<in> {1..4095}" for rx1 s1 dbg f now q
    by (rule Suc.IH [OF _ rx_on_frame_inv [OF _ Suc.prems(2)]])
  have done_len: "rx_on_frame dbg f now rx = (Ok (RxDone p'), rx1) \<Longrightarrow> length p' \<in> {1..4095}" for dbg f now p' rx1
    by (rule rx_done_length [OF _ Suc.prems(2)])
  have err: "map_err IsoTpErr (Inl e) \<noteq> (Ok p :: (bytes, error) res)" for e
    by (cases e) simp_all
  show ?case
    using Suc.prems(1) Suc.IH [OF _ Suc.prems(2)] IH done_len err
    by (auto simp del: atLeastAtMost_iff split: prod.splits sum.splits rx_event.splits option.splits if_splits)
qed simp

section \<open>Properties\<close>

lemma host_view_of: "tp_chan (snd s) = Host c \<Longrightarrow> host_view s = (ac_key (dv_actor (fst s)), tp_cfg (snd s), Some (rc_proto c))"
  by (simp add: host_view_def)

lemma host_send_spec:
  assumes "paced_session E time" and "session_log E wrote" and "block_cipher (ev_enc E) (ev_dec E)"
    and "tp_chan (snd s) = Host c" and "cfg = tp_cfg (snd s)" and "tc_wft_max cfg \<noteq> 255"
  shows "\<exists>k r s' ws gs. (\<forall>j \<ge> k. host_send E j payload s = Some (r, s'))
    \<and> wrote (ac_io (dv_actor (fst s'))) = wrote (ac_io (dv_actor (fst s))) @ ws
    \<and> written_msgs E (ac_key (dv_actor (fst s))) ws = map ((@) (to_wire (tc_tx_id cfg))) gs
    \<and> prefix gs (segments (tc_ext_addr cfg) (tc_padding cfg) payload)
    \<and> (r = Ok () \<longrightarrow> gs = segments (tc_ext_addr cfg) (tc_padding cfg) payload)"
proof (cases "tx_with_addr payload (tc_padding cfg) (tc_n_bs cfg) (tc_wft_max cfg) (tc_ext_addr cfg)")
  case (Inl e)
  then have "host_send E j payload s = Some (map_err IsoTpErr (Inl e), s)" for j
    by (simp add: host_send_def assms(5))
  moreover have "map_err IsoTpErr (Inl e) \<noteq> (Ok () :: (unit, error) res)" by (cases e) simp_all
  ultimately show ?thesis
    by (intro exI [of _ 0] exI [of _ "map_err IsoTpErr (Inl e)"] exI [of _ s] exI [of _ "[]"]) simp
next
  case (Inr tx)
  note inv = tx_with_addr_Ok(1,3) [OF Inr]
  have v: "host_view s = (ac_key (dv_actor (fst s)), cfg, Some (rc_proto c))"
    using assms(4,5) by (simp add: host_view_of)
  have "waits_bounded (ev_dbg E) tx"
    using Inr assms(6) by (auto simp: tx_with_addr_def Let_def waits_bounded_def split: if_splits)
  from paced_session.host_send_loop_ends [OF assms(1) v inv this]
  obtain k r s' where k: "host_send_loop E k tx s = Some (r, s')" by blast
  have all: "host_send E j payload s = Some (r, s')" if "k \<le> j" for j
    using host_send_loop_more [OF k that] Inr by (simp add: host_send_def assms(5))
  from session_log.host_send_loop_puts [OF assms(2) k assms(3) v inv]
  obtain gs ws where "wrote (ac_io (dv_actor (fst s'))) = wrote (ac_io (dv_actor (fst s))) @ ws"
    "written_msgs E (ac_key (dv_actor (fst s))) ws = map ((@) (to_wire (tc_tx_id cfg))) gs"
    "prefix gs (segments (tc_ext_addr cfg) (tc_padding cfg) payload)"
    "r = Ok () \<longrightarrow> gs = segments (tc_ext_addr cfg) (tc_padding cfg) payload"
    unfolding session_log.puts_def [OF assms(2)] v by auto
  with all show ?thesis by blast
qed

text \<open>C6: Sending on the host path, over any logged port whose writes take time, from any state and
  whatever the adapter and the ECU answer: the call ends (with a WAIT limit below 255), what it put
  on the vehicle's bus is a prefix of the reference segmentation of the payload, every frame
  under the configured identifier, and when it reports success it is the whole segmentation.\<close>
theorem host_send_segments:
  assumes "paced_session E time" and "session_log E wrote" and "block_cipher (ev_enc E) (ev_dec E)"
    and "tp_chan (snd s) = Host c" and "cfg = tp_cfg (snd s)" and "tc_wft_max cfg \<noteq> 255"
  shows "\<exists>k r s' ws gs. (\<forall>j \<ge> k. host_send E j payload s = Some (r, s'))
    \<and> wrote (ac_io (dv_actor (fst s'))) = wrote (ac_io (dv_actor (fst s))) @ ws
    \<and> written_msgs E (ac_key (dv_actor (fst s))) ws = map ((@) (to_wire (tc_tx_id cfg))) gs
    \<and> prefix gs (segments (tc_ext_addr cfg) (tc_padding cfg) payload)
    \<and> (r = Ok () \<longrightarrow> gs = segments (tc_ext_addr cfg) (tc_padding cfg) payload)"
  by (rule host_send_spec [OF assms])

text \<open>A ten-byte payload to a dead adapter.\<close>

definition quiet_host :: "mock device \<times> isotp" where
  "quiet_host = (\<lparr>dv_actor = actor_new mock_transport None [1] (mock_new []), dv_alive = True, dv_handles = 1,
     dv_closed = False\<rparr>, \<lparr>tp_chan = Host (channel_new \<lparr>rc_proto = Can, rc_nfilters = 0\<rparr>),
     tp_cfg = isotp_config_new (Std 0x7e0) (Std 0x7e8)\<rparr>)"

lemma host_send_segments_witness:
  "\<exists>k r s' gs. (\<forall>j \<ge> k. host_send (mock_env True xor_cipher xor_cipher) j ten quiet_host = Some (r, s'))
    \<and> prefix gs (segments None (Some 0) ten)"
proof -
  have "tp_chan (snd quiet_host) = Host (channel_new \<lparr>rc_proto = Can, rc_nfilters = 0\<rparr>)"
    "tc_wft_max (tp_cfg (snd quiet_host)) \<noteq> 255" "tc_ext_addr (tp_cfg (snd quiet_host)) = None"
    "tc_padding (tp_cfg (snd quiet_host)) = Some 0"
    by (simp_all add: quiet_host_def isotp_config_new_def)
  with host_send_segments [OF mock_paced.paced_session_axioms [of True xor_cipher xor_cipher]
      mock_session.session_log_axioms, of quiet_host _ _ ten]
  show ?thesis by (auto simp: xor_cipher_block) metis
qed

text \<open>C9: Receiving on the host path, over any port whose writes take time, returns for every script
  of adapter and ECU, after at most one round per clock tick of the timeout and queued message;
  a payload it returns has 1 to 4095 bytes.\<close>
theorem host_recv_returns:
  assumes "paced_session E time" and "tp_chan (snd s) = Host c" and "timeout + host_queued s < fuel"
  shows "\<exists>r s'. host_recv E fuel timeout s = Some (r, s') \<and> (\<forall>p. r = Ok p \<longrightarrow> length p \<in> {1..4095})"
proof -
  let ?rx = "rx_with_addr (tc_rx_bs (tp_cfg (snd s))) (tc_rx_stmin (tp_cfg (snd s)))
    (tc_padding (tp_cfg (snd s))) (tc_n_cr (tp_cfg (snd s))) (tc_ext_addr (tp_cfg (snd s)))"
  obtain now s1 where n: "tp_now E s = (now, s1)" by (metis surj_pair)
  note t = paced_session.tp_now_between [OF assms(1) n]
  have v: "host_view s1 = (ac_key (dv_actor (fst s)), tp_cfg (snd s), Some (rc_proto c))"
    using t(3) assms(2) by (simp add: host_view_of)
  obtain m where m: "fuel = Suc m" "timeout + host_queued s \<le> m" using assms(3) by (cases fuel) auto
  have "now + timeout - time (ac_io (dv_actor (fst s1))) + host_queued s1 \<le> m"
    using t(2,4) m(2) by simp
  from paced_session.host_recv_loop_ends [OF assms(1) v this, of timeout ?rx]
  obtain r s' where r: "host_recv_loop E fuel (now + timeout) timeout ?rx s1 = Some (r, s')"
    by (auto simp: m(1) simp del: host_recv_loop.simps)
  have "host_recv E fuel timeout s = Some (r, s')"
    using r by (simp add: host_recv_def Let_def n)
  moreover have "length p \<in> {1..4095}" if "r = Ok p" for p
    using host_recv_loop_length [OF r [unfolded that]] by simp
  ultimately show ?thesis by blast
qed

lemma host_recv_returns_witness:
  "\<exists>r s'. host_recv (mock_env True xor_cipher xor_cipher) 1001 1000 quiet_host = Some (r, s')"
proof -
  have "tp_chan (snd quiet_host) = Host (channel_new \<lparr>rc_proto = Can, rc_nfilters = 0\<rparr>)"
    "host_queued quiet_host = 0"
    by (simp_all add: quiet_host_def host_queued_def actor_new_def)
  with host_recv_returns [OF mock_paced.paced_session_axioms [of True xor_cipher xor_cipher], of quiet_host _ 1000 1001]
  show ?thesis by auto
qed

text \<open>A request passes over response-pending replies: with up to thirty of them before the real
  response the response is returned, the thirty-first pending reply is returned as it is, and an
  error of the receiver is handed on; no receive is made after the returned reply.\<close>
theorem drain_pending_spec:
  assumes "replies recv s ps s1" and "\<forall>p \<in> set ps. is_response_pending p" and "length ps \<le> 30"
    and "recv s1 = Some (r, s2)" and "\<forall>x. r = Ok x \<longrightarrow> \<not> is_response_pending x \<or> length ps = 30"
  shows "drain_pending recv s = Some (r, s2)"
proof -
  have "drain_from recv 0 s = drain_from recv (length ps) s1"
    using drain_from_replies [OF assms(1,2), of 0] assms(3) by (simp add: MAX_RESPONSE_PENDING_def)
  with assms(3-5) show ?thesis
    by (cases r) (auto simp: drain_pending_def MAX_RESPONSE_PENDING_def drain_from.simps [of recv "length ps"])
qed

lemma drain_pending_spec_witness:
  "drain_pending (\<lambda>s. case s of [] \<Rightarrow> None | x # xs \<Rightarrow> Some (Ok x, xs))
     [[0x7f, 0x21, 0x78], [0x7f, 0x21, 0x78, 0], [0x61, 0x0d]] = Some (Ok [0x61, 0x0d], [])"
  by (rule drain_pending_spec [where ps = "[[0x7f, 0x21, 0x78], [0x7f, 0x21, 0x78, 0]]" and ?s1.0 = "[[0x61, 0x0d]]"])
    auto

end
