(* ===== verification/IsoTp_Delivery.thy ===== *)
theory IsoTp_Delivery
  imports IsoTp_Paths "HOL-Library.Sublist"
begin

text \<open>
  What the ISO-TP receiver delivers. \<open>message\<close> is the reading of a sequence of frames that ISO 15765-2
  gives: a single frame, or a first frame and consecutive frames numbered from one. The receive
  machine delivers a payload exactly when it has been fed its message, and the host path of
  \<open>IsoTp::recv\<close> returns only payloads whose message it took off the channel.
\<close>

section \<open>Messages\<close>

text \<open>The fields of the three kinds of data frame; bytes beyond the announced ones are padding.\<close>

definition sf_of :: "u8 option \<Rightarrow> bytes \<Rightarrow> bytes \<Rightarrow> bool" where
  "sf_of addr f p \<longleftrightarrow> (\<exists>pci r. f = start_frame addr @ pci # r \<and> drop_bit 4 pci = 0 \<and> p \<noteq> []
     \<and> unat (pci AND 0x0f) = length p \<and> length p \<le> length r \<and> take (length p) r = p)"

definition ff_of :: "u8 option \<Rightarrow> bytes \<Rightarrow> nat \<Rightarrow> bytes \<Rightarrow> bool" where
  "ff_of addr f n r \<longleftrightarrow> (\<exists>d0 d1. f = start_frame addr @ d0 # d1 # r \<and> drop_bit 4 d0 = 1
     \<and> n = 256 * unat (d0 AND 0x0f) + unat d1 \<and> 7 - is_some_n addr < n \<and> 6 - is_some_n addr \<le> length r)"

definition cf_of :: "u8 option \<Rightarrow> bytes \<Rightarrow> u8 \<Rightarrow> bytes \<Rightarrow> bool" where
  "cf_of addr f sn r \<longleftrightarrow> (\<exists>pci. f = start_frame addr @ pci # r \<and> drop_bit 4 pci = 2 \<and> pci AND 0x0f = sn)"

definition sn_of :: "nat \<Rightarrow> u8" where
  "sn_of i = of_nat i AND 0x0f"

definition cfs_of :: "u8 option \<Rightarrow> bytes list \<Rightarrow> bytes list \<Rightarrow> bool" where
  "cfs_of addr cs ds \<longleftrightarrow> length cs = length ds \<and> (\<forall>i < length cs. cf_of addr (cs ! i) (sn_of (Suc i)) (ds ! i))"

text \<open>The data a first frame and its consecutive frames have brought.\<close>

definition joined :: "u8 option \<Rightarrow> bytes \<Rightarrow> bytes list \<Rightarrow> bytes" where
  "joined addr r ds = take (6 - is_some_n addr) r @ concat (map (take (7 - is_some_n addr)) ds)"

definition begun :: "u8 option \<Rightarrow> bytes list \<Rightarrow> nat \<Rightarrow> bytes list \<Rightarrow> bytes \<Rightarrow> bool" where
  "begun addr fs n ds buf \<longleftrightarrow> (\<exists>f r cs. fs = f # cs \<and> ff_of addr f n r \<and> cfs_of addr cs ds
     \<and> buf = joined addr r ds \<and> length buf < n)"

definition message :: "u8 option \<Rightarrow> bytes list \<Rightarrow> bytes \<Rightarrow> bool" where
  "message addr fs p \<longleftrightarrow> (\<exists>f. fs = [f] \<and> sf_of addr f p)
     \<or> (\<exists>f r cs ds d. fs = f # cs \<and> ff_of addr f (length p) r \<and> cfs_of addr cs (ds @ [d])
          \<and> length (joined addr r ds) < length p \<and> take (length p) (joined addr r (ds @ [d])) = p)"

lemma sn_of_0: "sn_of (Suc 0) = 1" "nibble (sn_of i)"
  by (simp_all add: sn_of_def)

lemma sn_of_mod: "sn_of i = of_nat (i mod 16)"
proof -
  have "sn_of i = take_bit 4 (of_nat i)"
    by (simp add: sn_of_def take_bit_eq_mask mask_eq_exp_minus_1)
  then show ?thesis by (simp add: take_bit_of_nat) (simp add: take_bit_eq_mod)
qed

lemma sn_of_Suc: "(sn_of i + 1) AND 0x0f = sn_of (Suc i)"
proof -
  have "(sn_of i + 1) AND 0x0f = sn_of (Suc (i mod 16))"
    by (simp only: sn_of_mod [of i]) (simp add: sn_of_def add.commute)
  then show ?thesis by (simp add: sn_of_mod mod_Suc_eq)
qed

lemma cfs_of_snoc: "length cs = length ds \<Longrightarrow> cfs_of addr (cs @ [c]) (ds @ [d])
    \<longleftrightarrow> cfs_of addr cs ds \<and> cf_of addr c (sn_of (Suc (length ds))) d"
  by (auto simp: cfs_of_def nth_append less_Suc_eq)

lemma joined_snoc: "joined addr r (ds @ [d]) = joined addr r ds @ take (7 - is_some_n addr) d"
  by (simp add: joined_def)

section \<open>One frame\<close>

text \<open>The machine in the middle of \<open>ms\<close>, or idle.\<close>

definition rx_holds :: "u8 option \<Rightarrow> bytes list \<Rightarrow> rx_machine \<Rightarrow> bool" where
  "rx_holds addr hs m \<longleftrightarrow> rx_inv m \<and> rx_addr m = addr \<and>
     (case rx_state m of Idle \<Rightarrow> True
      | Receiving sn _ _ \<Rightarrow> \<exists>fs ds. subseq fs hs \<and> begun addr fs (rx_ff_dl m) ds (rx_buf m) \<and> sn = sn_of (length fs))"

lemma rx_holds_init: "rx_holds addr [] (rx_with_addr bs stmin padding n_cr addr)"
  using rx_inv_init [of bs stmin padding n_cr addr] by (simp add: rx_holds_def rx_with_addr_def)

lemma rx_holdsI:
  "rx_inv m \<Longrightarrow> rx_addr m = addr \<Longrightarrow> rx_state m = Receiving sn c q \<Longrightarrow> subseq fs hs
    \<Longrightarrow> begun addr fs (rx_ff_dl m) ds (rx_buf m) \<Longrightarrow> sn = sn_of (length fs) \<Longrightarrow> rx_holds addr hs m"
  unfolding rx_holds_def by auto

lemma rx_holds_more: "rx_holds addr hs m \<Longrightarrow> rx_holds addr (hs @ [f]) m"
  unfolding rx_holds_def by (auto split: rx_state.splits intro: subseq_rev_drop_many)

lemma rx_single_sf:
  assumes "rx_single (pci # r) m = (res, m')" and "drop_bit 4 pci = 0"
  shows "(res = Ok (RxDone p) \<longrightarrow> sf_of addr (start_frame addr @ pci # r) p \<and> m' = m\<lparr>rx_state := Idle\<rparr>)
    \<and> (res \<noteq> Ok (RxDone p) \<longrightarrow> (\<forall>q. res \<noteq> Ok (RxDone q)) \<longrightarrow> m' = m)"
  using assms by (fastforce simp: rx_single_def sf_of_def Let_def slice_def split: if_splits)

lemma rx_first_ff:
  assumes "rx_first (is_some_n addr) (pci # r) t m = (res, m')" and "drop_bit 4 pci = 1"
  shows "(\<forall>p. res \<noteq> Ok (RxDone p)) \<and> (m' = m \<or>
    (\<exists>n d. rx_ff_dl m' = n \<and> rx_buf m' = joined addr d [] \<and> rx_addr m' = rx_addr m \<and> ff_of addr (start_frame addr @ pci # r) n d
       \<and> (\<exists>c q. rx_state m' = Receiving 1 c q)))"
proof (cases "length (pci # r) < 8 - is_some_n addr")
  case True
  with assms(1) show ?thesis by (auto simp: rx_first_def)
next
  case False
  then obtain d1 q where r: "r = d1 # q" by (cases r; cases addr) auto
  with False have long: "8 - is_some_n addr \<le> length (pci # d1 # q)" "is_some_n addr \<le> 1" by simp_all
  from assms(1) [unfolded r rx_first_eq [OF long]] assms(2) long show ?thesis
    by (auto simp: r Let_def joined_def ff_of_def split: if_splits)
qed

lemma rx_consecutive_cf:
  assumes step: "rx_consecutive dbg (is_some_n addr) (pci # r) t m = (res, m')" and pci: "drop_bit 4 pci = 2"
    and holds: "rx_holds addr hs m" and res: "res \<noteq> panic"
  shows "rx_holds addr (hs @ [start_frame addr @ pci # r]) m' \<and>
    (\<forall>p. res = Ok (RxDone p) \<longrightarrow> (\<exists>fs. subseq fs hs \<and> message addr (fs @ [start_frame addr @ pci # r]) p))"
proof (cases "rx_state m")
  case Idle
  with step rx_holds_more [OF holds] show ?thesis by (auto simp: rx_consecutive_def)
next
  case (Receiving sn c q)
  let ?h = "is_some_n addr" and ?n = "rx_ff_dl m" and ?f = "start_frame addr @ pci # r"
  have inv: "rx_inv m" "rx_addr m = addr" using holds by (simp_all add: rx_holds_def)
  from holds Receiving obtain fs ds where fs: "subseq fs hs" "begun addr fs ?n ds (rx_buf m)" "sn = sn_of (length fs)"
    by (auto simp: rx_holds_def)
  from fs(2) obtain f d cs where b: "fs = f # cs" "ff_of addr f ?n d" "cfs_of addr cs ds" "rx_buf m = joined addr d ds"
    and short: "length (rx_buf m) < ?n" by (auto simp: begun_def)
  have len: "length cs = length ds" using b(3) by (simp add: cfs_of_def)
  define buf where "buf = rx_buf m @ take (min (?n - length (rx_buf m)) (7 - ?h)) r"
  have inv': "rx_inv m'"
    by (rule rx_consecutive_inv [OF step inv(1)]) simp
  note eq = step [unfolded rx_consecutive_eq [OF Receiving short] Let_def, folded buf_def]
  have buf_n: "buf = take ?n (joined addr d (ds @ [r]))"
    using short by (simp add: buf_def joined_snoc b(4) [symmetric] min.commute)
  have cf: "cfs_of addr (cs @ [?f]) (ds @ [r])" if "pci AND 0x0f = sn"
    using that fs(3) pci b(1,3) len by (auto simp: cfs_of_snoc cf_of_def)
  consider "pci AND 0x0f \<noteq> sn" | "pci AND 0x0f = sn" "length buf = ?n" | "pci AND 0x0f = sn" "length buf \<noteq> ?n"
    by blast
  then show ?thesis
  proof cases
    case 1
    with eq inv' inv(2) show ?thesis by (auto simp: rx_holds_def)
  next
    case 2
    have "message addr (fs @ [?f]) buf"
      unfolding message_def using b(2) cf [OF 2(1)] short 2(2) buf_n
      by (intro disjI2 exI [of _ f] exI [of _ d] exI [of _ "cs @ [?f]"] exI [of _ ds] exI [of _ r]) (simp add: b(1,4))
    with eq 2 inv' inv(2) fs(1) show ?thesis by (auto simp: rx_holds_def)
  next
    case 3
    have "length buf < ?n" using 3(2) short by (auto simp: buf_def)
    with buf_n have "buf = joined addr d (ds @ [r])" by (simp add: length_take min_def split: if_splits)
    with b(2) cf [OF 3(1)] \<open>length buf < ?n\<close> have "begun addr (fs @ [?f]) ?n (ds @ [r]) buf"
      by (auto simp: begun_def b(1))
    moreover have "subseq (fs @ [?f]) (hs @ [?f])" using fs(1) by simp
    moreover have "(pci AND 0x0f) + 1 AND 0x0f = sn_of (length (fs @ [?f]))"
      using 3(1) fs(3) sn_of_Suc by simp
    ultimately have "rx_state m' = Receiving (sn_of (length (fs @ [?f]))) a e \<Longrightarrow> rx_buf m' = buf \<Longrightarrow> rx_ff_dl m' = ?n
        \<Longrightarrow> rx_addr m' = addr \<Longrightarrow> rx_holds addr (hs @ [?f]) m'" for a e
      using inv' by (intro rx_holdsI [where fs = "fs @ [?f]" and ds = "ds @ [r]"]) simp_all
    with eq 3 inv(2) res sn_of_Suc fs(3) show ?thesis
      by (auto simp: u8_add_def split: if_splits)
  qed
qed

lemma rx_on_frame_holds:
  assumes step: "rx_on_frame dbg f t m = (res, m')" and holds: "rx_holds addr hs m" and res: "res \<noteq> panic"
  shows "rx_holds addr (hs @ [f]) m' \<and> (\<forall>p. res = Ok (RxDone p) \<longrightarrow> (\<exists>fs. subseq fs hs \<and> message addr (fs @ [f]) p))"
proof -
  have addr: "rx_addr m = addr" and inv: "rx_inv m" using holds by (simp_all add: rx_holds_def)
  have same: ?thesis if "m' = m" "\<forall>p. res \<noteq> Ok (RxDone p)"
    using that rx_holds_more [OF holds] by simp
  show ?thesis
  proof (cases rule: rx_on_frame_cases [of f dbg t m])
    case (4 pci r)
    let ?h = "is_some_n addr"
    note step = step [unfolded 4 rx_on_frame_strip, unfolded addr]
    have inv': "rx_inv m'" by (rule rx_on_frame_inv [OF assms(1) inv])
    consider "drop_bit 4 pci = 0" | "drop_bit 4 pci = 1" | "drop_bit 4 pci = 2"
      | "drop_bit 4 pci \<noteq> 0" "drop_bit 4 pci \<noteq> 1" "drop_bit 4 pci \<noteq> 2" by blast
    then show ?thesis
    proof cases
      case 1
      with step have s: "rx_single (pci # r) m = (res, m')" by simp
      show ?thesis
      proof (cases "\<exists>p. res = Ok (RxDone p)")
        case True
        then obtain p where p: "res = Ok (RxDone p)" ..
        with rx_single_sf [OF s 1, of p addr] have "message addr [f] p" "m' = m\<lparr>rx_state := Idle\<rparr>"
          by (simp_all add: message_def 4 addr)
        with p inv' addr show ?thesis by (auto simp: rx_holds_def intro!: exI [of _ "[]"])
      qed (use rx_single_sf [OF s 1] same in blast)
    next
      case 2
      with step have s: "rx_first ?h (pci # r) t m = (res, m')" by simp
      note ff = rx_first_ff [OF s 2]
      show ?thesis
      proof (cases "m' = m")
        case False
        with ff obtain d c q where d: "rx_buf m' = joined addr d []" "ff_of addr f (rx_ff_dl m') d" "rx_state m' = Receiving 1 c q"
          "rx_addr m' = addr" by (auto simp: 4 addr)
        then have "begun addr [f] (rx_ff_dl m') [] (rx_buf m')"
          using inv' by (auto simp: begun_def cfs_of_def rx_inv_def)
        with d inv' have "rx_holds addr (hs @ [f]) m'"
          by (intro rx_holdsI [where fs = "[f]" and ds = "[]"]) (simp_all add: sn_of_0 subseq_drop_many)
        with ff show ?thesis by blast
      qed (use ff same in blast)
    next
      case 3
      with step have s: "rx_consecutive dbg ?h (pci # r) t m = (res, m')" by simp
      from rx_consecutive_cf [OF s 3 holds res] show ?thesis by (simp add: 4 addr)
    next
      case 4
      with step same show ?thesis by (auto split: if_splits)
    qed
  qed (use step same in auto)
qed

section \<open>Any frames\<close>

lemma rx_feed_append:
  "rx_feed dbg (xs @ ys) m = (case rx_feed dbg xs m of (rs, m1) \<Rightarrow> case rx_feed dbg ys m1 of (qs, m2) \<Rightarrow> (rs @ qs, m2))"
  by (induction xs arbitrary: m) (auto split: prod.split)

lemma rx_feed_sound:
  assumes "rx_feed dbg fs m = (rs, m')" and "rx_holds addr hs m" and "panic \<notin> set rs"
  shows "i < length fs \<Longrightarrow> rs ! i = Ok (RxDone p)
    \<Longrightarrow> \<exists>ms. subseq ms (hs @ map fst (take i fs)) \<and> message addr (ms @ [fst (fs ! i)]) p"
  using assms
proof (induction fs arbitrary: m rs hs i)
  case (Cons ft fs)
  obtain f t where ft: "ft = (f, t)" by fastforce
  obtain r m1 where step: "rx_on_frame dbg f t m = (r, m1)" by fastforce
  obtain rs1 where rest: "rx_feed dbg fs m1 = (rs1, m')" and rs: "rs = r # rs1"
    using Cons.prems(3) by (auto simp: ft step split: prod.splits)
  from rx_on_frame_holds [OF step Cons.prems(4)] Cons.prems(5) rs
  have holds: "rx_holds addr (hs @ [f]) m1" and one: "\<And>p. r = Ok (RxDone p) \<Longrightarrow> \<exists>fs. subseq fs hs \<and> message addr (fs @ [f]) p"
    by auto
  show ?case
  proof (cases i)
    case 0
    with Cons.prems(2) one show ?thesis by (simp add: ft rs)
  next
    case (Suc j)
    with Cons.prems(1,2,5) Cons.IH [OF _ _ rest holds, of j] show ?thesis by (simp add: ft rs)
  qed
qed simp

section \<open>A whole message\<close>

lemma rx_cf_step:
  assumes st: "rx_state m = Receiving sn c q" and short: "length (rx_buf m) < rx_ff_dl m" and addr: "rx_addr m = addr"
    and cf: "cf_of addr f sn r" and buf: "buf = take (rx_ff_dl m) (rx_buf m @ take (7 - is_some_n addr) r)"
  shows "length buf = rx_ff_dl m \<Longrightarrow> fst (rx_on_frame False f t m) = Ok (RxDone buf)"
    and "length buf < rx_ff_dl m \<Longrightarrow> \<exists>ev m' c' q'. rx_on_frame False f t m = (Ok ev, m') \<and> (\<forall>p. ev \<noteq> RxDone p)
      \<and> rx_buf m' = buf \<and> rx_ff_dl m' = rx_ff_dl m \<and> rx_addr m' = addr \<and> rx_state m' = Receiving ((sn + 1) AND 0x0f) c' q'"
proof -
  from cf obtain pci where f: "f = start_frame addr @ pci # r" "drop_bit 4 pci = 2" "pci AND 0x0f = sn"
    by (auto simp: cf_of_def)
  have b: "rx_buf m @ take (min (rx_ff_dl m - length (rx_buf m)) (7 - is_some_n addr)) r = buf"
    using short by (simp add: buf min.commute)
  have eq: "rx_on_frame False f t m = rx_consecutive False (is_some_n addr) (pci # r) t m"
    using rx_on_frame_strip [of False m pci r t] f(1,2) addr by simp
  note run = eq [unfolded rx_consecutive_eq [OF st short] b Let_def]
  show "length buf = rx_ff_dl m \<Longrightarrow> fst (rx_on_frame False f t m) = Ok (RxDone buf)"
    using f(3) by (simp add: run)
  show "length buf < rx_ff_dl m \<Longrightarrow> \<exists>ev m' c' q'. rx_on_frame False f t m = (Ok ev, m') \<and> (\<forall>p. ev \<noteq> RxDone p)
      \<and> rx_buf m' = buf \<and> rx_ff_dl m' = rx_ff_dl m \<and> rx_addr m' = addr \<and> rx_state m' = Receiving ((sn + 1) AND 0x0f) c' q'"
    using f(3) addr by (auto simp: run u8_add_def)
qed

definition goes_on :: "(rx_event, isotp_error) res \<Rightarrow> bool" where
  "goes_on r \<longleftrightarrow> (case r of Inr (RxDone _) \<Rightarrow> False | Inr _ \<Rightarrow> True | Inl _ \<Rightarrow> False)"

lemma goes_on_Ok: "goes_on (Ok ev) \<longleftrightarrow> (\<forall>p. ev \<noteq> RxDone p)"
  by (cases ev) (simp_all add: goes_on_def)

lemma joined_shorter: "length (joined addr r ds) \<le> length (joined addr r (ds @ [d]))"
  by (simp add: joined_snoc)

lemma rx_feed_begun:
  assumes "ff_of addr f n r" and "rx_addr m = addr" and "map fst fs = f # cs"
  shows "cfs_of addr cs ds \<Longrightarrow> length (joined addr r ds) < n \<Longrightarrow> rx_feed False fs m = (rs, m')
    \<Longrightarrow> list_all goes_on rs \<and> rx_buf m' = joined addr r ds \<and> rx_ff_dl m' = n \<and> rx_addr m' = addr
      \<and> (\<exists>c q. rx_state m' = Receiving (sn_of (Suc (length cs))) c q)"
  using assms(3)
proof (induction cs arbitrary: fs ds rs m' rule: rev_induct)
  case Nil
  then obtain t where fs: "fs = [(f, t)]" by (cases fs) auto
  have ds: "ds = []" using Nil.prems(1) by (simp add: cfs_of_def)
  from assms(1) obtain d0 d1 where f: "f = start_frame addr @ d0 # d1 # r" "drop_bit 4 d0 = 1"
    "n = 256 * unat (d0 AND 0x0f) + unat d1" "7 - is_some_n addr < n" "6 - is_some_n addr \<le> length r"
    by (auto simp: ff_of_def)
  have long: "8 - is_some_n addr \<le> length (d0 # d1 # r)" "is_some_n addr \<le> 1" using f(5) by simp_all
  have "rx_on_frame False f t m = rx_first (is_some_n addr) (d0 # d1 # r) t m"
    using rx_on_frame_strip [of False m d0 "d1 # r" t] f(1,2) assms(2) by simp
  with Nil.prems(3) f(3,4) ds assms(2) show ?case
    by (auto simp: fs rx_first_eq [OF long] Let_def goes_on_def joined_def sn_of_0)
next
  case (snoc c cs)
  from snoc.prems(4) obtain fs0 t where fs: "fs = fs0 @ [(c, t)]" and fs0: "map fst fs0 = f # cs"
    by (cases fs rule: rev_cases) auto
  from snoc.prems(1) obtain ds0 d where ds: "ds = ds0 @ [d]"
    by (cases ds rule: rev_cases) (auto simp: cfs_of_def)
  with snoc.prems(1) have cfs: "cfs_of addr cs ds0" "length cs = length ds0" and c: "cf_of addr c (sn_of (Suc (length ds0))) d"
    using cfs_of_snoc [of cs ds0 addr c d] by (auto simp: cfs_of_def)
  obtain rs0 m0 where feed0: "rx_feed False fs0 m = (rs0, m0)" by fastforce
  have short: "length (joined addr r ds0) < n"
    using snoc.prems(2) joined_shorter [of addr r ds0 d] by (simp add: ds)
  from snoc.IH [OF cfs(1) short feed0 fs0] obtain c0 q where m0: "list_all goes_on rs0" "rx_buf m0 = joined addr r ds0"
    "rx_ff_dl m0 = n" "rx_addr m0 = addr" "rx_state m0 = Receiving (sn_of (Suc (length cs))) c0 q" by blast
  let ?buf = "take (rx_ff_dl m0) (rx_buf m0 @ take (7 - is_some_n addr) d)"
  have "length (rx_buf m0 @ take (7 - is_some_n addr) d) \<le> rx_ff_dl m0"
    using snoc.prems(2) by (simp add: m0 ds joined_snoc)
  then have buf: "?buf = joined addr r ds"
    by (simp only: take_all) (simp add: m0 ds joined_snoc)
  have more: "length ?buf < rx_ff_dl m0" by (subst buf, subst m0(3), rule snoc.prems(2))
  have less: "length (rx_buf m0) < rx_ff_dl m0" using short by (simp add: m0)
  from rx_cf_step(2) [OF m0(5) less m0(4) c [folded cfs(2)] refl more, of t] obtain ev m1 c' q' where m1: "rx_on_frame False c t m0 = (Ok ev, m1)" "\<forall>p. ev \<noteq> RxDone p"
    and buf1: "rx_buf m1 = ?buf" and st1: "rx_ff_dl m1 = n" "rx_addr m1 = addr"
    "rx_state m1 = Receiving ((sn_of (Suc (length cs)) + 1) AND 0x0f) c' q'"
    using m0(3) by blast
  from buf1 have "rx_buf m1 = joined addr r ds" by (simp only: buf)
  with snoc.prems(3) feed0 m0(1) m1 st1 show ?case
    by (auto simp: fs rx_feed_append goes_on_Ok sn_of_Suc)
qed

lemma rx_feed_message:
  assumes msg: "message addr (map fst fs) p" and "rx_addr m = addr"
  obtains rs where "fst (rx_feed False fs m) = rs @ [Ok (RxDone p)]" "list_all goes_on rs"
proof -
  from msg consider f where "map fst fs = [f]" "sf_of addr f p"
    | f r cs ds d where "map fst fs = f # cs" "ff_of addr f (length p) r" "cfs_of addr cs (ds @ [d])"
        "length (joined addr r ds) < length p" "take (length p) (joined addr r (ds @ [d])) = p"
    by (auto simp: message_def)
  then show thesis
  proof cases
    case 1
    then obtain t where fs: "fs = [(f, t)]" by (cases fs) auto
    from 1(2) obtain pci r where f: "f = start_frame addr @ pci # r" "drop_bit 4 pci = 0" "p \<noteq> []"
      "unat (pci AND 0x0f) = length p" "length p \<le> length r" "take (length p) r = p"
      by (auto simp: sf_of_def)
    have "rx_on_frame False f t m = rx_single (pci # r) m"
      using rx_on_frame_strip [of False m pci r t] f(1,2) assms(2) by simp
    with f have "fst (rx_on_frame False f t m) = Ok (RxDone p)"
      by (simp add: rx_single_def Let_def slice_def)
    then show thesis by (intro that [of "[]"]) (simp_all add: fs case_prod_unfold)
  next
    case 2
    from 2(3) obtain cs0 c where cs: "cs = cs0 @ [c]" by (cases cs rule: rev_cases) (auto simp: cfs_of_def)
    with 2(3) have cfs: "cfs_of addr cs0 ds" "length cs0 = length ds" and c: "cf_of addr c (sn_of (Suc (length ds))) d"
      using cfs_of_snoc [of cs0 ds addr c d] by (auto simp: cfs_of_def)
    from 2(1) obtain fs0 t where fs: "fs = fs0 @ [(c, t)]" and fs0: "map fst fs0 = f # cs0"
      unfolding cs by (cases fs rule: rev_cases) auto
    obtain rs m0 where feed0: "rx_feed False fs0 m = (rs, m0)" by fastforce
    from rx_feed_begun [OF 2(2) assms(2) fs0 cfs(1) 2(4) feed0] obtain c0 q where m0: "list_all goes_on rs"
      "rx_buf m0 = joined addr r ds" "rx_ff_dl m0 = length p" "rx_addr m0 = addr"
      "rx_state m0 = Receiving (sn_of (Suc (length cs0))) c0 q" by blast
    have buf: "p = take (rx_ff_dl m0) (rx_buf m0 @ take (7 - is_some_n addr) d)"
      using 2(5) by (simp add: m0 joined_snoc)
    have "length (rx_buf m0) < rx_ff_dl m0" using 2(4) by (simp add: m0)
    from rx_cf_step(1) [OF m0(5) this m0(4) c [folded cfs(2)] buf, of t] have "fst (rx_on_frame False c t m0) = Ok (RxDone p)"
      by (simp add: m0)
    then have "fst (rx_feed False fs m) = rs @ [Ok (RxDone p)]"
      by (simp add: fs rx_feed_append feed0 case_prod_unfold)
    with m0(1) show thesis by (intro that)
  qed
qed

section \<open>The reference segmentation is a message\<close>

lemma cf_frame_cf:
  assumes "length d \<le> 7 - is_some_n addr"
  obtains q where "cf_of addr (cf_frame addr padding (sn_of k) d) (sn_of k) (d @ q)"
proof -
  from cf_frame_ext [OF assms, of padding "sn_of k"] obtain q where
    "cf_frame addr padding (sn_of k) d = start_frame addr @ (0x20 OR sn_of k) # d @ q" .
  with that [of q] pci_fields(3,4) [OF sn_of_0(2)] show thesis by (simp add: cf_of_def)
qed

lemma cf_frames_cfs:
  assumes "xs \<noteq> []"
  obtains ds d where "length (cf_frames addr padding (sn_of k) xs) = length (ds @ [d])"
    and "\<forall>i < length (ds @ [d]). cf_of addr (cf_frames addr padding (sn_of k) xs ! i) (sn_of (k + i)) ((ds @ [d]) ! i)"
    and "length (concat (map (take (7 - is_some_n addr)) ds)) < length xs"
    and "take (length xs) (concat (map (take (7 - is_some_n addr)) (ds @ [d]))) = xs"
  using assms
proof (induction "length xs" arbitrary: xs k thesis rule: less_induct)
  case less
  let ?w = "7 - is_some_n addr"
  from less.prems(2) obtain x ys where xs: "xs = x # ys" by (cases xs) auto
  have w: "?w = Suc (6 - is_some_n addr)" "0 < ?w" by (cases addr; simp)+
  define c where "c = x # take (6 - is_some_n addr) ys"
  define rest where "rest = drop (6 - is_some_n addr) ys"
  have c: "c = take ?w xs" "xs = c @ rest" by (simp_all add: c_def rest_def xs w)
  have "length c \<le> ?w" by (simp add: c(1))
  then obtain q where q: "cf_of addr (cf_frame addr padding (sn_of k) c) (sn_of k) (c @ q)"
    by (rule cf_frame_cf)
  have frames: "cf_frames addr padding (sn_of k) xs = cf_frame addr padding (sn_of k) c # cf_frames addr padding (sn_of (Suc k)) rest"
    by (simp add: xs c_def rest_def sn_of_Suc)
  show ?case
  proof (cases "rest = []")
    case True
    with c(2) have c_xs: "c = xs" by simp
    with \<open>length c \<le> ?w\<close> have "take (length xs) (take ?w (c @ q)) = xs" by simp
    then show thesis
      using q frames True less.prems(2) by (intro less.prems(1) [of "[]" "c @ q"]) simp_all
  next
    case False
    then have full: "length c = ?w" by (auto simp: c_def rest_def w)
    have "length rest < length xs" by (simp add: c(2) full w(2))
    from less.hyps [OF this _ False, of "Suc k"] obtain ds d
      where ds: "length (cf_frames addr padding (sn_of (Suc k)) rest) = length (ds @ [d])"
        "\<forall>i < length (ds @ [d]). cf_of addr (cf_frames addr padding (sn_of (Suc k)) rest ! i) (sn_of (Suc k + i)) ((ds @ [d]) ! i)"
        "length (concat (map (take ?w) ds)) < length rest"
        "take (length rest) (concat (map (take ?w) (ds @ [d]))) = rest" by blast
    have first: "take ?w (c @ q) = c" by (simp add: full)
    have parts: "length (concat (map (take ?w) ((c @ q) # ds))) < length xs"
      "take (length xs) (concat (map (take ?w) ((c @ q) # ds @ [d]))) = xs"
    proof -
      show "length (concat (map (take ?w) ((c @ q) # ds))) < length xs"
        using ds(3) first by (simp add: c(2) del: take_append)
      have "take (length c + length rest) (c @ concat (map (take ?w) (ds @ [d]))) = c @ rest"
        using ds(4) by (simp only: take_append) simp
      with first show "take (length xs) (concat (map (take ?w) ((c @ q) # ds @ [d]))) = xs"
        by (simp add: c(2) del: take_append)
    qed
    have "cf_of addr (cf_frames addr padding (sn_of k) xs ! i) (sn_of (k + i)) (((c @ q) # ds @ [d]) ! i)"
      if "i < length ((c @ q) # ds @ [d])" for i
      using that q ds(2) by (cases i) (simp_all add: frames)
    then show thesis
      using ds(1) parts by (intro less.prems(1) [of "(c @ q) # ds" d]) (simp_all add: frames del: take_append)
  qed
qed

lemma message_segments:
  assumes "p \<noteq> []" and "length p \<le> 4095"
  shows "message addr (segments addr padding p) p"
proof (cases "length p \<le> 7 - is_some_n addr")
  case True
  let ?l = "of_nat (length p) :: u8"
  have nib: "nibble ?l" using True by (intro nibble_of_nat) simp
  have l: "?l AND 0x0f = ?l" "unat ?l = length p" using nib True by (simp_all add: nibble_def unat_of_nat_u8)
  have "length (start_frame addr @ ?l # p) \<le> 8" using True by (cases addr) auto
  then obtain q where q: "pad_frame (start_frame addr @ ?l # p) padding = start_frame addr @ ?l # p @ q"
    by (elim pad_frame_ext [of _ padding]) simp
  have "sf_of addr (start_frame addr @ ?l # p @ q) p"
    unfolding sf_of_def using drop_bit_4_nibble [OF nib] l assms(1) by (intro exI [of _ ?l] exI [of _ "p @ q"]) simp
  with True q show ?thesis by (simp add: segments_def message_def)
next
  case False
  let ?h = "is_some_n addr"
  let ?d0 = "0x10 OR of_nat (length p div 256) :: u8" and ?r = "take (6 - ?h) p"
  have ff: "ff_of addr (start_frame addr @ ?d0 # of_nat (length p) # ?r) (length p) ?r"
    unfolding ff_of_def using ff_dl_encode [OF assms(2)] False
    by (intro exI [of _ ?d0] exI [of _ "of_nat (length p)"]) (simp add: drop_bit_eq_div)
  have "drop (6 - ?h) p \<noteq> []" using False by simp
  from cf_frames_cfs [OF this, of addr padding "Suc 0"] obtain ds d
    where ds: "length (cf_frames addr padding 1 (drop (6 - ?h) p)) = length (ds @ [d])"
      "\<forall>i < length (ds @ [d]). cf_of addr (cf_frames addr padding 1 (drop (6 - ?h) p) ! i) (sn_of (Suc 0 + i)) ((ds @ [d]) ! i)"
      "length (concat (map (take (7 - ?h)) ds)) < length (drop (6 - ?h) p)"
      "take (length (drop (6 - ?h) p)) (concat (map (take (7 - ?h)) (ds @ [d]))) = drop (6 - ?h) p"
    by (auto simp: sn_of_0)
  have "cfs_of addr (cf_frames addr padding 1 (drop (6 - ?h) p)) (ds @ [d])"
    using ds(1,2) by (simp add: cfs_of_def)
  moreover have "length (joined addr ?r ds) < length p" using ds(3) by (simp add: joined_def)
  moreover have "take (length p) (joined addr ?r (ds @ [d])) = p"
  proof -
    have len: "length p = length ?r + length (drop (6 - ?h) p)" by simp
    have "take (length p) (?r @ concat (map (take (7 - ?h)) (ds @ [d])))
        = ?r @ take (length (drop (6 - ?h) p)) (concat (map (take (7 - ?h)) (ds @ [d])))"
      by (subst len) (simp only: take_append take_all add_diff_cancel_left' le_add1)
    also have "\<dots> = p" by (simp only: ds(4) append_take_drop_id)
    finally show ?thesis by (simp add: joined_def)
  qed
  ultimately show ?thesis
    using False ff unfolding message_def segments_def by auto
qed

section \<open>The host path\<close>

text \<open>What a run of the receiver took off the channel: it reads the clock, polls, and writes flow
  control; \<open>host_reads E s fs s'\<close> has the frames of its own conversation, in order.\<close>

inductive host_reads :: "'s env \<Rightarrow> 's device \<times> isotp \<Rightarrow> bytes list \<Rightarrow> 's device \<times> isotp \<Rightarrow> bool" for E where
  reads_none: "host_reads E s [] s"
| reads_clock: "tp_now E s = (now, s1) \<Longrightarrow> host_reads E s1 fs s2 \<Longrightarrow> host_reads E s fs s2"
| reads_idle: "poll_frame E b s = (Ok None, s1) \<Longrightarrow> host_reads E s1 fs s2 \<Longrightarrow> host_reads E s fs s2"
| reads_flow_control: "host_tx E f s = (Ok (), s1) \<Longrightarrow> host_reads E s1 fs s2 \<Longrightarrow> host_reads E s fs s2"
| reads_frame: "poll_frame E b s = (Ok (Some m), s1) \<Longrightarrow> own_frame (tp_cfg (snd s)) m \<Longrightarrow> host_reads E s1 fs s2
    \<Longrightarrow> host_reads E s (drop 4 (rx_data m) # fs) s2"

lemma poll_frame_own: "poll_frame E b s = (Ok (Some m), s1) \<Longrightarrow> own_frame (tp_cfg (snd s)) m"
  by (auto simp: poll_frame_def sbind_def split: prod.splits sum.splits option.splits if_splits)

text \<open>The end of a reception whose earlier frames were \<open>hs\<close>.\<close>

definition delivered :: "'s env \<Rightarrow> u8 option \<Rightarrow> bytes list \<Rightarrow> 's device \<times> isotp \<Rightarrow> bytes \<Rightarrow> 's device \<times> isotp \<Rightarrow> bool" where
  "delivered E addr hs s p s' \<longleftrightarrow> (\<exists>fs f ms. host_reads E s (fs @ [f]) s' \<and> subseq ms (hs @ fs) \<and> message addr (ms @ [f]) p)"

lemma delivered_step:
  assumes "delivered E addr hs s1 p s'"
  shows "tp_now E s = (now, s1) \<Longrightarrow> delivered E addr hs s p s'"
    and "poll_frame E b s = (Ok None, s1) \<Longrightarrow> delivered E addr hs s p s'"
    and "host_tx E f s = (Ok (), s1) \<Longrightarrow> delivered E addr hs s p s'"
  using assms unfolding delivered_def by (blast intro: host_reads.intros)+

lemma delivered_frame:
  assumes "delivered E addr (hs @ [drop 4 (rx_data m)]) s1 p s'" and "poll_frame E b s = (Ok (Some m), s1)"
  shows "delivered E addr hs s p s'"
proof -
  from assms(1) obtain fs f ms where d: "host_reads E s1 (fs @ [f]) s'" "subseq ms (hs @ drop 4 (rx_data m) # fs)"
    "message addr (ms @ [f]) p" by (auto simp: delivered_def)
  from reads_frame [OF assms(2) poll_frame_own [OF assms(2)] d(1)]
  have "host_reads E s ((drop 4 (rx_data m) # fs) @ [f]) s'" by simp
  with d(2,3) show ?thesis unfolding delivered_def by blast
qed

lemma host_recv_loop_delivers:
  "host_recv_loop E k deadline timeout rx s = Some (Ok p, s') \<Longrightarrow> rx_holds addr hs rx \<Longrightarrow> delivered E addr hs s p s'"
proof (induction k arbitrary: rx s hs)
  case (Suc k)
  obtain now s1 where n: "tp_now E s = (now, s1)" by (metis surj_pair)
  obtain q s2 where q: "poll_frame E (min (deadline - now) (from_millis 200)) s1 = (q, s2)" by (metis surj_pair)
  have err: "map_err IsoTpErr (Inl e) \<noteq> (Ok p :: (bytes, error) res)" for e by (cases e) simp_all
  from Suc.prems(1) n q err obtain got where got: "q = Ok got"
    by (auto split: sum.splits if_splits)
  have "delivered E addr hs s1 p s'"
  proof (cases got)
    case None
    with Suc.prems(1) n q got err have "host_recv_loop E k deadline timeout rx s2 = Some (Ok p, s')"
      by (auto split: sum.splits if_splits)
    from Suc.IH [OF this Suc.prems(2)] show ?thesis
      using q got None by (auto intro: delivered_step)
  next
    case (Some m)
    let ?f = "drop 4 (rx_data m)"
    obtain now2 s3 where n2: "tp_now E s2 = (now2, s3)" by (metis surj_pair)
    obtain e rx1 where step: "rx_on_frame (ev_dbg E) ?f now2 rx = (e, rx1)" by fastforce
    from Suc.prems(1) n q got Some n2 step err obtain ev where ev: "e = Ok ev"
      by (auto split: sum.splits if_splits)
    have ok: "e \<noteq> panic" by (simp add: ev)
    from rx_on_frame_holds [OF step Suc.prems(2) ok] have holds: "rx_holds addr (hs @ [?f]) rx1"
      and fin: "\<And>p. e = Ok (RxDone p) \<Longrightarrow> \<exists>fs. subseq fs hs \<and> message addr (fs @ [?f]) p" by blast+
    have poll: "poll_frame E (min (deadline - now) (from_millis 200)) s1 = (Ok (Some m), s2)"
      using q got Some by simp
    have run: "(case ev of
          SendFc fc \<Rightarrow> (case host_tx E fc s3 of
              (Inl e, s4) \<Rightarrow> stop (Inl e) s4
            | (Inr _, s4) \<Rightarrow> host_recv_loop E k deadline timeout rx1 s4)
        | RxDone p \<Rightarrow> stop (Ok p) s3
        | Continue \<Rightarrow> host_recv_loop E k deadline timeout rx1 s3) = Some (Ok p, s')"
      using Suc.prems(1) n q got Some n2 step ev err by (auto split: sum.splits if_splits rx_event.splits)
    show ?thesis
    proof (cases ev)
      case (SendFc fc)
      with run obtain s4 where s4: "host_tx E fc s3 = (Ok (), s4)" "host_recv_loop E k deadline timeout rx1 s4 = Some (Ok p, s')"
        by (auto split: prod.splits sum.splits)
      from delivered_step(3) [OF Suc.IH [OF s4(2) holds] s4(1)] n2 show ?thesis
        by (intro delivered_frame [OF _ poll]) (rule delivered_step(1))
    next
      case (RxDone p')
      with run have p: "p' = p" "s3 = s'" by simp_all
      from fin [of p] ev RxDone p obtain ms where ms: "subseq ms hs" "message addr (ms @ [?f]) p" by auto
      have "host_reads E s1 ([] @ [?f]) s'"
        using reads_frame [OF poll poll_frame_own [OF poll] reads_clock [OF n2 [unfolded p(2)] reads_none]] by simp
      with ms show ?thesis unfolding delivered_def by (metis append_Nil2)
    next
      case Continue
      with run have "host_recv_loop E k deadline timeout rx1 s3 = Some (Ok p, s')" by simp
      from Suc.IH [OF this holds] n2 show ?thesis
        by (intro delivered_frame [OF _ poll]) (rule delivered_step(1))
    qed
  qed
  then show ?case by (rule delivered_step(1)) (rule n)
qed simp

section \<open>Properties\<close>

lemma rx_feed_holds:
  "rx_feed dbg fs m = (rs, m') \<Longrightarrow> panic \<notin> set rs \<Longrightarrow> rx_holds addr hs m \<Longrightarrow> rx_holds addr (hs @ map fst fs) m'"
proof (induction fs arbitrary: m rs hs)
  case (Cons ft fs)
  obtain f t where ft: "ft = (f, t)" by fastforce
  obtain r m1 where step: "rx_on_frame dbg f t m = (r, m1)" by fastforce
  obtain rs1 where rest: "rx_feed dbg fs m1 = (rs1, m')" and rs: "rs = r # rs1"
    using Cons.prems(1) by (auto simp: ft step split: prod.splits)
  from Cons.prems(2) rs have "r \<noteq> panic" "panic \<notin> set rs1" by auto
  with rx_on_frame_holds [OF step Cons.prems(3)] Cons.IH [OF rest, of "hs @ [f]"] show ?case
    by (simp add: ft)
qed simp

text \<open>C2: The receiver delivers what was sent and nothing else. Whatever frames a release build's
  receive machine is fed, a payload it delivers is the one that a single frame, or a first frame and
  the consecutive frames numbered after it, carry among the frames fed so far, in their order and
  ending with the last; fed the frames of a message, it delivers the payload with the last of them and
  nothing earlier, whatever came before; and the reference segmentation of any payload of 1 to 4095
  bytes, for every padding and address byte, is a message carrying it.\<close>
theorem rx_delivers_messages:
  fixes addr :: "u8 option" and p :: bytes and fs :: "(bytes \<times> instant) list"
  assumes "m = rx_with_addr bs stmin padding n_cr addr"
  shows "(i < length fs \<longrightarrow> fst (rx_feed False fs m) ! i = Ok (RxDone p) \<longrightarrow>
       (\<exists>ms. subseq ms (map fst (take i fs)) \<and> message addr (ms @ [fst (fs ! i)]) p))
    \<and> (message addr (map fst fs) p \<longrightarrow>
       (\<exists>rs. fst (rx_feed False (pre @ fs) m) = fst (rx_feed False pre m) @ rs @ [Ok (RxDone p)] \<and> list_all goes_on rs))
    \<and> (p \<noteq> [] \<longrightarrow> length p \<le> 4095 \<longrightarrow> message addr (segments addr pad p) p)"
proof (intro conjI impI)
  have holds: "rx_holds addr [] m" by (simp add: assms rx_holds_init)
  then have inv: "rx_inv m" by (simp add: rx_holds_def)
  have calm: "panic \<notin> set (fst (rx_feed False xs m))" for xs
    using rx_feed_safe [OF _ inv, of xs] by (cases "rx_feed False xs m") auto
  show "\<exists>ms. subseq ms (map fst (take i fs)) \<and> message addr (ms @ [fst (fs ! i)]) p"
    if "i < length fs" "fst (rx_feed False fs m) ! i = Ok (RxDone p)"
    using rx_feed_sound [OF _ holds _ that(1), of False] calm [of fs] that(2)
    by (cases "rx_feed False fs m") auto
  show "\<exists>rs. fst (rx_feed False (pre @ fs) m) = fst (rx_feed False pre m) @ rs @ [Ok (RxDone p)] \<and> list_all goes_on rs"
    if "message addr (map fst fs) p"
  proof -
    obtain rs0 m0 where pre: "rx_feed False pre m = (rs0, m0)" by fastforce
    have "rx_addr m0 = addr"
      using rx_feed_holds [OF pre _ holds] calm [of pre] by (simp add: pre rx_holds_def)
    from rx_feed_message [OF that this] obtain rs where "fst (rx_feed False fs m0) = rs @ [Ok (RxDone p)]" "list_all goes_on rs" .
    then show ?thesis by (auto simp: rx_feed_append pre case_prod_unfold)
  qed
  show "message addr (segments addr pad p) p" if "p \<noteq> []" "length p \<le> 4095"
    using that by (rule message_segments)
qed

text \<open>The ten bytes in a first and a consecutive frame, to a machine that was fed noise before.\<close>

lemma rx_delivers_messages_witness:
  "\<exists>rs. fst (rx_feed False (([0x21, 7], 0) # map (\<lambda>f. (f, 5)) (segments None (Some 0) ten)) (rx_with_addr 0 0 None 1000 None))
     = rs @ [Ok (RxDone ten)]"
proof -
  let ?m = "rx_with_addr 0 0 None 1000 None"
  let ?fs = "map (\<lambda>f. (f, 5 :: instant)) (segments None (Some 0) ten)"
  note all = rx_delivers_messages [OF refl, of 0 ?fs 0 0 None 1000 None ten "[([0x21, 7], 0)]" "Some 0"]
  have "ten \<noteq> []" "length ten \<le> 4095" "map fst ?fs = segments None (Some 0) ten"
    by (simp_all add: ten_def comp_def)
  with all have "\<exists>rs. fst (rx_feed False ([([0x21, 7], 0)] @ ?fs) ?m) = fst (rx_feed False [([0x21, 7], 0)] ?m) @ rs @ [Ok (RxDone ten)]"
    by (simp only: simp_thms) blast
  then show ?thesis by (metis append.assoc append_Cons append_Nil)
qed

text \<open>C8: A payload that the host path's \<open>recv\<close> returns was sent to it: among the frames of its own
  conversation that it took off the channel, in their order, are those of a message carrying exactly
  that payload, and the last one taken completes it. This holds in either build, over any port.\<close>
theorem host_recv_delivers:
  assumes "host_recv E k timeout s = Some (Ok p, s')"
  shows "\<exists>fs f ms. host_reads E s (fs @ [f]) s' \<and> subseq ms fs
    \<and> message (tc_ext_addr (tp_cfg (snd s))) (ms @ [f]) p"
proof -
  let ?cfg = "tp_cfg (snd s)"
  let ?rx = "rx_with_addr (tc_rx_bs ?cfg) (tc_rx_stmin ?cfg) (tc_padding ?cfg) (tc_n_cr ?cfg) (tc_ext_addr ?cfg)"
  obtain now s1 where n: "tp_now E s = (now, s1)" by (metis surj_pair)
  with assms have "host_recv_loop E k (now + timeout) timeout ?rx s1 = Some (Ok p, s')"
    by (simp add: host_recv_def Let_def)
  from host_recv_loop_delivers [OF this rx_holds_init] have "delivered E (tc_ext_addr ?cfg) [] s1 p s'" .
  from delivered_step(1) [OF this n] show ?thesis by (simp add: delivered_def)
qed

text \<open>A single frame that waits in the queue.\<close>

definition waiting_host :: "mock device \<times> isotp" where
  "waiting_host = ((fst quiet_host)\<lparr>dv_actor := enqueue Can \<lparr>rx_status = 0, rx_data = [0, 0, 7, 0xe8, 2, 0x3e, 0]\<rparr>
     (dv_actor (fst quiet_host))\<rparr>, snd quiet_host)"

lemma host_recv_delivers_witness:
  "\<exists>fs f ms s'. host_reads (mock_env False xor_cipher xor_cipher) waiting_host (fs @ [f]) s'
     \<and> subseq ms fs \<and> message None (ms @ [f]) [0x3e, 0]"
proof -
  have "map_option fst (host_recv (mock_env False xor_cipher xor_cipher) 1 1000 waiting_host) = Some (Ok [0x3e, 0])"
    by (simp add: host_recv_def Let_def waiting_host_def quiet_host_def isotp_config_new_def tp_now_def enqueue_def
        actor_new_def mock_transport_def mock_new_def mock_env_def rx_with_addr_def rx_check_timeout_def poll_frame_def on_host_def
        chan_poll_def raw_poll_def on_dev_def poll_proto_def dev_request_def handle_def actor_poll_def own_frame_def
        is_indication_def flags_contain_def rx_on_frame_def rx_single_def slice_def idx_def channel_new_def sbind_def
        NOT_DATA_def u32_be_def)
  then obtain s' where "host_recv (mock_env False xor_cipher xor_cipher) 1 1000 waiting_host = Some (Ok [0x3e, 0], s')"
    by auto
  moreover have "tc_ext_addr (tp_cfg (snd waiting_host)) = None"
    by (simp add: waiting_host_def quiet_host_def isotp_config_new_def)
  ultimately show ?thesis
    using host_recv_delivers [of "mock_env False xor_cipher xor_cipher" 1 1000 waiting_host "[0x3e, 0]" s'] by metis
qed

section \<open>Sent payloads\<close>

lemma host_send_Ok_length: "host_send E k p s = Some (Ok (), s') \<Longrightarrow> p \<noteq> [] \<and> length p \<le> 4095"
proof -
  let ?cfg = "tp_cfg (snd s)"
  assume "host_send E k p s = Some (Ok (), s')"
  moreover have "map_err IsoTpErr (Inl e) \<noteq> (Ok () :: (unit, error) res)" for e by (cases e) simp_all
  ultimately obtain tx where "tx_with_addr p (tc_padding ?cfg) (tc_n_bs ?cfg) (tc_wft_max ?cfg) (tc_ext_addr ?cfg) = Inr tx"
    by (auto simp: host_send_def Let_def split: sum.splits)
  then show ?thesis using tx_with_addr_Ok(1,2) by blast
qed

end
