(* ===== verification/KLine.thy ===== *)
theory KLine
  imports IsoTp Exchanges
begin

text \<open>
  \<open>rmvci-core/src/kline.rs\<close>: one ISO 14230 ECU behind a K-line channel. \<open>kline_ecu\<close> is the
  struct \<open>KLineEcu\<close>; a request frames the service bytes, waits out response-pending storms up to
  a time limit and re-initialises the ECU after a storm or a silence. The request loop carries
  fuel for its rounds, \<open>n\<close> is that of each read.
\<close>

section \<open>Constants and framing\<close>

definition MAX_PENDING_TIME :: duration where "MAX_PENDING_TIME = from_secs 20"
definition FLUSH_MAX_FRAMES :: nat where "FLUSH_MAX_FRAMES = 64"
definition FLUSH_POLL :: duration where "FLUSH_POLL = from_millis 400"
definition PENDING_READ_TIMEOUT :: duration where "PENDING_READ_TIMEOUT = from_millis 3000"

definition KLINE_TIMING :: "(u32 \<times> u32) list" where
  "KLINE_TIMING =
     [(0x01, 9600), (0x07, 40), (0x0a, 10), (0x0b, 10), (0x13, 300), (0x14, 35), (0x15, 50),
      (0x0e, 25), (0x0f, 20), (0x10, 20), (0x11, 25), (0x12, 10)]"

definition TESTER_DEFAULT :: u8 where "TESTER_DEFAULT = 0xf0"

definition build_frame :: "u8 \<Rightarrow> u8 \<Rightarrow> bytes \<Rightarrow> bytes" where
  "build_frame ecu tester payload =
     (if length payload < 0x40
      then [0x80 OR of_nat (length payload), ecu, tester]
      else [0x80, ecu, tester, of_nat (length payload)]) @ payload"

definition strip_header :: "bytes \<Rightarrow> (bytes, error) res" where
  "strip_header frame =
     (if length frame < 4 then Err (Codec (MalformedReply ''K-line frame shorter than a header''))
      else rbind (idx frame 0) (\<lambda>fmt.
        rbind (if fmt AND 0x3f = 0 then rbind (idx frame 3) (\<lambda>l. Ok (4, unat l))
               else Ok (3, unat (fmt AND 0x3f))) (\<lambda>(hdr, len).
          slice frame hdr (min (hdr + len) (length frame)))))"

section \<open>The ECU\<close>

record kline_ecu =
  ke_chan :: channel
  ke_ecu :: u8
  ke_tester :: u8

type_synonym ('a, 's) ecu_op = "('a, error, 's device \<times> kline_ecu) op"
type_synonym ('a, 's) ecu_outcome = "(('a, error) res \<times> ('s device \<times> kline_ecu)) option"

definition kline_new :: "channel \<Rightarrow> u8 \<Rightarrow> kline_ecu" where
  "kline_new c ecu = \<lparr>ke_chan = c, ke_ecu = ecu, ke_tester = TESTER_DEFAULT\<rparr>"

definition with_tester :: "u8 \<Rightarrow> kline_ecu \<Rightarrow> kline_ecu" where
  "with_tester t k = k\<lparr>ke_tester := t\<rparr>"

definition on_ecu :: "('a, error, 's device \<times> channel) op \<Rightarrow> ('a, 's) ecu_op" where
  "on_ecu m s = (case m (fst s, ke_chan (snd s)) of (r, (d, c)) \<Rightarrow> (r, (d, (snd s)\<lparr>ke_chan := c\<rparr>)))"

fun set_timing :: "'s env \<Rightarrow> (u32 \<times> u32) list \<Rightarrow> (unit, error, 's device \<times> channel) op" where
  "set_timing E [] = sreturn ()"
| "set_timing E ((param, v) # ps) = sbind (chan_set_config E param v) (\<lambda>_. set_timing E ps)"

definition kline_setup :: "'s env \<Rightarrow> (u32 \<times> u32) list \<Rightarrow> (unit, error, 's device \<times> channel) op" where
  "kline_setup E timing =
     sbind (set_filter E (encode_kline \<lparr>kf_mask = 0xc0, kf_pattern = 0x80\<rparr>)) (\<lambda>_.
     sbind (set_timing E timing) (\<lambda>_. kline_clear_periodic E))"

text \<open>A failure after the connect drops the channel.\<close>

definition connect_with :: "'s env \<Rightarrow> u8 \<Rightarrow> (u32 \<times> u32) list \<Rightarrow> (kline_ecu, error, 's device) op" where
  "connect_with E ecu timing =
     sbind (dev_connect E Iso14230 (kline_wire kline_config_default)) (\<lambda>c d.
       case kline_setup E timing (d, c) of
         (Inl Panic, (d', c')) \<Rightarrow> (panic, d')
       | (Inl (Fail e), (d', c')) \<Rightarrow> (Err e, raw_drop E d' c')
       | (Inr _, (d', c')) \<Rightarrow> (Ok (kline_new c' ecu), d'))"

definition kline_connect :: "'s env \<Rightarrow> u8 \<Rightarrow> (kline_ecu, error, 's device) op" where
  "kline_connect E ecu = connect_with E ecu KLINE_TIMING"

definition ecu_frame :: "kline_ecu \<Rightarrow> bytes \<Rightarrow> bytes" where
  "ecu_frame k payload = build_frame (ke_ecu k) (ke_tester k) payload"

definition ecu_fast_init :: "'s env \<Rightarrow> (bytes, 's) ecu_op" where
  "ecu_fast_init E s = on_ecu (kline_fast_init E (ecu_frame (snd s) [0x81])) s"

section \<open>Recovery\<close>

fun flush_from :: "'s env \<Rightarrow> nat \<Rightarrow> nat \<Rightarrow> (nat, 's) ecu_op" where
  "flush_from E 0 n s = (Ok n, s)"
| "flush_from E (Suc k) n s =
     (case on_ecu (chan_poll E FLUSH_POLL) s of
        (Inl Panic, s1) \<Rightarrow> (panic, s1)
      | (Inr (Some _), s1) \<Rightarrow> flush_from E k (n + 1) s1
      | (_, s1) \<Rightarrow> (Ok n, s1))"

definition flush_ring :: "'s env \<Rightarrow> (nat, 's) ecu_op" where
  "flush_ring E = flush_from E FLUSH_MAX_FRAMES 0"

definition reinit :: "'s env \<Rightarrow> (unit, 's) ecu_op" where
  "reinit E =
     sbind (flush_ring E) (\<lambda>_ s.
       case ecu_fast_init E s of
         (Inl Panic, s1) \<Rightarrow> (panic, s1)
       | (_, s1) \<Rightarrow> (Ok (), s1))"

definition recover_from_storm :: "'s env \<Rightarrow> bytes \<Rightarrow> (bytes, 's) ecu_op" where
  "recover_from_storm E nrc = sbind (reinit E) (\<lambda>_. sreturn nrc)"

section \<open>Requests\<close>

definition ecu_now :: "'s env \<Rightarrow> 's device \<times> kline_ecu \<Rightarrow> instant \<times> ('s device \<times> kline_ecu)" where
  "ecu_now E s =
     (case t_now (ev_io E) (ac_io (dv_actor (fst s))) of
        (now, w) \<Rightarrow> (now, ((fst s)\<lparr>dv_actor := (dv_actor (fst s))\<lparr>ac_io := w\<rparr>\<rparr>, snd s)))"

definition ecu_read :: "'s env \<Rightarrow> nat \<Rightarrow> duration \<Rightarrow> 's device \<times> kline_ecu \<Rightarrow> (rx_msg, 's) ecu_outcome" where
  "ecu_read E n timeout s =
     map_option (\<lambda>(r, (d, c)). (r, (d, (snd s)\<lparr>ke_chan := c\<rparr>)))
       (chan_read E n timeout (fst s, ke_chan (snd s)))"

fun request_loop :: "'s env \<Rightarrow> nat \<Rightarrow> nat \<Rightarrow> instant \<Rightarrow> duration \<Rightarrow> bytes option
    \<Rightarrow> 's device \<times> kline_ecu \<Rightarrow> (bytes, 's) ecu_outcome" where
  "request_loop E n 0 start timeout last_pending s = None"
| "request_loop E n (Suc k) start timeout last_pending s =
     (let read_to = (case last_pending of Some _ \<Rightarrow> max timeout PENDING_READ_TIMEOUT | None \<Rightarrow> timeout) in
      case ecu_read E n read_to s of
        None \<Rightarrow> None
      | Some (Inr raw, s1) \<Rightarrow>
          (case strip_header (rx_data raw) of
             Inl e \<Rightarrow> stop (Inl e) s1
           | Inr resp \<Rightarrow>
               if is_response_pending resp
               then (case ecu_now E s1 of (now, s2) \<Rightarrow>
                 if now - start \<ge> MAX_PENDING_TIME then Some (recover_from_storm E resp s2)
                 else request_loop E n k start timeout (Some resp) s2)
               else stop (Ok resp) s1)
      | Some (Inl (Fail (Timeout t)), s1) \<Rightarrow>
          (case last_pending of
             Some nrc \<Rightarrow> Some (recover_from_storm E nrc s1)
           | None \<Rightarrow> Some (sbind (reinit E) (\<lambda>_. sthrow (Timeout t)) s1))
      | Some (Inl e, s1) \<Rightarrow> stop (Inl e) s1)"

definition ecu_request :: "'s env \<Rightarrow> nat \<Rightarrow> nat \<Rightarrow> bytes \<Rightarrow> duration \<Rightarrow> 's device \<times> kline_ecu \<Rightarrow> (bytes, 's) ecu_outcome" where
  "ecu_request E n k req timeout s =
     (case on_ecu (kline_clear_periodic E) s of
        (Inl e, s1) \<Rightarrow> stop (Inl e) s1
      | (Inr _, s1) \<Rightarrow>
          (case on_ecu (kline_write E (ecu_frame (snd s1) req)) s1 of
             (Inl e, s2) \<Rightarrow> stop (Inl e) s2
           | (Inr _, s2) \<Rightarrow>
               (case ecu_now E s2 of (start, s3) \<Rightarrow> request_loop E n k start timeout None s3)))"

definition start_session :: "'s env \<Rightarrow> nat \<Rightarrow> nat \<Rightarrow> u8 \<Rightarrow> 's device \<times> kline_ecu \<Rightarrow> (bytes, 's) ecu_outcome" where
  "start_session E n k mode = ecu_request E n k [0x10, mode] (from_millis 1500)"

definition ecu_tester_present :: "'s env \<Rightarrow> nat \<Rightarrow> nat \<Rightarrow> 's device \<times> kline_ecu \<Rightarrow> (bytes, 's) ecu_outcome" where
  "ecu_tester_present E n k = ecu_request E n k [0x3e, 0x01] (from_millis 1000)"

section \<open>Framing round trip\<close>

lemma header_length_byte:
  assumes "n < 64"
  shows "(0x80 OR of_nat n) AND (0x3f :: u8) = of_nat n"
proof -
  have "(0x80 OR of_nat n) AND (0x3f :: u8) = of_nat n AND 0x3f"
    by (simp add: bit.conj_disj_distrib2)
  also have "\<dots> = take_bit 6 (of_nat n)"
    by (simp add: take_bit_eq_mask mask_eq_exp_minus_1)
  also have "\<dots> = of_nat (take_bit 6 n)"
    by (rule take_bit_of_nat)
  also have "take_bit 6 n = n"
    using assms by (simp add: take_bit_nat_eq_self)
  finally show ?thesis .
qed

text \<open>Stripping the header undoes the framing for every payload of 1 to 255 bytes, short and long
  form; an empty payload makes a frame that is refused, and beyond 255 bytes the length byte wraps,
  so only the payload's length modulo 256 survives.\<close>
theorem strip_build_frame:
  "strip_header (build_frame ecu tester p) =
     (if p = [] then Err (Codec (MalformedReply ''K-line frame shorter than a header''))
      else if length p < 64 then Ok p else Ok (take (length p mod 256) p))"
proof (cases "length p < 64")
  case True
  show ?thesis
  proof (cases "p = []")
    case False
    define w where "w = (of_nat (length p) :: u8)"
    have n: "unat w = length p" using True by (simp add: w_def unat_of_nat_u8)
    have hb: "(0x80 OR w) AND 0x3f = w" using True by (simp add: w_def header_length_byte)
    have "w \<noteq> 0" using n False by (metis length_0_conv unsigned_0)
    moreover have "\<not> length p + 3 < 4" using False by (cases p) simp_all
    ultimately show ?thesis
      using True False n hb by (simp add: strip_header_def build_frame_def flip: w_def)
  qed (simp add: strip_header_def build_frame_def)
next
  case False
  have "unat (of_nat (length p) :: u8) = length p mod 256"
    by (simp add: unat_of_nat)
  moreover have "length p mod 256 \<le> length p" by simp
  ultimately show ?thesis
    using False by (cases p) (auto simp: strip_header_def build_frame_def)
qed

section \<open>Requests end, and end recovered\<close>

lemma flush_from_not_Err: "flush_from E k n s \<noteq> (Err e, s')"
  by (induction E k n s rule: flush_from.induct) (auto split: prod.splits sum.splits fault.splits option.splits)

lemma flush_not_Err: "flush_ring E s = (Err e, s') \<Longrightarrow> False"
  by (simp add: flush_ring_def flush_from_not_Err)

definition ecu_queued :: "'s device \<times> kline_ecu \<Rightarrow> nat" where
  "ecu_queued s = cqueued (fst s, ke_chan (snd s))"

context paced_session
begin

abbreviation "etime \<equiv> \<lambda>s :: 's device \<times> kline_ecu. time (ac_io (dv_actor (fst s)))"

lemma ecu_now_between:
  assumes "ecu_now E s = (now, s')"
  shows "etime s \<le> now \<and> now \<le> etime s' \<and> ecu_queued s' = ecu_queued s"
  using assms now_between [of "ac_io (dv_actor (fst s))"]
  by (auto simp: ecu_now_def ecu_queued_def cqueued_def split: prod.splits)

lemma ecu_read_moves:
  assumes "ecu_read E n t s = Some (Ok m, s')"
  shows "etime s \<le> etime s' \<and> ecu_queued s' \<le> ecu_queued s \<and> (etime s < etime s' \<or> ecu_queued s' < ecu_queued s)"
proof -
  obtain d c where "raw_read E n t (fst s, ke_chan (snd s)) = Some (Ok m, (d, c))" "s' = (d, (snd s)\<lparr>ke_chan := c\<rparr>)"
    using assms by (auto simp: ecu_read_def chan_read_def)
  with raw_read_moves [OF this(1)] show ?thesis by (auto simp: moved_on_def ecu_queued_def)
qed

lemma ecu_read_ends:
  assumes "t + from_millis 2 \<le> n * from_millis 2"
  shows "\<exists>r s'. ecu_read E n t s = Some (r, s')"
  using raw_read_ends [OF assms, of "(fst s, ke_chan (snd s))"] by (auto simp: ecu_read_def chan_read_def)

lemma request_loop_ends:
  assumes "max timeout PENDING_READ_TIMEOUT + from_millis 2 \<le> n * from_millis 2"
    and "start + MAX_PENDING_TIME - etime s + ecu_queued s \<le> k"
  shows "\<exists>r s'. request_loop E n (Suc k) start timeout last_pending s = Some (r, s')"
  using assms(2)
proof (induction k arbitrary: s last_pending rule: less_induct)
  case (less k)
  let ?t = "case last_pending of Some _ \<Rightarrow> max timeout PENDING_READ_TIMEOUT | None \<Rightarrow> timeout"
  have "?t + from_millis 2 \<le> n * from_millis 2"
    using assms(1) by (auto split: option.split)
  from ecu_read_ends [OF this] obtain r s1 where rd: "ecu_read E n ?t s = Some (r, s1)" by blast
  show ?case
  proof (cases "\<exists>m resp. r = Ok m \<and> strip_header (rx_data m) = Ok resp \<and> is_response_pending resp")
    case True
    then obtain m resp where m: "r = Ok m" "strip_header (rx_data m) = Ok resp" "is_response_pending resp" by blast
    obtain now s2 where n: "ecu_now E s1 = (now, s2)" by (metis surj_pair)
    show ?thesis
    proof (cases "now - start \<ge> MAX_PENDING_TIME")
      case True
      with rd m n show ?thesis
        by (cases "recover_from_storm E resp s2") (simp add: Let_def)
    next
      case False
      have dec: "start + MAX_PENDING_TIME - etime s2 + ecu_queued s2 < k"
        using ecu_read_moves [OF rd [unfolded m(1)]] ecu_now_between [OF n] False less.prems by arith
      then obtain j where j: "k = Suc j" by (cases k) auto
      with less.IH [of j s2 "Some resp"] dec
      obtain r s' where "request_loop E n k start timeout (Some resp) s2 = Some (r, s')" by auto
      with rd m n False show ?thesis by (simp add: Let_def)
    qed
  next
    case False
    show ?thesis
    proof (cases r)
      case (Inr m)
      with False rd show ?thesis
        by (cases "strip_header (rx_data m)") (auto simp: Let_def)
    next
      case (Inl f)
      show ?thesis
      proof (cases "\<exists>t. f = Fail (Timeout t)")
        case True
        with Inl rd show ?thesis
          by (cases last_pending) (auto simp: Let_def, (metis surj_pair)+)
      next
        case False
        with Inl rd show ?thesis
          by (auto simp: Let_def split: fault.splits error.splits)
      qed
    qed
  qed
qed

end

text \<open>What ends a request with a pending reply or with the ECU silent is a re-initialisation.\<close>

lemma recover_reinit: "recover_from_storm E x s = (Ok y, s') \<Longrightarrow> reinit E s = (Ok (), s')"
  by (auto simp: recover_from_storm_def sbind_eq_Ok)

lemma reinit_not_Err: "reinit E s \<noteq> (Err e, s')"
  by (auto simp: reinit_def sbind_eq_Inl split: prod.splits sum.splits fault.splits dest: flush_not_Err)

lemma recover_not_Err: "recover_from_storm E x s \<noteq> (Err e, s')"
  by (auto simp: recover_from_storm_def sbind_eq_Inl reinit_not_Err)

lemma strip_header_not_Timeout: "strip_header f \<noteq> Err (Timeout t)"
  by (auto simp: strip_header_def rbind_def idx_def slice_def split: sum.splits if_splits)

definition recovered :: "'s env \<Rightarrow> 's device \<times> kline_ecu \<Rightarrow> bool" where
  "recovered E s' \<longleftrightarrow> (\<exists>s0. reinit E s0 = (Ok (), s'))"

lemma recoveredI: "reinit E s0 = (Ok (), s') \<Longrightarrow> recovered E s'"
  unfolding recovered_def by blast

lemma request_loop_recovers:
  assumes "request_loop E n k start timeout last_pending s = Some (r, s')"
    and "(\<exists>x. r = Ok x \<and> is_response_pending x) \<or> (\<exists>t. r = Err (Timeout t))"
  shows "recovered E s'"
  using assms(1)
proof (induction k arbitrary: s last_pending)
  case (Suc k)
  let ?t = "case last_pending of Some _ \<Rightarrow> max timeout PENDING_READ_TIMEOUT | None \<Rightarrow> timeout"
  obtain q s1 where rd: "ecu_read E n ?t s = Some (q, s1)"
    using Suc.prems by (cases "ecu_read E n ?t s") (auto simp: Let_def)
  have storm: "recover_from_storm E x s0 = (r, s') \<Longrightarrow> recovered E s'" for x s0
    using assms(2) by (metis recoveredI recover_reinit recover_not_Err)
  have quiet: "sbind (reinit E) (\<lambda>_. sthrow (Timeout t)) s0 = (r, s') \<Longrightarrow> recovered E s'" for t s0
    using assms(2) by (auto simp: sbind_eq_Inl sbind_eq_Ok reinit_not_Err intro: recoveredI)
  show ?case
  proof (cases q)
    case (Inr m)
    show ?thesis
    proof (cases "strip_header (rx_data m)")
      case (Inl e)
      with Suc.prems rd Inr assms(2) strip_header_not_Timeout [of "rx_data m"] show ?thesis
        by (auto simp: Let_def)
    next
      case ok: (Inr resp)
      show ?thesis
      proof (cases "is_response_pending resp")
        case True
        obtain now s2 where n: "ecu_now E s1 = (now, s2)" by (metis surj_pair)
        have "recover_from_storm E resp s2 = (r, s') \<or> request_loop E n k start timeout (Some resp) s2 = Some (r, s')"
          using Suc.prems rd Inr ok True n by (auto simp: Let_def split: if_splits)
        then show ?thesis using storm Suc.IH by blast
      next
        case False
        with Suc.prems rd Inr ok have "r = Ok resp" by (simp add: Let_def)
        with False assms(2) show ?thesis by auto
      qed
    qed
  next
    case (Inl f)
    show ?thesis
    proof (cases "\<exists>t. f = Fail (Timeout t)")
      case True
      then obtain t where "f = Fail (Timeout t)" ..
      with Suc.prems rd Inl have "(\<exists>x. recover_from_storm E x s1 = (r, s'))
          \<or> sbind (reinit E) (\<lambda>_. sthrow (Timeout t)) s1 = (r, s')"
        by (cases last_pending) (auto simp: Let_def)
      then show ?thesis using storm quiet by blast
    next
      case False
      with Suc.prems rd Inl have "r = Inl f"
        by (auto simp: Let_def split: fault.splits error.splits)
      with False assms(2) show ?thesis by auto
    qed
  qed
qed simp

lemma clear_periodic_queued:
  assumes "on_ecu (kline_clear_periodic E) s = (r, s')"
  shows "ecu_queued s' = ecu_queued s"
proof -
  obtain q d c where st: "raw_status E (clear_periodic (rc_proto (ke_chan (snd s)))) Ioctl (from_millis 1000)
      (fst s, ke_chan (snd s)) = (q, (d, c))" by (metis surj_pair)
  with assms have "s' = (d, (snd s)\<lparr>ke_chan := c\<rparr>)"
    by (simp add: on_ecu_def kline_clear_periodic_def raw_clear_periodic_def)
  then show ?thesis
    using raw_status_queues [OF st] keepsD [OF raw_status_chan st] by (simp add: ecu_queued_def cqueued_def)
qed

lemma kline_write_queued:
  assumes "on_ecu (kline_write E msg) s = (r, s')"
  shows "ecu_queued s' = ecu_queued s"
proof -
  obtain q d c where w: "raw_write E 0 msg (fst s, ke_chan (snd s)) = (q, (d, c))" by (metis surj_pair)
  with assms have "s' = (d, (snd s)\<lparr>ke_chan := c\<rparr>)" by (simp add: on_ecu_def kline_write_def)
  then show ?thesis
    using raw_write_queues [OF w] by (simp add: ecu_queued_def cqueued_def)
qed

text \<open>C12: A K-line request ends, over any port whose writes take time and whatever the ECU does, also
  when it streams response-pending replies forever: the storm is cut off after twenty seconds.
  The rounds are bounded by the clock ticks of the limit and the messages queued.\<close>
theorem ecu_request_returns:
  assumes "paced_session E time" and "max timeout PENDING_READ_TIMEOUT + from_millis 2 \<le> n * from_millis 2"
    and "MAX_PENDING_TIME + ecu_queued s < k"
  shows "\<exists>r s'. ecu_request E n k req timeout s = Some (r, s')"
proof -
  obtain x s1 where 1: "on_ecu (kline_clear_periodic E) s = (x, s1)" by (metis surj_pair)
  show ?thesis
  proof (cases x)
    case (Inl e)
    with 1 show ?thesis by (simp add: ecu_request_def)
  next
    case (Inr u)
    obtain y s2 where 2: "on_ecu (kline_write E (ecu_frame (snd s1) req)) s1 = (y, s2)" by (metis surj_pair)
    show ?thesis
    proof (cases y)
      case (Inl e)
      with 1 2 Inr show ?thesis by (simp add: ecu_request_def)
    next
      case ok: (Inr v)
      obtain start s3 where 3: "ecu_now E s2 = (start, s3)" by (metis surj_pair)
      have "ecu_queued s1 = ecu_queued s" by (rule clear_periodic_queued [OF 1])
      moreover have "ecu_queued s2 = ecu_queued s1" by (rule kline_write_queued [OF 2])
      moreover obtain j where j: "k = Suc j" "MAX_PENDING_TIME + ecu_queued s \<le> j"
        using assms(3) by (cases k) auto
      ultimately have "start + MAX_PENDING_TIME - time (ac_io (dv_actor (fst s3))) + ecu_queued s3 \<le> j"
        using paced_session.ecu_now_between [OF assms(1) 3] by arith
      from paced_session.request_loop_ends [OF assms(1,2) this] 1 2 3 Inr ok show ?thesis
        by (auto simp: ecu_request_def j(1) simp del: request_loop.simps)
    qed
  qed
qed

lemma ecu_request_returns_witness:
  "\<exists>r s'. ecu_request (mock_env True xor_cipher xor_cipher) 1501 20000000001 [0x21, 0x0d] (from_millis 1500)
     (\<lparr>dv_actor = actor_new mock_transport None [1] (mock_new []), dv_alive = True, dv_handles = 1, dv_closed = False\<rparr>,
      kline_new (channel_new \<lparr>rc_proto = Iso14230, rc_nfilters = 1\<rparr>) 0x98) = Some (r, s')"
  by (rule ecu_request_returns [OF mock_paced.paced_session_axioms])
    (simp_all add: PENDING_READ_TIMEOUT_def MAX_PENDING_TIME_def ecu_queued_def cqueued_def actor_new_def)



end
