(* ===== verification/Diag.thy ===== *)
theory Diag
  imports IsoTp_Paths KLine
begin

text \<open>
  The diagnostic clients of \<open>rmvci-diag\<close>: \<open>common.rs\<close> (validation of a response), \<open>kwp2000.rs\<close>,
  \<open>uds.rs\<close>, \<open>toyota.rs\<close> and \<open>toyota_can.rs\<close>. A client is written over the trait
  \<open>UdsTransport\<close>, here the function \<open>io\<close> that makes one request; \<open>isotp_request\<close> and
  \<open>ecu_request\<close> with their fuel are such functions. The service identifiers come from the crate
  \<open>automotive_diag\<close>: they are the parameter \<open>ids\<close>, and \<open>iso_ids\<close> states the documented values
  the proofs rely on.
\<close>

section \<open>Responses\<close>

datatype diag_error = DTransport error | Negative u8 u8 | EmptyReply | Unexpected u8 bytes

type_synonym 's request_io = "bytes \<Rightarrow> duration \<Rightarrow> 's \<Rightarrow> ((bytes, error) res \<times> 's) option"
type_synonym ('a, 's) diag_call = "'s \<Rightarrow> (('a, diag_error) res \<times> 's) option"

definition parse_positive :: "u8 \<Rightarrow> bytes \<Rightarrow> (bytes, diag_error) res" where
  "parse_positive sid resp =
     (let positive = sid + 0x40 in
      case resp of
        [] \<Rightarrow> Err EmptyReply
      | first # tail \<Rightarrow>
          if first = 0x7f
          then Err (Negative (case tail of [] \<Rightarrow> sid | b # _ \<Rightarrow> b) (case tail of _ # b # _ \<Rightarrow> b | _ \<Rightarrow> 0))
          else if first = positive then Ok tail
          else Err (Unexpected positive resp))"

definition strip_echo :: "bytes \<Rightarrow> bytes \<Rightarrow> (bytes, diag_error) res" where
  "strip_echo resp echo =
     (if length resp \<ge> length echo \<and> take (length echo) resp = echo then Ok (drop (length echo) resp)
      else Err (Unexpected (case echo of [] \<Rightarrow> 0 | b # _ \<Rightarrow> b OR 0x40) resp))"

fun nrc_of :: "diag_error \<Rightarrow> u8 option" where
  "nrc_of (Negative service nrc) = Some nrc"
| "nrc_of _ = None"

text \<open>\<open>(request).and_then(parse)\<close>, and the crate's error conversion at the request.\<close>

definition dthen :: "('a, 's) diag_call \<Rightarrow> ('a \<Rightarrow> ('b, diag_error) res) \<Rightarrow> ('b, 's) diag_call" where
  "dthen m f s = map_option (\<lambda>(r, s1). (rbind r f, s1)) (m s)"

definition drequest :: "'s request_io \<Rightarrow> bytes \<Rightarrow> duration \<Rightarrow> (bytes, 's) diag_call" where
  "drequest io req timeout s = map_option (\<lambda>(r, s1). (map_err DTransport r, s1)) (io req timeout s)"

section \<open>KWP2000\<close>

datatype kwp_command =
    KwpStartDiagnosticSession | KwpECUReset | KwpTesterPresent | KwpSecurityAccess
  | KwpReadDataByLocalIdentifier | KwpReadDataByIdentifier | KwpReadDiagnosticTroubleCodesByStatus
  | KwpReadStatusOfDiagnosticTroubleCodes | KwpClearDiagnosticInformation
  | KwpInputOutputControlByLocalIdentifier | KwpStartRoutineByLocalIdentifier
  | KwpWriteDataByLocalIdentifier

datatype uds_command =
    UdsDiagnosticSessionControl | UdsECUReset | UdsTesterPresent | UdsSecurityAccess
  | UdsCommunicationControl | UdsControlDTCSetting | UdsReadDataByIdentifier
  | UdsWriteDataByIdentifier | UdsClearDiagnosticInformation | UdsReadDTCInformation
  | UdsInputOutputControlByIdentifier | UdsRoutineControl

text \<open>The conversions of the crate \<open>automotive_diag\<close>.\<close>

record diag_ids =
  id_kwp :: "kwp_command \<Rightarrow> u8"
  id_uds :: "uds_command \<Rightarrow> u8"
  id_dtc_by_status_mask :: u8
  id_obd_01 :: u8
  id_obd_03 :: u8
  id_kwp_out_of_range :: u8

text \<open>A client: the wrapped transport is the function \<open>cl_io\<close>, its state is threaded.\<close>

record 's diag_client =
  cl_io :: "'s request_io"
  cl_ids :: diag_ids
  cl_timeout :: duration

definition is_request_out_of_range :: "diag_ids \<Rightarrow> diag_error \<Rightarrow> bool" where
  "is_request_out_of_range ids e \<longleftrightarrow> nrc_of e = Some (id_kwp_out_of_range ids)"

definition client_new :: "'s request_io \<Rightarrow> diag_ids \<Rightarrow> 's diag_client" where
  "client_new io ids = \<lparr>cl_io = io, cl_ids = ids, cl_timeout = from_secs 2\<rparr>"

definition with_timeout :: "duration \<Rightarrow> 's diag_client \<Rightarrow> 's diag_client" where
  "with_timeout t c = c\<lparr>cl_timeout := t\<rparr>"

definition kwp_send_raw :: "'s diag_client \<Rightarrow> u8 \<Rightarrow> bytes \<Rightarrow> (bytes, 's) diag_call" where
  "kwp_send_raw c sid data = dthen (drequest (cl_io c) (sid # data) (cl_timeout c)) (parse_positive sid)"

definition kwp_send :: "'s diag_client \<Rightarrow> kwp_command \<Rightarrow> bytes \<Rightarrow> (bytes, 's) diag_call" where
  "kwp_send c service data = kwp_send_raw c (id_kwp (cl_ids c) service) data"

definition kwp_start_diagnostic_session :: "'s diag_client \<Rightarrow> u8 \<Rightarrow> (bytes, 's) diag_call" where
  "kwp_start_diagnostic_session c session = kwp_send c KwpStartDiagnosticSession [session]"

definition kwp_stop_diagnostic_session :: "'s diag_client \<Rightarrow> (bytes, 's) diag_call" where
  "kwp_stop_diagnostic_session c = kwp_send_raw c 0x20 []"

definition kwp_ecu_reset :: "'s diag_client \<Rightarrow> u8 \<Rightarrow> (bytes, 's) diag_call" where
  "kwp_ecu_reset c reset_type = kwp_send c KwpECUReset [reset_type]"

text \<open>A request that asks for no response takes the transport's time-out for success.\<close>

fun silence_ok :: "bool \<Rightarrow> (bytes, diag_error) res \<Rightarrow> (unit, diag_error) res" where
  "silence_ok quiet (Inr _) = Ok ()"
| "silence_ok quiet (Inl (Fail (DTransport (Timeout t)))) =
     (if quiet then Ok () else Err (DTransport (Timeout t)))"
| "silence_ok quiet (Inl e) = Inl e"

definition kwp_tester_present :: "'s diag_client \<Rightarrow> bool \<Rightarrow> (unit, 's) diag_call" where
  "kwp_tester_present c response_required s =
     map_option (\<lambda>(r, s1). (silence_ok (\<not> response_required) r, s1))
       (kwp_send c KwpTesterPresent [if response_required then 0x01 else 0x02] s)"

definition kwp_security_access :: "'s diag_client \<Rightarrow> u8 \<Rightarrow> bytes \<Rightarrow> (bytes, 's) diag_call" where
  "kwp_security_access c sub data = kwp_send c KwpSecurityAccess (sub # data)"

definition kwp_read_data_by_local_id :: "'s diag_client \<Rightarrow> u8 \<Rightarrow> (bytes, 's) diag_call" where
  "kwp_read_data_by_local_id c lid =
     dthen (kwp_send c KwpReadDataByLocalIdentifier [lid]) (\<lambda>resp. strip_echo resp [lid])"

definition kwp_read_data_by_id :: "'s diag_client \<Rightarrow> u16 \<Rightarrow> (bytes, 's) diag_call" where
  "kwp_read_data_by_id c i =
     dthen (kwp_send c KwpReadDataByIdentifier (u16_be i)) (\<lambda>resp. strip_echo resp (u16_be i))"

definition kwp_read_dtc_by_status :: "'s diag_client \<Rightarrow> u8 \<Rightarrow> u16 \<Rightarrow> (bytes, 's) diag_call" where
  "kwp_read_dtc_by_status c status_mask grp =
     kwp_send c KwpReadDiagnosticTroubleCodesByStatus (status_mask # u16_be grp)"

definition kwp_read_status_of_dtc :: "'s diag_client \<Rightarrow> u16 \<Rightarrow> (bytes, 's) diag_call" where
  "kwp_read_status_of_dtc c grp = kwp_send c KwpReadStatusOfDiagnosticTroubleCodes (u16_be grp)"

definition kwp_clear_diagnostic_information :: "'s diag_client \<Rightarrow> u16 \<Rightarrow> (bytes, 's) diag_call" where
  "kwp_clear_diagnostic_information c grp = kwp_send c KwpClearDiagnosticInformation (u16_be grp)"

definition kwp_read_freeze_frame :: "'s diag_client \<Rightarrow> u8 \<Rightarrow> u8 \<Rightarrow> (bytes, 's) diag_call" where
  "kwp_read_freeze_frame c lid rec = kwp_send_raw c 0x12 [lid, rec]"

definition kwp_io_control_local :: "'s diag_client \<Rightarrow> u8 \<Rightarrow> bytes \<Rightarrow> (bytes, 's) diag_call" where
  "kwp_io_control_local c i params = kwp_send c KwpInputOutputControlByLocalIdentifier (i # params)"

definition kwp_start_routine_local :: "'s diag_client \<Rightarrow> u8 \<Rightarrow> bytes \<Rightarrow> (bytes, 's) diag_call" where
  "kwp_start_routine_local c i params = kwp_send c KwpStartRoutineByLocalIdentifier (i # params)"

definition kwp_write_data_by_local_id :: "'s diag_client \<Rightarrow> u8 \<Rightarrow> bytes \<Rightarrow> (bytes, 's) diag_call" where
  "kwp_write_data_by_local_id c lid v = kwp_send c KwpWriteDataByLocalIdentifier (lid # v)"

section \<open>Toyota's KWP services\<close>

definition SID_TOYOTA_WRITE :: u8 where "SID_TOYOTA_WRITE = 0xa5"

definition active_test :: "'s diag_client \<Rightarrow> u8 \<Rightarrow> u8 \<Rightarrow> (bytes, 's) diag_call" where
  "active_test c actuator_id st = kwp_io_control_local c actuator_id [st]"

definition customize_write_toyota :: "'s diag_client \<Rightarrow> u8 \<Rightarrow> u8 \<Rightarrow> (bytes, 's) diag_call" where
  "customize_write_toyota c lid v = kwp_send_raw c SID_TOYOTA_WRITE [lid, v]"

definition obd_current_data :: "'s diag_client \<Rightarrow> u8 \<Rightarrow> (bytes, 's) diag_call" where
  "obd_current_data c pid =
     dthen (kwp_send_raw c (id_obd_01 (cl_ids c)) [pid])
       (\<lambda>resp. Ok (case resp of echo # data \<Rightarrow> if echo = pid then data else resp | [] \<Rightarrow> resp))"

definition obd_stored_dtcs :: "'s diag_client \<Rightarrow> (bytes, 's) diag_call" where
  "obd_stored_dtcs c = kwp_send_raw c (id_obd_03 (cl_ids c)) []"

section \<open>UDS\<close>

definition uds_send_raw :: "'s diag_client \<Rightarrow> u8 \<Rightarrow> bytes \<Rightarrow> (bytes, 's) diag_call" where
  "uds_send_raw c sid data = dthen (drequest (cl_io c) (sid # data) (cl_timeout c)) (parse_positive sid)"

definition uds_send :: "'s diag_client \<Rightarrow> uds_command \<Rightarrow> bytes \<Rightarrow> (bytes, 's) diag_call" where
  "uds_send c service data = uds_send_raw c (id_uds (cl_ids c) service) data"

definition uds_session_control :: "'s diag_client \<Rightarrow> u8 \<Rightarrow> (bytes, 's) diag_call" where
  "uds_session_control c session = uds_send c UdsDiagnosticSessionControl [session]"

definition uds_ecu_reset :: "'s diag_client \<Rightarrow> u8 \<Rightarrow> (bytes, 's) diag_call" where
  "uds_ecu_reset c reset_type = uds_send c UdsECUReset [reset_type]"

definition uds_tester_present :: "'s diag_client \<Rightarrow> bool \<Rightarrow> (unit, 's) diag_call" where
  "uds_tester_present c suppress_response s =
     map_option (\<lambda>(r, s1). (silence_ok suppress_response r, s1))
       (uds_send c UdsTesterPresent [if suppress_response then 0x80 else 0x00] s)"

definition uds_security_access :: "'s diag_client \<Rightarrow> u8 \<Rightarrow> bytes \<Rightarrow> (bytes, 's) diag_call" where
  "uds_security_access c sub data = uds_send c UdsSecurityAccess (sub # data)"

definition uds_communication_control :: "'s diag_client \<Rightarrow> u8 \<Rightarrow> u8 \<Rightarrow> (bytes, 's) diag_call" where
  "uds_communication_control c control_type comm_type =
     uds_send c UdsCommunicationControl [control_type, comm_type]"

definition uds_control_dtc_setting :: "'s diag_client \<Rightarrow> u8 \<Rightarrow> (bytes, 's) diag_call" where
  "uds_control_dtc_setting c setting = uds_send c UdsControlDTCSetting [setting]"

definition uds_read_data_by_id :: "'s diag_client \<Rightarrow> u16 \<Rightarrow> (bytes, 's) diag_call" where
  "uds_read_data_by_id c did =
     dthen (uds_send c UdsReadDataByIdentifier (u16_be did)) (\<lambda>resp. strip_echo resp (u16_be did))"

definition uds_write_data_by_id :: "'s diag_client \<Rightarrow> u16 \<Rightarrow> bytes \<Rightarrow> (bytes, 's) diag_call" where
  "uds_write_data_by_id c did v = uds_send c UdsWriteDataByIdentifier (u16_be did @ v)"

definition uds_clear_diagnostic_information :: "'s diag_client \<Rightarrow> u32 \<Rightarrow> (bytes, 's) diag_call" where
  "uds_clear_diagnostic_information c grp = uds_send c UdsClearDiagnosticInformation (drop 1 (u32_be grp))"

definition uds_read_dtc_information :: "'s diag_client \<Rightarrow> u8 \<Rightarrow> bytes \<Rightarrow> (bytes, 's) diag_call" where
  "uds_read_dtc_information c sub params = uds_send c UdsReadDTCInformation (sub # params)"

definition uds_read_dtc_by_status_mask :: "'s diag_client \<Rightarrow> u8 \<Rightarrow> (bytes, 's) diag_call" where
  "uds_read_dtc_by_status_mask c status_mask =
     (let sub = id_dtc_by_status_mask (cl_ids c) in
      dthen (uds_read_dtc_information c sub [status_mask]) (\<lambda>resp. strip_echo resp [sub]))"

definition uds_io_control_by_id :: "'s diag_client \<Rightarrow> u16 \<Rightarrow> u8 \<Rightarrow> bytes \<Rightarrow> (bytes, 's) diag_call" where
  "uds_io_control_by_id c did control params =
     dthen (uds_send c UdsInputOutputControlByIdentifier (u16_be did @ control # params))
       (\<lambda>resp. strip_echo resp (u16_be did))"

definition uds_routine_control :: "'s diag_client \<Rightarrow> u8 \<Rightarrow> u16 \<Rightarrow> bytes \<Rightarrow> (bytes, 's) diag_call" where
  "uds_routine_control c sub rid params = uds_send c UdsRoutineControl (sub # u16_be rid @ params)"

section \<open>Responses, exactly\<close>

lemma parse_positive_cases:
  "parse_positive sid resp \<noteq> panic"
  "parse_positive sid resp = Ok d \<longleftrightarrow> sid \<noteq> 0x3f \<and> resp = (sid + 0x40) # d"
proof -
  show "parse_positive sid resp \<noteq> panic"
    by (auto simp: parse_positive_def Let_def split: list.splits)
  have "sid + 0x40 = 0x3f + 0x40 \<longleftrightarrow> sid = (0x3f :: u8)"
    by (rule add_right_cancel)
  then have "sid + 0x40 = 0x7f \<longleftrightarrow> sid = (0x3f :: u8)" by simp
  then show "parse_positive sid resp = Ok d \<longleftrightarrow> sid \<noteq> 0x3f \<and> resp = (sid + 0x40) # d"
    by (auto simp: parse_positive_def Let_def split: list.splits)
qed

lemma strip_echo_cases:
  "strip_echo resp echo \<noteq> panic"
  "strip_echo resp echo = Ok d \<longleftrightarrow> resp = echo @ d"
  by (auto simp: strip_echo_def) (metis append_take_drop_id)

text \<open>One exchange with validation and echo, the shape of every identifier read.\<close>

lemma echoed_reply:
  assumes "io (sid # echo) t s = Some (Ok resp, s')" and "sid \<noteq> 0x3f"
  shows "\<exists>r. dthen (dthen (drequest io (sid # echo) t) (parse_positive sid)) (\<lambda>b. strip_echo b echo) s = Some (r, s')
    \<and> r \<noteq> panic \<and> (\<forall>d. r = Ok d \<longleftrightarrow> resp = (sid + 0x40) # echo @ d)
    \<and> (\<forall>sv nrc. resp = [0x7f, sv, nrc] \<longrightarrow> r = Err (Negative sv nrc))"
proof -
  let ?r = "rbind (parse_positive sid resp) (\<lambda>b. strip_echo b echo)"
  have "dthen (dthen (drequest io (sid # echo) t) (parse_positive sid)) (\<lambda>b. strip_echo b echo) s = Some (?r, s')"
    using assms(1) by (simp add: dthen_def drequest_def)
  moreover have "?r \<noteq> panic"
    by (simp add: rbind_eq_panic parse_positive_cases strip_echo_cases)
  moreover have "?r = Ok d \<longleftrightarrow> resp = (sid + 0x40) # echo @ d" for d
    using assms(2) by (auto simp: rbind_eq_Ok parse_positive_cases strip_echo_cases)
  moreover have "?r = Err (Negative sv nrc)" if "resp = [0x7f, sv, nrc]" for sv nrc
    by (simp add: that parse_positive_def Let_def)
  ultimately show ?thesis by blast
qed

text \<open>The documented identifiers of the three read services.\<close>

definition iso_ids :: "diag_ids \<Rightarrow> bool" where
  "iso_ids ids \<longleftrightarrow> id_uds ids UdsReadDataByIdentifier = 0x22 \<and> id_kwp ids KwpReadDataByIdentifier = 0x22
     \<and> id_kwp ids KwpReadDataByLocalIdentifier = 0x21"

text \<open>C14: The identifier reads of both clients send the service and the identifier and succeed
  exactly on a reply that echoes both, with the bytes after the echo, a refusal of the ECU is
  reported with its service and code, and no reply makes them panic; over any transport.\<close>
theorem read_data_exact:
  assumes "iso_ids (cl_ids c)" and "cl_io c (0x22 # u16_be i) (cl_timeout c) s = Some (Ok resp, s')"
  shows "\<exists>r. uds_read_data_by_id c i s = Some (r, s') \<and> kwp_read_data_by_id c i s = Some (r, s') \<and> r \<noteq> panic
      \<and> (\<forall>d. r = Ok d \<longleftrightarrow> resp = 0x62 # u16_be i @ d)
      \<and> (\<forall>sv nrc. resp = [0x7f, sv, nrc] \<longrightarrow> r = Err (Negative sv nrc))"
  using echoed_reply [of "cl_io c" "0x22" "u16_be i" "cl_timeout c" s resp s'] assms
  unfolding uds_read_data_by_id_def uds_send_def uds_send_raw_def kwp_read_data_by_id_def kwp_send_def
    kwp_send_raw_def iso_ids_def
  by simp

definition example_ids :: diag_ids where
  "example_ids = \<lparr>id_kwp = (\<lambda>k. case k of KwpReadDataByLocalIdentifier \<Rightarrow> 0x21 | _ \<Rightarrow> 0x22),
     id_uds = (\<lambda>_. 0x22), id_dtc_by_status_mask = 2, id_obd_01 = 1, id_obd_03 = 3, id_kwp_out_of_range = 0x31\<rparr>"

lemma read_data_exact_witness:
  "uds_read_data_by_id (client_new (\<lambda>req t s. Some (Ok [0x62, 0xf1, 0x90, 7], s)) example_ids) 0xf190 ()
     = Some (Ok [7], ())"
proof -
  let ?c = "client_new (\<lambda>req t s. Some (Ok [0x62, 0xf1, 0x90, 7], s)) example_ids"
  have "iso_ids (cl_ids ?c)" by (simp add: iso_ids_def client_new_def example_ids_def)
  from read_data_exact [OF this, of "0xf190" "()" "[0x62, 0xf1, 0x90, 7]" "()"]
  obtain r where "uds_read_data_by_id ?c 0xf190 () = Some (r, ())" "r = Ok [7] \<longleftrightarrow> [0x62, 0xf1, 0x90, 7] = 0x62 # u16_be 0xf190 @ [7]"
    by (auto simp: client_new_def)
  moreover have "u16_be 0xf190 = [0xf1, 0x90]" by (simp add: u16_be_def)
  ultimately show ?thesis by simp
qed

end
