(* ===== verification/Toyota_Can.thy ===== *)
theory Toyota_Can
  imports Diag
begin

text \<open>
  \<open>rmvci-diag/src/toyota_can.rs\<close>: Toyota's live data over CAN. The trait \<open>IsoTpChannel\<close> is the
  record \<open>'s isotp_channel\<close> of its two calls; \<open>isotp_send\<close> and \<open>isotp_recv\<close> make one of them.
  The enumeration reads until the ECU is quiet, so it carries fuel.
\<close>

record 's isotp_channel =
  ic_send :: "bytes \<Rightarrow> 's \<Rightarrow> ((unit, error) res \<times> 's) option"
  ic_recv :: "duration \<Rightarrow> 's \<Rightarrow> ((bytes, error) res \<times> 's) option"

definition isotp_as_channel :: "'s env \<Rightarrow> nat \<Rightarrow> ('s device \<times> isotp) isotp_channel" where
  "isotp_as_channel E k = \<lparr>ic_send = isotp_send E k, ic_recv = isotp_recv E k\<rparr>"

record enumerated_pid =
  ep_id :: u8
  ep_width :: u8
  ep_support :: bytes

definition MAX_PENDING :: nat where "MAX_PENDING = 30"

record 's toyota_can =
  tl_io :: "'s isotp_channel"
  tl_timeout :: duration
  tl_enum_gap :: duration

definition toyota_can_new :: "'s isotp_channel \<Rightarrow> 's toyota_can" where
  "toyota_can_new io = \<lparr>tl_io = io, tl_timeout = from_secs 2, tl_enum_gap = from_millis 300\<rparr>"

definition live_with_timeout :: "duration \<Rightarrow> 's toyota_can \<Rightarrow> 's toyota_can" where
  "live_with_timeout t c = c\<lparr>tl_timeout := t\<rparr>"

definition live_with_enum_gap :: "duration \<Rightarrow> 's toyota_can \<Rightarrow> 's toyota_can" where
  "live_with_enum_gap t c = c\<lparr>tl_enum_gap := t\<rparr>"

section \<open>The exchange\<close>

function exchange_from :: "('s \<Rightarrow> ((bytes, error) res \<times> 's) option) \<Rightarrow> nat \<Rightarrow> 's
    \<Rightarrow> ((bytes, diag_error) res \<times> 's) option" where
  "exchange_from recv count s =
     (case recv s of
        None \<Rightarrow> None
      | Some (Inl e, s1) \<Rightarrow> Some (map_err DTransport (Inl e), s1)
      | Some (Inr resp, s1) \<Rightarrow>
          if is_response_pending resp \<and> count < MAX_PENDING then exchange_from recv (count + 1) s1
          else Some (Ok resp, s1))"
  by pat_completeness auto
termination
  by (relation "measure (\<lambda>(recv, count, s). MAX_PENDING - count)") auto

declare exchange_from.simps [simp del]

definition live_send :: "'s toyota_can \<Rightarrow> bytes \<Rightarrow> (unit, 's) diag_call" where
  "live_send c req s = map_option (\<lambda>(r, s1). (map_err DTransport r, s1)) (ic_send (tl_io c) req s)"

definition exchange :: "'s toyota_can \<Rightarrow> bytes \<Rightarrow> (bytes, 's) diag_call" where
  "exchange c req s =
     (case live_send c req s of
        None \<Rightarrow> None
      | Some (Inl e, s1) \<Rightarrow> Some (Inl e, s1)
      | Some (Inr _, s1) \<Rightarrow> exchange_from (ic_recv (tl_io c) (tl_timeout c)) 0 s1)"

definition define_poll_list :: "'s toyota_can \<Rightarrow> u8 \<Rightarrow> bytes \<Rightarrow> (bytes, 's) diag_call" where
  "define_poll_list c sub members = dthen (exchange c (0xa1 # sub # members)) (parse_positive 0xa1)"

definition poll_list :: "'s toyota_can \<Rightarrow> u8 \<Rightarrow> (bytes, 's) diag_call" where
  "poll_list c list_id =
     dthen (dthen (exchange c [0xa2, list_id]) (parse_positive 0xa2)) (\<lambda>body. strip_echo body [list_id])"

definition live_teardown :: "'s toyota_can \<Rightarrow> (unit, 's) diag_call" where
  "live_teardown c = live_send c [0xa3]"

section \<open>The enumeration\<close>

fun parse_pid_tlv :: "bytes \<Rightarrow> enumerated_pid list" where
  "parse_pid_tlv (i # w # rest) =
     (if 2 + unat w > length (i # w # rest) then []
      else \<lparr>ep_id = i, ep_width = w, ep_support = take (unat w) rest\<rparr> # parse_pid_tlv (drop (unat w) rest))"
| "parse_pid_tlv _ = []"

text \<open>One received message: another pending reply, a refusal, a chunk of the list, or noise.\<close>

datatype enum_event = EnumPending | EnumRefused u8 u8 | EnumChunk "enumerated_pid list" | EnumNoise

fun enum_event_of :: "u8 \<Rightarrow> nat \<Rightarrow> bytes \<Rightarrow> enum_event" where
  "enum_event_of sub count (a # b # rest) =
     (if a = 0x7f \<and> rest \<noteq> [] \<and> hd rest = 0x78 \<and> count < MAX_PENDING then EnumPending
      else if a = 0x7f \<and> rest \<noteq> [] then EnumRefused b (hd rest)
      else if a = 0xe8 \<and> b = sub then EnumChunk (parse_pid_tlv rest)
      else EnumNoise)"
| "enum_event_of sub count _ = EnumNoise"

fun enumerate_from :: "('s \<Rightarrow> ((bytes, error) res \<times> 's) option) \<Rightarrow> u8 \<Rightarrow> nat \<Rightarrow> nat \<Rightarrow> enumerated_pid list
    \<Rightarrow> (enumerated_pid list, 's) diag_call" where
  "enumerate_from recv sub 0 count pids s = None"
| "enumerate_from recv sub (Suc k) count pids s =
     (case recv s of
        None \<Rightarrow> None
      | Some (Inl (Fail (Timeout t)), s1) \<Rightarrow> Some (Ok pids, s1)
      | Some (Inl e, s1) \<Rightarrow> Some (map_err DTransport (Inl e), s1)
      | Some (Inr resp, s1) \<Rightarrow>
          (case enum_event_of sub count resp of
             EnumPending \<Rightarrow> enumerate_from recv sub k (count + 1) pids s1
           | EnumRefused sv nrc \<Rightarrow> Some (Err (Negative sv nrc), s1)
           | EnumChunk ps \<Rightarrow> enumerate_from recv sub k count (pids @ ps) s1
           | EnumNoise \<Rightarrow> enumerate_from recv sub k count pids s1))"

definition enumerate_pids :: "'s toyota_can \<Rightarrow> nat \<Rightarrow> u8 \<Rightarrow> (enumerated_pid list, 's) diag_call" where
  "enumerate_pids c k sub s =
     (case live_send c [0xa8, sub] s of
        None \<Rightarrow> None
      | Some (Inl e, s1) \<Rightarrow> Some (Inl e, s1)
      | Some (Inr _, s1) \<Rightarrow> enumerate_from (ic_recv (tl_io c) (tl_enum_gap c)) sub k 0 [] s1)"

section \<open>The list format\<close>

definition pid_entry :: "enumerated_pid \<Rightarrow> bytes" where
  "pid_entry p = ep_id p # ep_width p # ep_support p"

definition pid_ok :: "enumerated_pid \<Rightarrow> bool" where
  "pid_ok p \<longleftrightarrow> length (ep_support p) = unat (ep_width p)"

text \<open>What is left at the end: less than a whole entry.\<close>

definition cut_short :: "bytes \<Rightarrow> bool" where
  "cut_short b \<longleftrightarrow> length b < 2 \<or> length b < 2 + unat (b ! 1)"

lemma parse_pid_tlv_entries:
  "\<forall>p \<in> set ps. pid_ok p \<Longrightarrow> cut_short tail \<Longrightarrow> parse_pid_tlv (concat (map pid_entry ps) @ tail) = ps"
proof (induction ps)
  case Nil
  from Nil(2) show ?case
    by (cases tail rule: parse_pid_tlv.cases) (simp_all add: cut_short_def)
next
  case (Cons p ps)
  then have "parse_pid_tlv (concat (map pid_entry ps) @ tail) = ps" "length (ep_support p) = unat (ep_width p)"
    by (simp_all add: pid_ok_def)
  moreover have "pid_entry p = ep_id p # ep_width p # ep_support p" by (rule pid_entry_def)
  ultimately show ?case by simp
qed

lemma parse_pid_tlv_decomposes:
  "\<exists>tail. b = concat (map pid_entry (parse_pid_tlv b)) @ tail \<and> cut_short tail \<and> (\<forall>p \<in> set (parse_pid_tlv b). pid_ok p)"
proof (induction b rule: parse_pid_tlv.induct)
  case (1 i w rest)
  show ?case
  proof (cases "2 + unat w > length (i # w # rest)")
    case True
    then show ?thesis by (intro exI [of _ "i # w # rest"]) (simp add: cut_short_def)
  next
    case False
    from "1.IH" [OF False] obtain tail where
      "drop (unat w) rest = concat (map pid_entry (parse_pid_tlv (drop (unat w) rest))) @ tail"
      "cut_short tail" "\<forall>p \<in> set (parse_pid_tlv (drop (unat w) rest)). pid_ok p" by blast
    note tail = this
    have "i # w # rest = i # w # (take (unat w) rest @ drop (unat w) rest)" by (simp only: append_take_drop_id)
    also have "\<dots> = i # w # (take (unat w) rest @ concat (map pid_entry (parse_pid_tlv (drop (unat w) rest))) @ tail)"
      by (subst tail(1)) (rule refl)
    finally show ?thesis using tail(2,3) False
      by (intro exI [of _ tail]) (simp add: pid_entry_def [of "\<lparr>ep_id = i, ep_width = w, ep_support = take (unat w) rest\<rparr>"] pid_ok_def)
  qed
qed (simp_all add: cut_short_def)

text \<open>C15: The enumeration parser inverts the list format: it returns exactly the entries that, written
  out one after the other, make up the body but for a cut-off end; every entry it returns has
  as many support bytes as its width says.\<close>
theorem parse_pid_tlv_unique:
  "parse_pid_tlv b = ps \<longleftrightarrow>
     (\<exists>tail. b = concat (map pid_entry ps) @ tail \<and> cut_short tail \<and> (\<forall>p \<in> set ps. pid_ok p))"
  using parse_pid_tlv_decomposes [of b] parse_pid_tlv_entries by blast

lemma parse_pid_tlv_unique_witness:
  "parse_pid_tlv [0, 2, 0xff, 7, 0x20, 4, 0xff] = [\<lparr>ep_id = 0, ep_width = 2, ep_support = [0xff, 7]\<rparr>]"
  unfolding parse_pid_tlv_unique
  by (intro exI [of _ "[0x20, 4, 0xff]"]) (simp add: pid_entry_def pid_ok_def cut_short_def)

section \<open>The stream of messages\<close>

text \<open>The entries of a script of received messages, and the pending replies in it.\<close>

fun script_pids :: "u8 \<Rightarrow> bytes list \<Rightarrow> enumerated_pid list" where
  "script_pids sub [] = []"
| "script_pids sub (m # ms) =
     (case enum_event_of sub 0 m of EnumChunk ps \<Rightarrow> ps | _ \<Rightarrow> []) @ script_pids sub ms"

definition script_ok :: "u8 \<Rightarrow> bytes list \<Rightarrow> bool" where
  "script_ok sub ms \<longleftrightarrow> (\<forall>m \<in> set ms. \<forall>sv nrc. enum_event_of sub 0 m \<noteq> EnumRefused sv nrc)"

lemma enum_event_count:
  "enum_event_of sub count m = enum_event_of sub 0 m \<or> enum_event_of sub 0 m = EnumPending \<and> \<not> count < MAX_PENDING"
  by (cases "(sub, count, m)" rule: enum_event_of.cases) (auto simp: MAX_PENDING_def)

lemma enumerate_from_script:
  assumes "replies recv s ms s1" and "recv s1 = Some (Err (Timeout t), s2)" and "script_ok sub ms"
    and "count + length (filter (\<lambda>m. enum_event_of sub 0 m = EnumPending) ms) \<le> MAX_PENDING"
    and "length ms < k"
  shows "enumerate_from recv sub k count pids s = Some (Ok (pids @ script_pids sub ms), s2)"
  using assms
proof (induction ms arbitrary: s count pids k)
  case Nil
  then show ?case by (cases k) auto
next
  case (Cons m ms)
  from Cons.prems(1) obtain s0 where m: "recv s = Some (Ok m, s0)" "replies recv s0 ms s1" by auto
  obtain j where j: "k = Suc j" "length ms < j" using Cons.prems(5) by (cases k) auto
  have ok: "script_ok sub ms" "\<And>sv nrc. enum_event_of sub 0 m \<noteq> EnumRefused sv nrc"
    using Cons.prems(3) by (auto simp: script_ok_def)
  have ev: "enum_event_of sub count m = enum_event_of sub 0 m"
    using enum_event_count [of sub count m] Cons.prems(4) by auto
  note IH = Cons.IH [OF m(2) Cons.prems(2) ok(1) _ j(2)]
  show ?case
  proof (cases "enum_event_of sub 0 m")
    case EnumPending
    with IH [of "Suc count" pids] Cons.prems(4) m j ev show ?thesis by simp
  next
    case (EnumChunk ps)
    with IH [of count "pids @ ps"] Cons.prems(4) m j ev show ?thesis by simp
  next
    case EnumNoise
    with IH [of count pids] Cons.prems(4) m j ev show ?thesis by simp
  qed (use ok in auto)
qed


definition scripted_channel :: "bytes list isotp_channel" where
  "scripted_channel = \<lparr>ic_send = (\<lambda>_ s. Some (Ok (), s)),
     ic_recv = (\<lambda>t s. Some (case s of [] \<Rightarrow> (Err (Timeout t), []) | m # ms \<Rightarrow> (Ok m, ms)))\<rparr>"


text \<open>An ECU that keeps talking is listened to for ever: no deadline bounds the enumeration.\<close>

theorem enumerate_never_ends:
  assumes "\<And>s. \<exists>m s1. recv s = Some (Ok m, s1) \<and> enum_event_of sub 0 m = EnumNoise"
  shows "enumerate_from recv sub k count pids s = None"
proof (induction k arbitrary: s)
  case (Suc k)
  obtain m s1 where "recv s = Some (Ok m, s1)" "enum_event_of sub 0 m = EnumNoise" using assms by blast
  with Suc enum_event_count [of sub count m] show ?case by auto
qed simp


text \<open>Each message is parsed on its own: an entry that the ECU splits over two messages is dropped,
  although the concatenated stream holds it.\<close>

theorem split_entry_dropped:
  "enumerate_pids (toyota_can_new scripted_channel) 5 1 [[0xe8, 1, 0x20, 4, 0xff, 0xff], [0xe8, 1, 0xff, 0xff]]
     = Some (Ok [], [])"
  "parse_pid_tlv ([0x20, 4, 0xff, 0xff] @ [0xff, 0xff])
     = [\<lparr>ep_id = 0x20, ep_width = 4, ep_support = [0xff, 0xff, 0xff, 0xff]\<rparr>]"
proof -
  have five: "5 = Suc (Suc (Suc (Suc (Suc 0))))" by simp
  show "enumerate_pids (toyota_can_new scripted_channel) 5 1 [[0xe8, 1, 0x20, 4, 0xff, 0xff], [0xe8, 1, 0xff, 0xff]]
     = Some (Ok [], [])"
    unfolding five by (simp add: enumerate_pids_def live_send_def toyota_can_new_def scripted_channel_def)
qed simp

end
