(* ===== verification/J2534.thy ===== *)
theory J2534
  imports IsoTp
begin

text \<open>
  \<open>rmvci-j2534/src/lib.rs\<close>, first part: the slot table of the PassThru library, its handles and
  error codes, and the exports that open, close, connect and disconnect. \<open>'s shim\<close> holds the
  statics of the library (the slot table behind its mutex, the last error, the timestamp epoch);
  an export runs on the pair of it and the caller's memory \<open>'m\<close> that its pointers reach, a null
  pointer being \<open>None\<close>. \<open>guard\<close> turns a panic into an error code; a panic under the table's lock
  poisons the mutex. Exports with a waiting loop carry fuel: \<open>OutOfFuel\<close> inside and \<open>None\<close>
  outside \<open>guard\<close> is fuel exhausted.
\<close>

section \<open>Codes and texts\<close>

type_synonym c_ulong = "64 word"
type_synonym c_long = nat

definition STATUS_NOERROR :: c_long where "STATUS_NOERROR = 0x00"
definition ERR_NOT_SUPPORTED :: c_long where "ERR_NOT_SUPPORTED = 0x01"
definition ERR_INVALID_CHANNEL_ID :: c_long where "ERR_INVALID_CHANNEL_ID = 0x02"
definition ERR_INVALID_PROTOCOL_ID :: c_long where "ERR_INVALID_PROTOCOL_ID = 0x03"
definition ERR_NULL_PARAMETER :: c_long where "ERR_NULL_PARAMETER = 0x04"
definition ERR_FAILED :: c_long where "ERR_FAILED = 0x07"
definition ERR_DEVICE_NOT_CONNECTED :: c_long where "ERR_DEVICE_NOT_CONNECTED = 0x08"
definition ERR_TIMEOUT :: c_long where "ERR_TIMEOUT = 0x09"
definition ERR_INVALID_MSG :: c_long where "ERR_INVALID_MSG = 0x0a"
definition ERR_BUFFER_EMPTY :: c_long where "ERR_BUFFER_EMPTY = 0x10"
definition ERR_INVALID_FILTER_ID :: c_long where "ERR_INVALID_FILTER_ID = 0x16"
definition ERR_INVALID_DEVICE_ID :: c_long where "ERR_INVALID_DEVICE_ID = 0x1a"

lemmas codes = STATUS_NOERROR_def ERR_NOT_SUPPORTED_def ERR_INVALID_CHANNEL_ID_def
  ERR_INVALID_PROTOCOL_ID_def ERR_NULL_PARAMETER_def ERR_FAILED_def ERR_DEVICE_NOT_CONNECTED_def
  ERR_TIMEOUT_def ERR_INVALID_MSG_def ERR_BUFFER_EMPTY_def ERR_INVALID_FILTER_ID_def
  ERR_INVALID_DEVICE_ID_def

definition RMVCI_HOST_ISOTP :: u32 where "RMVCI_HOST_ISOTP = 0x80000000"

fun code_of :: "error \<Rightarrow> c_long" where
  "code_of (Rejected c st) = unat (status_code st)"
| "code_of (NoFilterInstalled p) = ERR_BUFFER_EMPTY"
| "code_of BufferEmpty = ERR_BUFFER_EMPTY"
| "code_of (Timeout t) = ERR_TIMEOUT"
| "code_of (Protocol v) = ERR_INVALID_PROTOCOL_ID"
| "code_of (Transport e) = ERR_DEVICE_NOT_CONNECTED"
| "code_of (Wedged n) = ERR_DEVICE_NOT_CONNECTED"
| "code_of Closed = ERR_DEVICE_NOT_CONNECTED"
| "code_of (Codec (MsgTooLong n)) = ERR_INVALID_MSG"
| "code_of _ = ERR_FAILED"

text \<open>A Rust string: its Unicode scalar values. The text of an error is a parameter.\<close>

type_synonym rtext = "nat list"

definition rstr :: "string \<Rightarrow> rtext" where "rstr s = map of_char s"

section \<open>State\<close>

record 's slot =
  sl_device :: "'s device"
  sl_chan :: "raw_channel option"
  sl_host :: "isotp option"
  sl_next_id :: u32

record 's shim =
  sh_slots :: "'s slot option list"
  sh_error :: rtext
  sh_epoch :: "instant option"
  sh_poisoned :: bool

definition MAX_SLOTS :: nat where "MAX_SLOTS = 4"

definition shim_init :: "'s shim" where
  "shim_init = \<lparr>sh_slots = replicate MAX_SLOTS None, sh_error = [], sh_epoch = None, sh_poisoned = False\<rparr>"

text \<open>What the library runs in: the driver's environment, the texts of errors, the variable
  \<open>MVCI_PORT\<close> and the test hook that replaces the device constructor.\<close>

record 's shim_env =
  je_env :: "'s env"
  je_show :: "error \<Rightarrow> rtext"
  je_mvci_port :: "string option"
  je_factory :: "(string option \<Rightarrow> error + 's device) option"

datatype out_of_fuel = OutOfFuel

type_synonym ('s, 'm) world = "'s shim \<times> 'm"
type_synonym ('a, 's, 'm) body = "('a, out_of_fuel, ('s, 'm) world) op"
type_synonym ('s, 'm) export = "('s, 'm) world \<Rightarrow> (c_long \<times> ('s, 'm) world) option"

fun guard :: "(c_long, 's, 'm) body \<Rightarrow> ('s, 'm) export" where
  "guard body w =
     (case body w of
        (Inr c, w1) \<Rightarrow> Some (c, w1)
      | (Inl (Fail OutOfFuel), w1) \<Rightarrow> None
      | (Inl Panic, (sh, m)) \<Rightarrow>
          Some (ERR_FAILED, (sh\<lparr>sh_error := rstr ''internal panic'', sh_poisoned := True\<rparr>, m)))"

definition set_err :: "rtext \<Rightarrow> (unit, 's, 'm) body" where
  "set_err t w = (Ok (), ((fst w)\<lparr>sh_error := t\<rparr>, snd w))"

definition report :: "rtext \<Rightarrow> c_long \<Rightarrow> (c_long, 's, 'm) body" where
  "report t c = sbind (set_err t) (\<lambda>_. sreturn c)"

definition fail_with :: "'s shim_env \<Rightarrow> error \<Rightarrow> (c_long, 's, 'm) body" where
  "fail_with J e = report (je_show J e) (code_of e)"

text \<open>\<open>SLOTS.lock().unwrap()\<close>.\<close>

definition locked :: "('a, 's, 'm) body \<Rightarrow> ('a, 's, 'm) body" where
  "locked body w = (if sh_poisoned (fst w) then (panic, w) else body w)"

definition write_out :: "'a \<Rightarrow> (unit, 's, 'a option) body" where
  "write_out v w = (Ok (), (fst w, map_option (\<lambda>_. v) (snd w)))"

section \<open>Handles\<close>

definition slot_from_dev :: "c_ulong \<Rightarrow> nat option" where
  "slot_from_dev i = (if 1 \<le> i \<and> i \<le> of_nat MAX_SLOTS then Some (unat i - 1) else None)"

definition slot_from_ch :: "c_ulong \<Rightarrow> nat option" where
  "slot_from_ch i = (if 0x100 \<le> i \<and> i < 0x100 + of_nat MAX_SLOTS then Some (unat (i - 0x100)) else None)"

definition get_slot :: "nat \<Rightarrow> 's shim \<Rightarrow> 's slot option" where
  "get_slot i sh = (if i < length (sh_slots sh) then sh_slots sh ! i else None)"

definition put_slot :: "nat \<Rightarrow> 's slot option \<Rightarrow> 's shim \<Rightarrow> 's shim" where
  "put_slot i x sh = sh\<lparr>sh_slots := (sh_slots sh)[i := x]\<rparr>"

text \<open>The slot a device handle, a raw channel handle and a host channel handle stand for.\<close>

definition dev_index :: "c_ulong \<Rightarrow> 's shim \<Rightarrow> nat option" where
  "dev_index d sh = (case slot_from_dev d of
     Some i \<Rightarrow> if get_slot i sh \<noteq> None then Some i else None | None \<Rightarrow> None)"

definition chan_index :: "c_ulong \<Rightarrow> 's shim \<Rightarrow> nat option" where
  "chan_index c sh = (case slot_from_ch c of
     Some i \<Rightarrow> (case get_slot i sh of
       Some sl \<Rightarrow> if sl_chan sl \<noteq> None then Some i else None | None \<Rightarrow> None) | None \<Rightarrow> None)"

definition host_index :: "c_ulong \<Rightarrow> 's shim \<Rightarrow> nat option" where
  "host_index c sh = (case slot_from_ch c of
     Some i \<Rightarrow> (case get_slot i sh of
       Some sl \<Rightarrow> if sl_host sl \<noteq> None then Some i else None | None \<Rightarrow> None) | None \<Rightarrow> None)"

definition with_chan :: "c_ulong \<Rightarrow> (nat \<Rightarrow> (c_long, 's, 'm) body) \<Rightarrow> (c_long, 's, 'm) body" where
  "with_chan ch f =
     locked (\<lambda>w. case chan_index ch (fst w) of
       Some i \<Rightarrow> f i w
     | None \<Rightarrow> report (rstr ''invalid channel id'') ERR_INVALID_CHANNEL_ID w)"

text \<open>\<open>with_host\<close>; the exports fall through to \<open>rest\<close> when the channel is not host-mode.\<close>

definition with_host ::
  "c_ulong \<Rightarrow> (nat \<Rightarrow> (c_long, 's, 'm) body) \<Rightarrow> (c_long, 's, 'm) body \<Rightarrow> (c_long, 's, 'm) body" where
  "with_host ch f rest =
     locked (\<lambda>w. case host_index ch (fst w) of Some i \<Rightarrow> f i w | None \<Rightarrow> rest w)"

section \<open>Calls of the driver\<close>

text \<open>A driver call on the device, the raw channel or the host channel of slot \<open>i\<close>; an absent
  channel is the panic of \<open>unwrap\<close>. \<open>attempt\<close> matches on the call's result.\<close>

type_synonym ('a, 's, 'm) call = "('s, 'm) world \<Rightarrow> (('a, error) res \<times> ('s, 'm) world) option"

definition dev_call :: "nat \<Rightarrow> ('a, error, 's device) op \<Rightarrow> ('a, 's, 'm) call" where
  "dev_call i m w =
     (case get_slot i (fst w) of
        None \<Rightarrow> Some (panic, w)
      | Some sl \<Rightarrow> (case m (sl_device sl) of
          (r, d) \<Rightarrow> Some (r, (put_slot i (Some (sl\<lparr>sl_device := d\<rparr>)) (fst w), snd w))))"

definition chan_call :: "nat \<Rightarrow> ('a, error, 's device \<times> raw_channel) op \<Rightarrow> ('a, 's, 'm) call" where
  "chan_call i m w =
     (case get_slot i (fst w) of
        None \<Rightarrow> Some (panic, w)
      | Some sl \<Rightarrow> (case sl_chan sl of
          None \<Rightarrow> Some (panic, w)
        | Some c \<Rightarrow> (case m (sl_device sl, c) of
            (r, (d, c1)) \<Rightarrow> Some (r, (put_slot i (Some (sl\<lparr>sl_device := d, sl_chan := Some c1\<rparr>)) (fst w), snd w)))))"

definition host_call :: "nat \<Rightarrow> ('s device \<times> isotp \<Rightarrow> ('a, 's) outcome) \<Rightarrow> ('a, 's, 'm) call" where
  "host_call i m w =
     (case get_slot i (fst w) of
        None \<Rightarrow> Some (panic, w)
      | Some sl \<Rightarrow> (case sl_host sl of
          None \<Rightarrow> Some (panic, w)
        | Some tp \<Rightarrow> map_option (\<lambda>(r, (d, tp1)).
            (r, (put_slot i (Some (sl\<lparr>sl_device := d, sl_host := Some tp1\<rparr>)) (fst w), snd w))) (m (sl_device sl, tp))))"

definition attempt :: "('a, 's, 'm) call \<Rightarrow> ('a \<Rightarrow> ('b, 's, 'm) body) \<Rightarrow> (error \<Rightarrow> ('b, 's, 'm) body)
    \<Rightarrow> ('b, 's, 'm) body" where
  "attempt m ok err w =
     (case m w of
        None \<Rightarrow> (Err OutOfFuel, w)
      | Some (Inr v, w1) \<Rightarrow> ok v w1
      | Some (Inl (Fail e), w1) \<Rightarrow> err e w1
      | Some (Inl Panic, w1) \<Rightarrow> (panic, w1))"

section \<open>Open and close\<close>

definition device_open_with :: "'s env \<Rightarrow> string option \<Rightarrow> (string \<Rightarrow> transport_error + 's) \<Rightarrow> string option
    \<Rightarrow> ('s device, error) res" where
  "device_open_with E mvci_port serial name =
     (case serial (resolve_port name mvci_port) of
        Inl e \<Rightarrow> Err (Transport e)
      | Inr port \<Rightarrow> fst (open_transport E None port))"

definition make_device :: "'s shim_env \<Rightarrow> (string \<Rightarrow> transport_error + 's) \<Rightarrow> string option \<Rightarrow> ('s device, error) res" where
  "make_device J serial name =
     (case je_factory J of
        Some f \<Rightarrow> (case f name of Inl e \<Rightarrow> Err e | Inr d \<Rightarrow> Ok d)
      | None \<Rightarrow> device_open_with (je_env J) (je_mvci_port J) serial name)"

fun first_free :: "'a option list \<Rightarrow> nat option" where
  "first_free [] = None"
| "first_free (None # xs) = Some 0"
| "first_free (Some x # xs) = map_option Suc (first_free xs)"

definition open_slot :: "'s shim_env \<Rightarrow> (string \<Rightarrow> transport_error + 's) \<Rightarrow> string option
    \<Rightarrow> (c_long, 's, c_ulong option) body" where
  "open_slot J serial name w =
     (case first_free (sh_slots (fst w)) of
        None \<Rightarrow> report (rstr ''no free device slot'') ERR_FAILED w
      | Some i \<Rightarrow> (case make_device J serial name of
          Inl Panic \<Rightarrow> (panic, w)
        | Inl (Fail e) \<Rightarrow> report (rstr ''device open failed: '' @ je_show J e) ERR_DEVICE_NOT_CONNECTED w
        | Inr d \<Rightarrow> sbind (write_out (of_nat (i + 1))) (\<lambda>_. sreturn STATUS_NOERROR)
            (put_slot i (Some \<lparr>sl_device = d, sl_chan = None, sl_host = None, sl_next_id = 1\<rparr>) (fst w), snd w)))"

text \<open>\<open>serial\<close> is what the operating system gives for a port's name at this call, \<open>now\<close> its clock;
  the memory is \<open>*pDeviceID\<close>. A name is the bytes of the C string.\<close>

definition pass_thru_open :: "'s shim_env \<Rightarrow> (string \<Rightarrow> transport_error + 's) \<Rightarrow> instant \<Rightarrow> string option
    \<Rightarrow> ('s, c_ulong option) export" where
  "pass_thru_open J serial now name = guard (\<lambda>w.
     if snd w = None then report (rstr ''NULL pDeviceID'') ERR_NULL_PARAMETER w
     else
       let name_owned = (case name of Some n \<Rightarrow> if n = [] then None else Some n | None \<Rightarrow> None);
           epoch = (case sh_epoch (fst w) of Some t \<Rightarrow> t | None \<Rightarrow> now) in
       locked (open_slot J serial name_owned) ((fst w)\<lparr>sh_epoch := Some epoch\<rparr>, snd w))"

text \<open>Dropping a slot's channels disconnects them; dropping the slot drops the device handle first.\<close>

definition drop_channels :: "'s env \<Rightarrow> 's slot \<Rightarrow> 's slot" where
  "drop_channels E sl =
     (let d1 = (case sl_chan sl of None \<Rightarrow> sl_device sl | Some c \<Rightarrow> raw_drop E (sl_device sl) c);
          d2 = (case sl_host sl of None \<Rightarrow> d1 | Some tp \<Rightarrow> raw_drop E d1 (chan_of tp)) in
      sl\<lparr>sl_device := d2, sl_chan := None, sl_host := None\<rparr>)"

definition drop_slot :: "'s env \<Rightarrow> 's slot \<Rightarrow> 's device" where
  "drop_slot E sl = sl_device (drop_channels E (sl\<lparr>sl_device := dev_drop E (sl_device sl)\<rparr>))"

text \<open>The result carries the device as it was left, for what happened on its port.\<close>

definition pass_thru_close :: "'s shim_env \<Rightarrow> c_ulong \<Rightarrow> ('s, 's device option) export" where
  "pass_thru_close J dev = guard (locked (\<lambda>w.
     case dev_index dev (fst w) of
       None \<Rightarrow> report (rstr ''invalid device id'') ERR_INVALID_DEVICE_ID w
     | Some i \<Rightarrow>
         (Ok STATUS_NOERROR,
          (put_slot i None (fst w), map_option (drop_slot (je_env J)) (get_slot i (fst w))))))"

section \<open>Connect and disconnect\<close>

definition set_chan :: "nat \<Rightarrow> raw_channel \<Rightarrow> (unit, 's, 'm) body" where
  "set_chan i c w = (Ok (), (put_slot i (map_option (\<lambda>sl. sl\<lparr>sl_chan := Some c\<rparr>) (get_slot i (fst w))) (fst w), snd w))"

definition set_host :: "nat \<Rightarrow> isotp \<Rightarrow> (unit, 's, 'm) body" where
  "set_host i tp w = (Ok (), (put_slot i (map_option (\<lambda>sl. sl\<lparr>sl_host := Some tp\<rparr>) (get_slot i (fst w))) (fst w), snd w))"

definition drop_slot_channels :: "'s env \<Rightarrow> nat \<Rightarrow> (unit, 's, 'm) body" where
  "drop_slot_channels E i w =
     (Ok (), (put_slot i (map_option (drop_channels E) (get_slot i (fst w))) (fst w), snd w))"

definition connect_slot :: "'s shim_env \<Rightarrow> nat \<Rightarrow> protocol_id \<Rightarrow> u32 \<Rightarrow> u32 \<Rightarrow> (c_long, 's, c_ulong option) body" where
  "connect_slot J i proto flags baud =
     (let wire_flags = flags AND NOT RMVCI_HOST_ISOTP;
          done = (\<lambda>_. sbind (write_out (of_nat (i + 0x100))) (\<lambda>_. sreturn STATUS_NOERROR)) in
      sbind (drop_slot_channels (je_env J) i) (\<lambda>_.
        if flags AND RMVCI_HOST_ISOTP \<noteq> 0 \<and> proto = Iso15765
        then attempt (dev_call i (connect_deferred (je_env J)
                (config_can \<lparr>cc_bitrate = baud, cc_flags = wire_flags\<rparr> (isotp_config_new (Std 0) (Std 0)))))
               (\<lambda>tp. sbind (set_host i tp) done) (fail_with J)
        else attempt (dev_call i (dev_connect_raw (je_env J) proto wire_flags baud))
               (\<lambda>c. sbind (set_chan i c) done) (fail_with J)))"

definition pass_thru_connect :: "'s shim_env \<Rightarrow> c_ulong \<Rightarrow> c_ulong \<Rightarrow> c_ulong \<Rightarrow> c_ulong
    \<Rightarrow> ('s, c_ulong option) export" where
  "pass_thru_connect J dev pid flags baud = guard (\<lambda>w.
     if snd w = None then report (rstr ''NULL pChannelID'') ERR_NULL_PARAMETER w
     else case protocol_try_from (ucast pid) of
       Inl _ \<Rightarrow> report (rstr (''unsupported protocol id (the adapter stops responding until reopened '' @
                   ''if one is sent)'')) ERR_INVALID_PROTOCOL_ID w
     | Inr proto \<Rightarrow>
         locked (\<lambda>w. case dev_index dev (fst w) of
             None \<Rightarrow> report (rstr ''invalid device id'') ERR_INVALID_DEVICE_ID w
           | Some i \<Rightarrow> connect_slot J i proto (ucast flags) (ucast baud) w) w)"

definition pass_thru_disconnect :: "'s shim_env \<Rightarrow> c_ulong \<Rightarrow> ('s, 'm) export" where
  "pass_thru_disconnect J ch = guard (locked (\<lambda>w.
     case (chan_index ch (fst w), host_index ch (fst w)) of
       (None, None) \<Rightarrow> report (rstr ''invalid channel id'') ERR_INVALID_CHANNEL_ID w
     | (Some i, _) \<Rightarrow> sbind (drop_slot_channels (je_env J) i) (\<lambda>_. sreturn STATUS_NOERROR) w
     | (None, Some i) \<Rightarrow> sbind (drop_slot_channels (je_env J) i) (\<lambda>_. sreturn STATUS_NOERROR) w))"

end
