(* ===== verification/J2534_Calls.thy ===== *)
theory J2534_Calls
  imports J2534
begin

text \<open>
  \<open>rmvci-j2534/src/lib.rs\<close>, second part: the exports on a connected channel (filters, messages,
  configuration, initialisation, periodic messages) and the informational ones. The vendor's
  host-mode channel is tried first where the code does so. A message of the caller is the record
  \<open>passthru_msg\<close>; its data array has 4128 bytes.
\<close>

definition PASSTHRU_MSG_DATA_SIZE :: nat where "PASSTHRU_MSG_DATA_SIZE = 4128"

record passthru_msg =
  pm_protocol_id :: u32
  pm_rx_status :: u32
  pm_tx_flags :: u32
  pm_timestamp :: u32
  pm_data_size :: u32
  pm_extra_data_index :: u32
  pm_data :: bytes

definition msg_ok :: "passthru_msg \<Rightarrow> bool" where
  "msg_ok m \<longleftrightarrow> length (pm_data m) = PASSTHRU_MSG_DATA_SIZE"

text \<open>The bytes of a message, at most the array.\<close>

definition msg_bytes :: "passthru_msg \<Rightarrow> bytes" where
  "msg_bytes m = take (min (unat (pm_data_size m)) (length (pm_data m))) (pm_data m)"

text \<open>What a received message overwrites.\<close>

definition fill_msg :: "u32 \<Rightarrow> u32 \<Rightarrow> u32 \<Rightarrow> bytes \<Rightarrow> passthru_msg \<Rightarrow> passthru_msg" where
  "fill_msg pid status micros b old =
     (let n = min (length b) (length (pm_data old)) in
      \<lparr>pm_protocol_id = pid, pm_rx_status = status, pm_tx_flags = 0, pm_timestamp = micros,
       pm_data_size = of_nat n, pm_extra_data_index = of_nat n, pm_data = take n b @ drop n (pm_data old)\<rparr>)"

section \<open>Identifiers\<close>

text \<open>The host assigns filter and periodic identifiers from one counter of the slot; its increment
  panics on overflow in a checked build.\<close>

definition take_wire_id :: "'s shim_env \<Rightarrow> nat \<Rightarrow> u32 \<Rightarrow> (u32, 's, 'm) body" where
  "take_wire_id J i base w =
     (case get_slot i (fst w) of
        None \<Rightarrow> (panic, w)
      | Some sl \<Rightarrow> (case u32_add (ev_dbg (je_env J)) (sl_next_id sl) 1 of
          Inl e \<Rightarrow> (Inl e, w)
        | Inr n \<Rightarrow> (Ok (base + (sl_next_id sl AND 0xff)), (put_slot i (Some (sl\<lparr>sl_next_id := n\<rparr>)) (fst w), snd w))))"

section \<open>Filters\<close>

definition filter_width :: "protocol_id \<Rightarrow> passthru_msg option \<Rightarrow> nat" where
  "filter_width proto flow =
     (if is_can proto
      then (case flow of Some f \<Rightarrow> if pm_tx_flags f AND ISO15765_ADDR_TYPE \<noteq> 0 then 5 else 4 | None \<Rightarrow> 4)
      else 1)"

definition host_filter :: "'s shim_env \<Rightarrow> u32 \<Rightarrow> passthru_msg \<Rightarrow> passthru_msg option \<Rightarrow> nat
    \<Rightarrow> (c_long, 's, c_ulong option) body" where
  "host_filter J ftype pattern flow_msg i =
     (if ftype \<noteq> 3 then report (rstr ''host-path ISO15765 needs a FLOW_CONTROL filter'') ERR_INVALID_MSG
      else case flow_msg of
        None \<Rightarrow> slift panic
      | Some flow \<Rightarrow>
          if unat (pm_data_size pattern) < 4 \<or> unat (pm_data_size flow) < 4
          then report (rstr ''filter identifier shorter than 4 bytes'') ERR_INVALID_MSG
          else
            let ext29 = (pm_tx_flags flow AND CAN_29BIT_ID \<noteq> 0);
                rx = from_wire (take 4 (pm_data pattern)) ext29;
                tx = from_wire (take 4 (pm_data flow)) ext29;
                ext_addr = (if pm_tx_flags flow AND ISO15765_ADDR_TYPE \<noteq> 0 \<and> 5 \<le> unat (pm_data_size flow)
                            then Some (pm_data flow ! 4) else None) in
            attempt (host_call i (\<lambda>s. Some (set_endpoints (je_env J) tx rx ext_addr s)))
              (\<lambda>_. sbind (write_out 0x000e7c00) (\<lambda>_. sreturn STATUS_NOERROR))
              (fail_with J))"

definition chan_proto :: "nat \<Rightarrow> 's shim \<Rightarrow> protocol_id option" where
  "chan_proto i sh = (case get_slot i sh of Some sl \<Rightarrow> map_option rc_proto (sl_chan sl) | None \<Rightarrow> None)"

definition chan_filter :: "'s shim_env \<Rightarrow> u32 \<Rightarrow> passthru_msg \<Rightarrow> passthru_msg \<Rightarrow> passthru_msg option \<Rightarrow> nat
    \<Rightarrow> (c_long, 's, c_ulong option) body" where
  "chan_filter J ftype msk pattern flow i w =
     (case chan_proto i (fst w) of
        None \<Rightarrow> (panic, w)
      | Some proto \<Rightarrow>
          let idlen = filter_width proto flow in
          if unat (pm_data_size msk) < idlen \<or> unat (pm_data_size pattern) < idlen
             \<or> (case flow of Some f \<Rightarrow> unat (pm_data_size f) < idlen | None \<Rightarrow> False)
          then report (rstr ''filter message shorter than the identifier width'') ERR_INVALID_MSG w
          else sbind (take_wire_id J i 0x000e7a00) (\<lambda>wire_id.
                 attempt (chan_call i (raw_start_filter (je_env J) wire_id ftype (take idlen (pm_data msk))
                            (take idlen (pm_data pattern)) (map_option (\<lambda>f. take idlen (pm_data f)) flow) idlen))
                   (\<lambda>_. sbind (write_out (ucast wire_id)) (\<lambda>_. sreturn STATUS_NOERROR))
                   (\<lambda>e. report (rstr ''start filter rejected: '' @ je_show J e) (code_of e))) w)"

definition pass_thru_start_msg_filter :: "'s shim_env \<Rightarrow> c_ulong \<Rightarrow> c_ulong \<Rightarrow> passthru_msg option
    \<Rightarrow> passthru_msg option \<Rightarrow> passthru_msg option \<Rightarrow> ('s, c_ulong option) export" where
  "pass_thru_start_msg_filter J ch filter_type mask_msg pattern_msg flow = guard (\<lambda>w.
     case (mask_msg, pattern_msg, snd w) of
       (Some msk, Some pattern, Some _) \<Rightarrow>
         let ftype = (ucast filter_type :: u32) in
         if \<not> (1 \<le> ftype \<and> ftype \<le> 3) then report (rstr ''bad filter type'') ERR_INVALID_MSG w
         else if ftype = 3 \<and> flow = None
         then report (rstr ''FLOW_CONTROL_FILTER needs pFlowControlMsg'') ERR_NULL_PARAMETER w
         else if ftype \<noteq> 3 \<and> flow \<noteq> None
         then report (rstr ''pFlowControlMsg only valid for FLOW_CONTROL_FILTER'') ERR_INVALID_MSG w
         else with_host ch (host_filter J ftype pattern flow)
                (with_chan ch (chan_filter J ftype msk pattern flow)) w
     | _ \<Rightarrow> report (rstr ''NULL filter msg'') ERR_NULL_PARAMETER w)"

definition pass_thru_stop_msg_filter :: "'s shim_env \<Rightarrow> c_ulong \<Rightarrow> c_ulong \<Rightarrow> ('s, 'm) export" where
  "pass_thru_stop_msg_filter J ch filter_id = guard
     (with_host ch (\<lambda>i. sreturn STATUS_NOERROR)
       (with_chan ch (\<lambda>i. attempt (chan_call i (raw_stop_filter (je_env J) (ucast filter_id)))
          (\<lambda>_. sreturn STATUS_NOERROR)
          (\<lambda>e. report (rstr ''no such filter: '' @ je_show J e) ERR_INVALID_FILTER_ID))))"

section \<open>Messages\<close>

text \<open>The caller's array and \<open>*pNumMsgs\<close>, each behind a pointer. By the exports' contract the array
  has at least \<open>*pNumMsgs\<close> messages.\<close>

record msg_mem =
  mm_msgs :: "passthru_msg list option"
  mm_num :: "c_ulong option"

definition put_num :: "nat \<Rightarrow> (unit, 's, msg_mem) body" where
  "put_num n w = (Ok (), (fst w, (snd w)\<lparr>mm_num := Some (of_nat n)\<rparr>))"

definition msg_args :: "msg_mem \<Rightarrow> (passthru_msg list \<times> nat) option" where
  "msg_args m = (case (mm_msgs m, mm_num m) of
     (Some ms, Some n) \<Rightarrow> if n = 0 then None else Some (ms, unat n) | _ \<Rightarrow> None)"

text \<open>Sending one after the other; \<open>step\<close> gives the code that ends the call, if any.\<close>

fun send_each :: "(passthru_msg \<Rightarrow> (c_long option, 's, msg_mem) body) \<Rightarrow> nat \<Rightarrow> passthru_msg list
    \<Rightarrow> (c_long, 's, msg_mem) body" where
  "send_each step sent [] = sbind (put_num sent) (\<lambda>_. sreturn STATUS_NOERROR)"
| "send_each step sent (m # ms) =
     sbind (step m) (\<lambda>r. case r of
         None \<Rightarrow> send_each step (sent + 1) ms
       | Some c \<Rightarrow> sbind (put_num sent) (\<lambda>_. sreturn c))"

definition send_host :: "'s shim_env \<Rightarrow> nat \<Rightarrow> nat \<Rightarrow> passthru_msg \<Rightarrow> (c_long option, 's, msg_mem) body" where
  "send_host J k i m =
     (let size = min (unat (pm_data_size m)) (length (pm_data m)) in
      if size < 4
      then sbind (report (rstr ''ISO15765 message shorter than a 4-byte id'') ERR_INVALID_MSG) (\<lambda>c. sreturn (Some c))
      else attempt (host_call i (isotp_send (je_env J) k (drop 4 (take size (pm_data m)))))
        (\<lambda>_. sreturn None)
        (\<lambda>e. sbind (report (rstr ''host write rejected: '' @ je_show J e)
               (case e of Codec _ \<Rightarrow> ERR_INVALID_MSG | IsoTpErr _ \<Rightarrow> ERR_INVALID_MSG | _ \<Rightarrow> code_of e))
             (\<lambda>c. sreturn (Some c))))"

definition send_raw_msg :: "'s shim_env \<Rightarrow> nat \<Rightarrow> passthru_msg \<Rightarrow> (c_long option, 's, msg_mem) body" where
  "send_raw_msg J i m =
     (let size = unat (pm_data_size m) in
      if size > length (pm_data m)
      then sbind (report (rstr ''DataSize exceeds the message buffer'') ERR_INVALID_MSG) (\<lambda>c. sreturn (Some c))
      else attempt (chan_call i (raw_write (je_env J) (pm_tx_flags m) (take size (pm_data m))))
        (\<lambda>_. sreturn None)
        (\<lambda>e. sbind (report (rstr ''write rejected: '' @ je_show J e)
               (case e of Codec _ \<Rightarrow> ERR_INVALID_MSG | _ \<Rightarrow> code_of e))
             (\<lambda>c. sreturn (Some c))))"

definition pass_thru_write_msgs :: "'s shim_env \<Rightarrow> nat \<Rightarrow> c_ulong \<Rightarrow> c_ulong \<Rightarrow> ('s, msg_mem) export" where
  "pass_thru_write_msgs J k ch interval = guard (\<lambda>w.
     case msg_args (snd w) of
       None \<Rightarrow> report (rstr ''NULL/empty msg'') ERR_NULL_PARAMETER w
     | Some (ms, want) \<Rightarrow>
         with_host ch (\<lambda>i. send_each (send_host J k i) 0 (take want ms))
           (with_chan ch (\<lambda>i. send_each (send_raw_msg J i) 0 (take want ms))) w)"

text \<open>The clock of the slot's session, and the microseconds since the first open.\<close>

definition slot_now :: "'s shim_env \<Rightarrow> nat \<Rightarrow> (instant, 's, 'm) body" where
  "slot_now J i w =
     (case get_slot i (fst w) of
        None \<Rightarrow> (panic, w)
      | Some sl \<Rightarrow> (case t_now (ev_io (je_env J)) (ac_io (dv_actor (sl_device sl))) of
          (now, io) \<Rightarrow> (Ok now,
            (put_slot i (Some (sl\<lparr>sl_device := (sl_device sl)\<lparr>dv_actor := (dv_actor (sl_device sl))\<lparr>ac_io := io\<rparr>\<rparr>\<rparr>)) (fst w), snd w))))"

definition slot_sleep :: "'s shim_env \<Rightarrow> nat \<Rightarrow> duration \<Rightarrow> (unit, 's, 'm) body" where
  "slot_sleep J i t w =
     (case get_slot i (fst w) of
        None \<Rightarrow> (panic, w)
      | Some sl \<Rightarrow> (Ok (),
          (put_slot i (Some (sl\<lparr>sl_device := (sl_device sl)\<lparr>dv_actor := (dv_actor (sl_device sl))
             \<lparr>ac_io := t_thread_sleep (ev_io (je_env J)) t (ac_io (dv_actor (sl_device sl)))\<rparr>\<rparr>\<rparr>)) (fst w), snd w)))"

definition timestamp_micros :: "'s shim_env \<Rightarrow> nat \<Rightarrow> (u32, 's, 'm) body" where
  "timestamp_micros J i =
     sbind (slot_now J i) (\<lambda>now w.
       let epoch = (case sh_epoch (fst w) of Some t \<Rightarrow> t | None \<Rightarrow> now) in
       (Ok (of_nat ((now - epoch) div 1000)), ((fst w)\<lparr>sh_epoch := Some epoch\<rparr>, snd w)))"

definition put_msg :: "nat \<Rightarrow> (passthru_msg \<Rightarrow> passthru_msg) \<Rightarrow> (unit, 's, msg_mem) body" where
  "put_msg j f w =
     (Ok (), (fst w, (snd w)\<lparr>mm_msgs := map_option (\<lambda>ms. ms[j := f (ms ! j)]) (mm_msgs (snd w))\<rparr>))"

text \<open>A received message is stored under its time stamp.\<close>

definition deliver :: "'s shim_env \<Rightarrow> nat \<Rightarrow> nat \<Rightarrow> u32 \<Rightarrow> u32 \<Rightarrow> bytes \<Rightarrow> (unit, 's, msg_mem) body" where
  "deliver J i got pid status b =
     sbind (timestamp_micros J i) (\<lambda>micros. put_msg got (fill_msg pid status micros b))"

definition read_failed :: "'s shim_env \<Rightarrow> nat \<Rightarrow> error \<Rightarrow> (c_long, 's, msg_mem) body" where
  "read_failed J got e = sbind (put_num got) (\<lambda>_. fail_with J e)"

definition read_done :: "rtext \<Rightarrow> nat \<Rightarrow> (c_long, 's, msg_mem) body" where
  "read_done silence got =
     sbind (put_num got) (\<lambda>_. if got = 0 then report silence ERR_BUFFER_EMPTY else sreturn STATUS_NOERROR)"

definition host_rx_id :: "nat \<Rightarrow> 's shim \<Rightarrow> can_id option" where
  "host_rx_id i sh = (case get_slot i sh of
     Some sl \<Rightarrow> map_option (\<lambda>tp. tc_rx_id (tp_cfg tp)) (sl_host sl) | None \<Rightarrow> None)"

text \<open>The receive loops; \<open>n\<close> is the fuel of each call below.\<close>

fun read_host :: "'s shim_env \<Rightarrow> nat \<Rightarrow> nat \<Rightarrow> bytes \<Rightarrow> nat \<Rightarrow> instant \<Rightarrow> nat \<Rightarrow> nat \<Rightarrow> (c_long, 's, msg_mem) body" where
  "read_host J n i rx_wire want deadline got 0 w = (Err OutOfFuel, w)"
| "read_host J n i rx_wire want deadline got (Suc k) w =
     (if got \<ge> want then read_done (rstr ''no message'') got w
      else sbind (slot_now J i) (\<lambda>now.
        attempt (host_call i (isotp_recv (je_env J) n (deadline - now)))
          (\<lambda>payload. sbind (deliver J i got (wire Iso15765) 0 (rx_wire @ payload))
             (\<lambda>_ w. read_host J n i rx_wire want deadline (got + 1) k w))
          (\<lambda>e. case e of
             Timeout _ \<Rightarrow> read_done (rstr ''no message'') got
           | _ \<Rightarrow> read_failed J got e)) w)"

definition no_message :: "nat \<Rightarrow> 's shim \<Rightarrow> rtext" where
  "no_message i sh =
     (case get_slot i sh of
        Some sl \<Rightarrow> (case sl_chan sl of
          Some c \<Rightarrow> if rc_nfilters c = 0
             then rstr (''no message (no filter installed; this adapter receives nothing '' @
                        ''until PassThruStartMsgFilter is called)'')
             else rstr ''no message''
        | None \<Rightarrow> [])
      | None \<Rightarrow> [])"

fun read_raw :: "'s shim_env \<Rightarrow> nat \<Rightarrow> protocol_id \<Rightarrow> nat \<Rightarrow> instant \<Rightarrow> nat \<Rightarrow> nat \<Rightarrow> (c_long, 's, msg_mem) body" where
  "read_raw J i proto want deadline got 0 w = (Err OutOfFuel, w)"
| "read_raw J i proto want deadline got (Suc k) w =
     (if got \<ge> want then read_done (no_message i (fst w)) got w
      else attempt (chan_call i (raw_poll (je_env J) (from_millis 200)))
        (\<lambda>r. case r of
           Some m \<Rightarrow> sbind (deliver J i got (wire proto) (rx_status m) (rx_data m))
              (\<lambda>_ w. read_raw J i proto want deadline (got + 1) k w)
         | None \<Rightarrow> sbind (slot_now J i) (\<lambda>now w.
              if now \<ge> deadline then read_done (no_message i (fst w)) got w
              else sbind (slot_sleep J i (from_millis 5)) (\<lambda>_ w. read_raw J i proto want deadline got k w) w))
        (read_failed J got) w)"

definition pass_thru_read_msgs :: "'s shim_env \<Rightarrow> nat \<Rightarrow> nat \<Rightarrow> c_ulong \<Rightarrow> c_ulong \<Rightarrow> ('s, msg_mem) export" where
  "pass_thru_read_msgs J n k ch timeout = guard (\<lambda>w.
     case msg_args (snd w) of
       None \<Rightarrow> report (rstr ''NULL/empty msg'') ERR_NULL_PARAMETER w
     | Some (ms, want) \<Rightarrow>
         let span = from_millis (max (unat timeout) 1) in
         with_host ch (\<lambda>i. sbind (slot_now J i) (\<lambda>now w.
             case host_rx_id i (fst w) of
               None \<Rightarrow> (panic, w)
             | Some rx \<Rightarrow> read_host J n i (to_wire rx) want (now + span) 0 k w))
           (with_chan ch (\<lambda>i. sbind (slot_now J i) (\<lambda>now w.
             case chan_proto i (fst w) of
               None \<Rightarrow> (panic, w)
             | Some proto \<Rightarrow> read_raw J i proto want (now + span) 0 k w))) w)"

end
