(* ===== verification/J2534_Ioctl.thy ===== *)
theory J2534_Ioctl
  imports J2534_Calls
begin

text \<open>
  \<open>rmvci-j2534/src/lib.rs\<close>, third part: \<open>PassThruIoctl\<close>, periodic messages, the programming
  voltage, the version strings and the last error. The shape of an ioctl's \<open>input\<close> and \<open>output\<close>
  depends on its identifier; \<open>ioctl_mem\<close> holds the shapes. Text leaves the library as the UTF-8
  bytes of a Rust string in a buffer of the caller.
\<close>

section \<open>Configuration\<close>

record sconfig =
  sc_parameter :: u32
  sc_value :: u32

record sconfig_list =
  sc_num :: u32
  sc_ptr :: "sconfig list option"

record ioctl_mem =
  im_list :: "sconfig_list option"
  im_init :: "passthru_msg option"
  im_reply :: "passthru_msg option"
  im_word :: "c_ulong option"

text \<open>The decimal digits of a number in a text.\<close>

fun decimal :: "nat \<Rightarrow> rtext" where
  "decimal n = (if n < 10 then [48 + n] else decimal (n div 10) @ [48 + n mod 10])"

declare decimal.simps [simp del]

text \<open>The caller's parameters, or the code for a null pointer. By contract the array has
  \<open>NumOfParams\<close> entries.\<close>

definition config_args :: "ioctl_mem \<Rightarrow> rtext + sconfig list" where
  "config_args m =
     (case im_list m of
        None \<Rightarrow> Inl (rstr ''NULL SCONFIG_LIST'')
      | Some l \<Rightarrow> (case sc_ptr l of
          None \<Rightarrow> if sc_num l > 0 then Inl (rstr ''NULL ConfigPtr'') else Inr []
        | Some ps \<Rightarrow> Inr (take (unat (sc_num l)) ps)))"

fun set_each :: "'s shim_env \<Rightarrow> nat \<Rightarrow> sconfig list \<Rightarrow> (c_long, 's, 'm) body" where
  "set_each J i [] = sreturn STATUS_NOERROR"
| "set_each J i (p # ps) =
     attempt (chan_call i (raw_set_config (je_env J) (sc_parameter p) (sc_value p)))
       (\<lambda>_. set_each J i ps)
       (\<lambda>e. report (rstr ''set_config('' @ decimal (unat (sc_parameter p)) @ rstr '') failed: '' @ je_show J e)
              (code_of e))"

text \<open>\<open>GET_CONFIG\<close> fills in the caller's list.\<close>

definition put_value :: "nat \<Rightarrow> u32 \<Rightarrow> (unit, 's, ioctl_mem) body" where
  "put_value j v w =
     (Ok (), (fst w, (snd w)\<lparr>im_list := map_option (\<lambda>l. l\<lparr>sc_ptr :=
        map_option (\<lambda>ps. ps[j := (ps ! j)\<lparr>sc_value := v\<rparr>]) (sc_ptr l)\<rparr>) (im_list (snd w))\<rparr>))"

fun get_each :: "'s shim_env \<Rightarrow> nat \<Rightarrow> nat \<Rightarrow> sconfig list \<Rightarrow> (c_long, 's, ioctl_mem) body" where
  "get_each J i j [] = sreturn STATUS_NOERROR"
| "get_each J i j (p # ps) =
     attempt (chan_call i (raw_get_config (je_env J) (sc_parameter p)))
       (\<lambda>v. sbind (put_value j v) (\<lambda>_. get_each J i (j + 1) ps))
       (\<lambda>e. report (rstr ''get_config('' @ decimal (unat (sc_parameter p)) @ rstr '') failed: '' @ je_show J e)
              (code_of e))"

definition with_list :: "(sconfig list \<Rightarrow> (c_long, 's, ioctl_mem) body) \<Rightarrow> (c_long, 's, ioctl_mem) body" where
  "with_list f w =
     (case config_args (snd w) of Inl t \<Rightarrow> report t ERR_NULL_PARAMETER w | Inr ps \<Rightarrow> f ps w)"

section \<open>Initialisation\<close>

definition put_reply :: "protocol_id \<Rightarrow> bytes \<Rightarrow> (unit, 's, ioctl_mem) body" where
  "put_reply proto b w =
     (Ok (), (fst w, (snd w)\<lparr>im_reply := map_option (fill_msg (wire proto) 0 0 b) (im_reply (snd w))\<rparr>))"

definition kline_init :: "'s shim_env \<Rightarrow> (bytes \<Rightarrow> (bytes, error, 's device \<times> raw_channel) op) \<Rightarrow> nat
    \<Rightarrow> (c_long, 's, ioctl_mem) body" where
  "kline_init J run i w =
     (case im_init (snd w) of
        None \<Rightarrow> report (rstr ''NULL/empty init message'') ERR_NULL_PARAMETER w
      | Some m \<Rightarrow>
          if pm_data_size m = 0 then report (rstr ''NULL/empty init message'') ERR_NULL_PARAMETER w
          else attempt (chan_call i (run (msg_bytes m)))
            (\<lambda>b w. case chan_proto i (fst w) of
               None \<Rightarrow> (panic, w)
             | Some proto \<Rightarrow> sbind (put_reply proto b) (\<lambda>_. sreturn STATUS_NOERROR) w)
            (\<lambda>e. report (rstr ''init failed: '' @ je_show J e) ERR_FAILED) w)"

section \<open>The ioctls\<close>

definition pass_thru_ioctl :: "'s shim_env \<Rightarrow> c_ulong \<Rightarrow> c_ulong \<Rightarrow> ('s, ioctl_mem) export" where
  "pass_thru_ioctl J ch ioctl_id = guard
     (let E = je_env J; op = (ucast ioctl_id :: u32) in
      if op = 0x02 then with_chan ch (\<lambda>i. with_list (set_each J i))
      else if op = 0x01 then with_chan ch (\<lambda>i. with_list (get_each J i 0))
      else if op = 0x03 then with_chan ch (\<lambda>i w.
        if im_word (snd w) = None then report (rstr ''NULL READ_VBATT output'') ERR_NULL_PARAMETER w
        else attempt (chan_call i (raw_read_vbatt E))
          (\<lambda>mv w. (Ok STATUS_NOERROR, (fst w, (snd w)\<lparr>im_word := Some (ucast mv)\<rparr>))) (fail_with J) w)
      else if op = 0x09 then with_chan ch (\<lambda>i.
        attempt (chan_call i (raw_clear_periodic E)) (\<lambda>_. sreturn STATUS_NOERROR) (fail_with J))
      else if op = 0x05 then with_chan ch (kline_init J (raw_fast_init E))
      else if op = 0x04 then with_chan ch (kline_init J (raw_five_baud_init E))
      else if op = 0x07 \<or> op = 0x08 \<or> op = 0x0a then with_chan ch (\<lambda>i. sreturn STATUS_NOERROR)
      else report (rstr ''ioctl not supported'') ERR_NOT_SUPPORTED)"

section \<open>Periodic messages, programming voltage\<close>

definition pass_thru_start_periodic_msg :: "'s shim_env \<Rightarrow> c_ulong \<Rightarrow> passthru_msg option \<Rightarrow> c_ulong
    \<Rightarrow> ('s, c_ulong option) export" where
  "pass_thru_start_periodic_msg J ch msg interval = guard (\<lambda>w.
     case (msg, snd w) of
       (Some m, Some _) \<Rightarrow>
         with_chan ch (\<lambda>i. sbind (take_wire_id J i 0x000e7b00) (\<lambda>wire_id.
           attempt (chan_call i (raw_start_periodic (je_env J) wire_id (pm_tx_flags m) (ucast interval) (msg_bytes m)))
             (\<lambda>_. sbind (write_out (ucast wire_id)) (\<lambda>_. sreturn STATUS_NOERROR)) (fail_with J))) w
     | _ \<Rightarrow> report (rstr ''NULL periodic message/id'') ERR_NULL_PARAMETER w)"

definition pass_thru_stop_periodic_msg :: "'s shim_env \<Rightarrow> c_ulong \<Rightarrow> c_ulong \<Rightarrow> ('s, 'm) export" where
  "pass_thru_stop_periodic_msg J ch msg_id = guard
     (with_chan ch (\<lambda>i. attempt (chan_call i (raw_stop_periodic (je_env J) (ucast msg_id)))
        (\<lambda>_. sreturn STATUS_NOERROR)
        (\<lambda>e. report (rstr ''no such periodic msg: '' @ je_show J e) (code_of e))))"

definition pass_thru_set_programming_voltage :: "'s shim_env \<Rightarrow> c_ulong \<Rightarrow> c_ulong \<Rightarrow> c_ulong \<Rightarrow> ('s, 'm) export" where
  "pass_thru_set_programming_voltage J dev pin voltage = guard (locked (\<lambda>w.
     case dev_index dev (fst w) of
       None \<Rightarrow> report (rstr ''invalid device id'') ERR_INVALID_DEVICE_ID w
     | Some i \<Rightarrow> attempt (dev_call i (dev_set_programming_voltage (je_env J) (ucast pin) (ucast voltage)))
         (\<lambda>_. sreturn STATUS_NOERROR) (fail_with J) w))"

section \<open>Text out\<close>

text \<open>\<open>put_cstr\<close>: the bytes and a NUL are written from the start of the buffer, whatever its size.\<close>

definition put_cstr :: "bytes \<Rightarrow> bytes \<Rightarrow> bytes" where
  "put_cstr s dst = s @ 0 # drop (length s + 1) dst"

record version_mem =
  vm_firmware :: "bytes option"
  vm_dll :: "bytes option"
  vm_api :: "bytes option"

text \<open>The variables \<open>RMVCI_VERSION_FW\<close>, \<open>RMVCI_VERSION_DLL\<close> and \<open>RMVCI_VERSION_API\<close> as their bytes.\<close>

record version_vars =
  vv_fw :: "bytes option"
  vv_dll :: "bytes option"
  vv_api :: "bytes option"

definition ascii :: "string \<Rightarrow> bytes" where "ascii s = map of_char s"

definition or_else :: "'a option \<Rightarrow> 'a \<Rightarrow> 'a" where
  "or_else x d = (case x of Some v \<Rightarrow> v | None \<Rightarrow> d)"

definition pass_thru_read_version :: "version_vars \<Rightarrow> c_ulong \<Rightarrow> ('s, version_mem) export" where
  "pass_thru_read_version vars dev = guard (locked (\<lambda>w.
     case dev_index dev (fst w) of
       None \<Rightarrow> (Ok ERR_INVALID_DEVICE_ID, w)
     | Some i \<Rightarrow> (Ok STATUS_NOERROR, (fst w, \<lparr>
         vm_firmware = map_option (put_cstr (or_else (vv_fw vars) (ascii ''J2534 MINIV1.03''))) (vm_firmware (snd w)),
         vm_dll = map_option (put_cstr (or_else (vv_dll vars) (ascii ''MVCI J2534 DLL v1.4.6''))) (vm_dll (snd w)),
         vm_api = map_option (put_cstr (or_else (vv_api vars) (ascii ''04.04''))) (vm_api (snd w))\<rparr>))))"

text \<open>UTF-8 of a scalar value.\<close>

definition utf8_char :: "nat \<Rightarrow> bytes" where
  "utf8_char c =
     (if c < 0x80 then [of_nat c]
      else if c < 0x800 then [of_nat (0xc0 + c div 64), of_nat (0x80 + c mod 64)]
      else if c < 0x10000
      then [of_nat (0xe0 + c div 4096), of_nat (0x80 + c div 64 mod 64), of_nat (0x80 + c mod 64)]
      else [of_nat (0xf0 + c div 262144), of_nat (0x80 + c div 4096 mod 64), of_nat (0x80 + c div 64 mod 64),
            of_nat (0x80 + c mod 64)])"

definition utf8 :: "rtext \<Rightarrow> bytes" where
  "utf8 t = concat (map utf8_char t)"

definition pass_thru_get_last_error :: "('s, bytes option) export" where
  "pass_thru_get_last_error = guard (\<lambda>w.
     case snd w of
       None \<Rightarrow> (Ok ERR_NULL_PARAMETER, w)
     | Some dst \<Rightarrow> (Ok STATUS_NOERROR, (fst w, Some (put_cstr (utf8 (take 79 (sh_error (fst w)))) dst))))"

end
