(* ===== verification/Handles.thy ===== *)
theory Handles
  imports IsoTp
begin

text \<open>
  Who holds a session: every channel owns a clone of its device's handle, and the session is torn
  down when the last handle goes. This theory counts handles: the driver's calls keep their number,
  a connect that succeeds adds one, what is dropped gives its own back. The PassThru library and
  the Android library, which store devices and channels in tables, rest on it.
\<close>

section \<open>The driver's calls keep the number of handles\<close>

abbreviation handles :: "'s device \<times> 'a \<Rightarrow> nat" where
  "handles s \<equiv> dv_handles (fst s)"

lemma keeps_apply: "keeps g m \<Longrightarrow> g (snd (m s)) = g s"
  by (simp add: keeps_def)

lemma dev_request_handles: "keeps dv_handles (dev_request E req)"
  by (auto simp: keeps_def dev_request_def split: prod.split sum.split fault.split)

lemma dev_handles:
  "keeps dv_handles (dev_transact E i t)" "keeps dv_handles (connect_proto E p fl b)"
  "keeps dv_handles (disconnect_proto E p)" "keeps dv_handles (poll_proto E p t)"
  unfolding dev_transact_def connect_proto_def disconnect_proto_def poll_proto_def
  by (intro keeps_sbind dev_request_handles keeps_pure)+

lemma dev_status_handles: "keeps dv_handles (dev_status E i c t)"
  unfolding dev_status_def by (intro keeps_sbind dev_handles keeps_pure) simp

lemma version_handles: "keeps dv_handles (firmware_version E)"
  unfolding firmware_version_def
  by (intro keeps_sbind dev_handles keeps_pure) (auto simp: keeps_def sbind_def split: prod.split sum.split)

lemma on_dev_handles: "keeps dv_handles m \<Longrightarrow> keeps handles (on_dev m)"
  by (simp add: keeps_def on_dev_def split_beta)

lemma raw_status_handles: "keeps handles (raw_status E i c t)"
  unfolding raw_status_def by (intro keeps_sbind on_dev_handles dev_handles keeps_pure) simp

lemma bump_handles: "keeps handles (bump_filters f)"
  by (simp add: keeps_def bump_filters_def)

lemma keeps_fun: "(\<And>a. keeps g (m a)) \<Longrightarrow> keeps g (\<lambda>a. m a a)"
  by (simp add: keeps_def)

lemma raw_handles:
  "keeps handles (raw_start_filter E fid ft msk pat fl w)" "keeps handles (raw_stop_filter E fid)"
  "keeps handles (raw_set_config E p v)" "keeps handles (raw_start_periodic E fid tf ms b)"
  "keeps handles (raw_stop_periodic E fid)" "keeps handles (raw_clear_periodic E)"
  unfolding raw_start_filter_def raw_stop_filter_def raw_set_config_def raw_start_periodic_def
    raw_stop_periodic_def raw_clear_periodic_def
  by (rule keeps_fun, intro keeps_sbind raw_status_handles bump_handles keeps_pure)+

lemma raw_transact_handles:
  "keeps handles (raw_fast_init E b)" "keeps handles (raw_five_baud_init E b)"
  "keeps handles (raw_get_config E p)" "keeps handles (raw_read_vbatt E)" "keeps handles (raw_poll E t)"
  unfolding raw_fast_init_def raw_five_baud_init_def raw_get_config_def raw_read_vbatt_def raw_poll_def
  by (rule keeps_fun, intro keeps_sbind on_dev_handles dev_handles keeps_pure)+

lemma raw_write_handles: "keeps handles (raw_write E fl msg)"
  unfolding keeps_def
  by (simp add: raw_write_def split_beta keeps_apply [OF keeps_sbind [OF keeps_pure(1) raw_status_handles]])

lemma channel_handles:
  "keeps handles (retire_current E)" "keeps handles (take_filter_id dbg)" "keeps handles (set_current f)"
  "keeps handles (set_filter E e)" "keeps handles (send_flags E i b fl)" "keeps handles (can_send E i b)"
proof -
  have stop: "dv_handles (fst s') = dv_handles (fst s)" if "raw_stop_filter E old s = (r, s')"
    for old r and s s' :: "'a device \<times> channel"
    using keepsD [OF raw_handles(2) that] .
  show retire: "keeps handles (retire_current E)"
    unfolding keeps_def
  proof
    fix s :: "'a device \<times> channel"
    show "handles (snd (retire_current E s)) = handles s"
    proof (cases "ch_current_filter (snd s)")
      case (Some old)
      obtain r s1 where "raw_stop_filter E old (fst s, (snd s)\<lparr>ch_current_filter := None\<rparr>) = (r, s1)"
        by (metis surj_pair)
      with stop [OF this] Some show ?thesis
        by (cases r; cases "projl r") (auto simp: retire_current_def)
    qed (simp add: retire_current_def)
  qed
  show take: "keeps handles (take_filter_id dbg)" for dbg
    by (simp add: keeps_def take_filter_id_def Let_def split: sum.split)
  show cur: "keeps handles (set_current f)" for f
    by (simp add: keeps_def set_current_def)
  show "keeps handles (set_filter E e)"
    unfolding set_filter_def by (intro keeps_sbind retire take cur raw_handles)
  show flags: "keeps handles (send_flags E i b fl)" for b fl
    unfolding send_flags_def Let_def by (rule raw_write_handles)
  show "keeps handles (can_send E i b)" for b
    unfolding can_send_def by (rule flags)
qed

lemma on_path_handles:
  "keeps handles m \<Longrightarrow> keeps handles (on_firmware m c)" "keeps handles m \<Longrightarrow> keeps handles (on_host m)"
  by (simp_all add: keeps_def on_firmware_def on_host_def split_beta split: path_channel.split)

lemma install_handles: "keeps handles (install_filter E)"
  unfolding keeps_def
proof
  fix s :: "'a device \<times> isotp"
  show "handles (snd (install_filter E s)) = handles s"
    by (cases "tp_chan (snd s)")
      (simp_all only: install_filter_def Let_def path_channel.case
        keeps_apply [OF on_path_handles(1) [OF channel_handles(4)]] keeps_apply [OF on_path_handles(2) [OF channel_handles(4)]])
qed

lemma set_endpoints_handles: "keeps handles (set_endpoints E tx rx x)"
  by (simp add: keeps_def set_endpoints_def keeps_apply [OF install_handles])

lemma tp_clock_handles:
  "handles (snd (tp_now E s)) = handles s" "handles (tp_sleep E d s) = handles s"
  by (simp_all add: tp_now_def tp_sleep_def split: prod.split)

lemma frame_handles: "keeps handles (poll_frame E b)" "keeps handles (host_tx E f)"
proof -
  have "keeps handles (\<lambda>s. (sbind (on_host (chan_poll E b)) (\<lambda>r. sreturn (g s r))) s)" for g :: "'a device \<times> isotp \<Rightarrow> rx_msg option \<Rightarrow> rx_msg option"
    unfolding chan_poll_def by (rule keeps_fun) (intro keeps_sbind on_path_handles raw_transact_handles keeps_pure)
  then show "keeps handles (poll_frame E b)" by (simp add: poll_frame_def keeps_def)
  show "keeps handles (host_tx E f)"
    by (simp add: keeps_def host_tx_def keeps_apply [OF on_path_handles(2) [OF channel_handles(6)]])
qed

text \<open>The loops of the ISO-TP layer.\<close>

lemma host_send_loop_handles:
  "host_send_loop E k tx s = Some (r, s') \<Longrightarrow> handles s' = handles s"
proof (induction k arbitrary: tx s)
  case (Suc k)
  obtain now s1 where n: "tp_now E s = (now, s1)" by (metis surj_pair)
  obtain a tx1 where x: "tx_next (ev_dbg E) now tx = (a, tx1)" by fastforce
  obtain now2 s2 where n2: "tp_now E s1 = (now2, s2)" by (metis surj_pair)
  have h: "handles s1 = handles s" "handles s2 = handles s1"
    using tp_clock_handles(1) [of E s] tp_clock_handles(1) [of E s1] n n2 by simp_all
  note go = Suc.prems [unfolded host_send_loop.simps n x prod.case]
  show ?case
  proof (cases a)
    case (Inl e)
    with go h show ?thesis by simp
  next
    case a: (Inr act)
    show ?thesis
    proof (cases act)
      case (Send f)
      obtain q s3 where t: "host_tx E f s1 = (q, s3)" by (metis surj_pair)
      with keepsD [OF frame_handles(2) t] go a Send h Suc.IH [of tx1 s3] show ?thesis
        by (cases q) auto
    next
      case (WaitFc deadline)
      obtain q s3 where p: "poll_frame E (min (deadline - now2) (from_millis 100)) s2 = (q, s3)" by (metis surj_pair)
      have h3: "handles s3 = handles s" using keepsD [OF frame_handles(1) p] h by simp
      obtain now3 s4 where n3: "tp_now E s3 = (now3, s4)" by (metis surj_pair)
      have h4: "handles s4 = handles s" using tp_clock_handles(1) [of E s3] n3 h3 by simp
      from go a WaitFc n2 p n3 h h3 h4 Suc.IH [of tx1 s2] Suc.IH [of tx1 s3] Suc.IH [of _ s4] show ?thesis
        by (auto split: if_splits sum.splits option.splits prod.splits)
    next
      case (WaitUntil t)
      with go a n2 h Suc.IH [of tx1 "tp_sleep E (t - now2) s2"] Suc.IH [of tx1 s2] tp_clock_handles(2) [of E "t - now2" s2]
      show ?thesis by (auto split: if_splits)
    qed (use go a h in simp)
  qed
qed simp

lemma host_recv_loop_handles:
  "host_recv_loop E k deadline timeout rx s = Some (r, s') \<Longrightarrow> handles s' = handles s"
proof (induction k arbitrary: rx s)
  case (Suc k)
  obtain now s1 where n: "tp_now E s = (now, s1)" by (metis surj_pair)
  obtain q s2 where p: "poll_frame E (min (deadline - now) (from_millis 200)) s1 = (q, s2)" by (metis surj_pair)
  obtain now2 s3 where n2: "tp_now E s2 = (now2, s3)" by (metis surj_pair)
  have h: "handles s1 = handles s" "handles s2 = handles s" "handles s3 = handles s"
    using tp_clock_handles(1) [of E s] tp_clock_handles(1) [of E s2] n n2 keepsD [OF frame_handles(1) p] by simp_all
  have tx: "handles s4 = handles s" if "host_tx E fc s3 = (y, s4)" for fc y s4
    using keepsD [OF frame_handles(2) that] h by simp
  from Suc.prems [unfolded host_recv_loop.simps n prod.case p n2] h tx Suc.IH show ?case
    by (auto split: if_splits sum.splits option.splits prod.splits rx_event.splits)
qed simp

lemma chan_clock_handles:
  "handles (snd (chan_now E s)) = handles s" "handles (snd (chan_sleep E d s)) = handles s"
  by (simp_all add: chan_now_def chan_sleep_def split: prod.split)

lemma raw_read_loop_handles:
  "raw_read_loop E k deadline timeout s = Some (r, s') \<Longrightarrow> handles s' = handles s"
proof (induction k arbitrary: s)
  case (Suc k)
  obtain n s1 where n: "chan_now E s = (n, s1)" by (metis surj_pair)
  have h: "handles s1 = handles s" using chan_clock_handles(1) [of E s] n by simp
  have "handles s2 = handles s" if "raw_poll E b s1 = (q, s2)" for b q s2
    using keepsD [OF raw_transact_handles(5) that] h by simp
  with Suc.prems Suc.IH h show ?case
    by (auto simp: n Let_def chan_clock_handles(2) split: sum.splits if_splits prod.splits option.splits)
qed simp

lemma raw_read_handles: "raw_read E k timeout s = Some (r, s') \<Longrightarrow> handles s' = handles s"
  using chan_clock_handles(1) [of E s] raw_read_loop_handles
  by (cases "chan_now E s") (auto simp: raw_read_def split: sum.splits dest: raw_read_loop_handles)

lemma firmware_recv_handles: "firmware_recv E n k timeout cfg s = Some (r, s') \<Longrightarrow> handles s' = handles s"
proof (induction k arbitrary: s)
  case (Suc k)
  show ?case
  proof (cases "chan_read E n timeout s")
    case (Some q)
    obtain x s1 where q: "q = (x, s1)" by (metis surj_pair)
    with Some have "handles s1 = handles s" by (simp add: chan_read_def raw_read_handles)
    with Suc.prems Suc.IH [of s1] Some q show ?thesis by (auto split: sum.splits if_splits)
  qed (use Suc.prems in simp)
qed simp

lemma isotp_handles:
  "isotp_send E k p s = Some (r, s') \<Longrightarrow> handles s' = handles s"
  "isotp_recv E k t s = Some (q, s') \<Longrightarrow> handles s' = handles s"
proof -
  assume "isotp_send E k p s = Some (r, s')"
  then show "handles s' = handles s"
    by (auto simp: isotp_send_def host_send_def Let_def host_send_loop_handles split: path_channel.splits
        prod.splits if_splits sum.splits dest: keepsD [OF on_path_handles(1) [OF channel_handles(5)]])
next
  assume "isotp_recv E k t s = Some (q, s')"
  then show "handles s' = handles s"
    using tp_clock_handles(1) [of E s]
    by (auto simp: isotp_recv_def host_recv_def Let_def split: path_channel.splits prod.splits
        dest: host_recv_loop_handles firmware_recv_handles)
qed

section \<open>What adds a handle, what drops one\<close>

lemma dev_drop_handles: "dv_handles (dev_drop E d) = dv_handles d - 1"
  by (simp add: dev_drop_def Let_def split: prod.split)

lemma raw_drop_handles: "dv_handles (raw_drop E d c) = dv_handles d - 1"
  by (simp add: raw_drop_def dev_drop_handles keeps_apply [OF dev_handles(3)])

lemma connect_handles:
  "dev_connect_raw E p fl b d = (r, d') \<Longrightarrow> dv_handles d' = dv_handles d + (case r of Inr _ \<Rightarrow> 1 | Inl _ \<Rightarrow> 0)"
  "connect_deferred E cfg d = (q, d') \<Longrightarrow> dv_handles d' = dv_handles d + (case q of Inr _ \<Rightarrow> 1 | Inl _ \<Rightarrow> 0)"
proof -
  have raw: "dv_handles d' = dv_handles d + (case r of Inr _ \<Rightarrow> 1 | Inl _ \<Rightarrow> 0)"
    if "raw_connect E p fl b (dev_clone d) = (r, d')" for p fl b r d'
  proof -
    obtain x d1 where x: "connect_proto E p fl b (dev_clone d) = (x, d1)" by fastforce
    with that keepsD [OF dev_handles(2) x] show ?thesis
      by (cases x) (auto simp: raw_connect_def dev_drop_handles dev_clone_def)
  qed
  then show "dev_connect_raw E p fl b d = (r, d') \<Longrightarrow> dv_handles d' = dv_handles d + (case r of Inr _ \<Rightarrow> 1 | Inl _ \<Rightarrow> 0)"
    by (simp add: dev_connect_raw_def)
  assume c: "connect_deferred E cfg d = (q, d')"
  obtain x d1 where x: "raw_connect E Can (cc_flags (tc_can cfg)) (cc_bitrate (tc_can cfg)) (dev_clone d) = (x, d1)" by fastforce
  with c raw [OF x] show "dv_handles d' = dv_handles d + (case q of Inr _ \<Rightarrow> 1 | Inl _ \<Rightarrow> 0)"
    by (cases x) (auto simp: connect_deferred_def dev_connect_def can_wire_def sbind_def)
qed

lemma dev_drop_shared: "1 < dv_handles d \<Longrightarrow> dev_drop E d = d\<lparr>dv_handles := dv_handles d - 1\<rparr>"
  by (simp add: dev_drop_def Let_def)

lemma dev_drop_last:
  assumes "dv_handles d = 1"
  shows "\<not> dv_alive (dev_drop E d)" and "dv_alive d \<Longrightarrow> dv_actor (dev_drop E d) = snd (teardown E (dv_actor d))"
    and "dv_handles (dev_drop E d) = 0"
  using assms by (simp_all add: dev_drop_def Let_def split: prod.split)

lemma dev_connect_handles:
  assumes "dev_connect E p cfg d = (r, d')"
  shows "dv_handles d' = dv_handles d + (case r of Inr _ \<Rightarrow> 1 | Inl _ \<Rightarrow> 0)"
proof -
  obtain fl b where cfg: "cfg = (fl, b)" by fastforce
  obtain x d1 where x: "dev_connect_raw E p fl b d = (x, d1)" by fastforce
  with assms cfg connect_handles(1) [OF x] show ?thesis
    by (cases x) (auto simp: dev_connect_def dev_connect_raw_def)
qed

lemma isotp_new_handles:
  assumes "isotp_new E cfg path d = (r, d')" and "r \<noteq> panic"
  shows "dv_handles d' = dv_handles d + (case r of Inr _ \<Rightarrow> 1 | Inl _ \<Rightarrow> 0)"
proof -
  obtain q d1 where q: "isotp_connect E cfg path d = (q, d1)" by fastforce
  have h: "dv_handles d1 = dv_handles d + (case q of Inr _ \<Rightarrow> 1 | Inl _ \<Rightarrow> 0)"
  proof (cases path)
    case HostPath
    with q connect_handles(2) [of E cfg d q d1] show ?thesis by (simp add: isotp_connect_def)
  next
    case FirmwarePath
    obtain x d2 where x: "dev_connect E Iso15765 (can_wire (tc_can cfg)) d = (x, d2)" by fastforce
    with q FirmwarePath dev_connect_handles [OF x] show ?thesis
      by (cases x) (auto simp: isotp_connect_def)
  qed
  show ?thesis
  proof (cases q)
    case (Inl e)
    with assms q h show ?thesis by (auto simp: isotp_new_def)
  next
    case (Inr tp)
    obtain y d2 tp' where i: "install_filter E (d1, tp) = (y, (d2, tp'))" by (metis surj_pair)
    have "dv_handles d2 = dv_handles d1" using keepsD [OF install_handles i] by simp
    with assms q Inr i h show ?thesis
      by (auto simp: isotp_new_def raw_drop_handles split: sum.splits fault.splits)
  qed
qed

lemma drain_keeps:
  "(\<And>s r s'. recv s = Some (r, s') \<Longrightarrow> g s' = g s) \<Longrightarrow> drain_from recv c s = Some (r, s') \<Longrightarrow> g s' = g s"
proof (induction recv c s rule: drain_from.induct)
  case (1 recv c s)
  note stay = 1(2)
  from 1(3) obtain x s1 where x: "recv s = Some (x, s1)"
    by (subst (asm) drain_from.simps) (auto split: option.splits)
  note step = 1(3) [unfolded drain_from.simps [of recv c s] x option.case prod.case]
  show ?case
  proof (cases "\<exists>resp. x = Ok resp \<and> is_response_pending resp \<and> c < MAX_RESPONSE_PENDING")
    case True
    then obtain resp where r: "x = Ok resp" "is_response_pending resp \<and> c < MAX_RESPONSE_PENDING" by blast
    with step have "drain_from recv (c + 1) s1 = Some (r, s')" by simp
    from 1(1) [OF x refl r(1) r(2) stay this] stay [OF x] show ?thesis by simp
  next
    case False
    with step stay [OF x] show ?thesis by (cases x) (auto split: if_splits)
  qed
qed

lemma isotp_request_handles:
  "isotp_request E k req timeout s = Some (r, s') \<Longrightarrow> handles s' = handles s"
  using drain_keeps [where g = handles and recv = "isotp_recv E k timeout" and c = 0 and r = r and s' = s', OF isotp_handles(2)]
  by (auto simp: isotp_request_def drain_pending_def split: option.splits prod.splits sum.splits dest: isotp_handles)

end
