(* ===== verification/J2534_Shim.thy ===== *)
theory J2534_Shim
  imports J2534_Ioctl Exchanges Handles
begin

text \<open>
  What the PassThru library promises over any sequence of calls: \<open>shim_run\<close> is the step relation
  of its exports, \<open>shim_inv\<close> the slot table's invariant.
\<close>

section \<open>The slot table\<close>

text \<open>A slot holds the handle of its device and one more for its channel, of which there is at most one.\<close>

definition slot_ok :: "'s slot \<Rightarrow> bool" where
  "slot_ok sl \<longleftrightarrow>
     (sl_chan sl = None \<or> sl_host sl = None) \<and>
     dv_handles (sl_device sl) = 1 + is_some_n (sl_chan sl) + is_some_n (sl_host sl)"

definition shim_inv :: "'s shim \<Rightarrow> bool" where
  "shim_inv sh \<longleftrightarrow>
     length (sh_slots sh) = MAX_SLOTS \<and>
     (\<forall>i sl. get_slot i sh = Some sl \<longrightarrow> slot_ok sl \<and> sh_epoch sh \<noteq> None)"

lemma get_put_slot:
  "get_slot i (put_slot j x sh) = (if i = j \<and> i < length (sh_slots sh) then x else get_slot i sh)"
  by (simp add: get_slot_def put_slot_def)

lemma put_slot_simps [simp]:
  "length (sh_slots (put_slot j x sh)) = length (sh_slots sh)" "sh_epoch (put_slot j x sh) = sh_epoch sh"
  "sh_error (put_slot j x sh) = sh_error sh" "sh_poisoned (put_slot j x sh) = sh_poisoned sh"
  by (simp_all add: put_slot_def)

lemma get_slot_update [simp]:
  "get_slot i (sh\<lparr>sh_error := t\<rparr>) = get_slot i sh" "get_slot i (sh\<lparr>sh_epoch := e\<rparr>) = get_slot i sh"
  "get_slot i (sh\<lparr>sh_error := t, sh_poisoned := b\<rparr>) = get_slot i sh"
  by (simp_all add: get_slot_def)

lemma shim_inv_put:
  assumes "shim_inv sh" and "get_slot i sh = Some sl0" and "\<And>sl. x = Some sl \<Longrightarrow> slot_ok sl"
  shows "shim_inv (put_slot i x sh)"
  using assms by (auto simp: shim_inv_def get_put_slot split: if_splits)

lemma shim_inv_update:
  "shim_inv (sh\<lparr>sh_error := t\<rparr>) \<longleftrightarrow> shim_inv sh"
  "shim_inv (sh\<lparr>sh_error := t, sh_poisoned := b\<rparr>) \<longleftrightarrow> shim_inv sh"
  "shim_inv sh \<Longrightarrow> shim_inv (sh\<lparr>sh_epoch := Some e\<rparr>)"
  by (simp_all add: shim_inv_def)

lemma shim_inv_init: "shim_inv shim_init"
  by (auto simp: shim_inv_def shim_init_def get_slot_def MAX_SLOTS_def split: if_splits)


section \<open>The exports keep the invariant\<close>

named_theorems stable_intros

definition stable :: "('a, 's, 'm) body \<Rightarrow> bool" where
  "stable m \<longleftrightarrow> preserves (\<lambda>w. shim_inv (fst w)) m"

definition stable_call :: "('a, 's, 'm) call \<Rightarrow> bool" where
  "stable_call m \<longleftrightarrow> (\<forall>w r w'. shim_inv (fst w) \<longrightarrow> m w = Some (r, w') \<longrightarrow> shim_inv (fst w'))"

definition stable_export :: "('s, 'm) export \<Rightarrow> bool" where
  "stable_export m \<longleftrightarrow> (\<forall>w c w'. shim_inv (fst w) \<longrightarrow> m w = Some (c, w') \<longrightarrow> shim_inv (fst w'))"

lemma stableI: "(\<And>w. shim_inv (fst w) \<Longrightarrow> shim_inv (fst (snd (m w)))) \<Longrightarrow> stable m"
  by (simp add: stable_def preserves_def)

lemma stableD: "stable m \<Longrightarrow> shim_inv (fst w) \<Longrightarrow> shim_inv (fst (snd (m w)))"
  unfolding stable_def preserves_def by blast

lemma stable_fun: "(\<And>a. stable (m a)) \<Longrightarrow> stable (\<lambda>w. m w w)"
  by (simp add: stable_def preserves_def)

lemma stable_pure [stable_intros]: "stable (slift r)" "stable (sreturn v)" "stable (sthrow e)"
  by (simp_all add: stable_def)

lemma stable_sbind [stable_intros]: "stable m \<Longrightarrow> (\<And>v. stable (f v)) \<Longrightarrow> stable (sbind m f)"
  unfolding stable_def by (rule preserves_sbind)

lemma stable_report [stable_intros]: "stable (report t c)" "stable (fail_with J e)"
  by (auto intro!: stableI simp: report_def fail_with_def set_err_def sbind_def shim_inv_update)

lemma stable_memory [stable_intros]:
  "stable (write_out x)" "stable (put_num n)" "stable (put_msg j g)" "stable (put_value j v)" "stable (put_reply p b)"
  by (auto intro!: stableI simp: write_out_def put_num_def put_msg_def put_value_def put_reply_def)

lemma stable_locked [stable_intros]: "stable m \<Longrightarrow> stable (locked m)"
  by (simp add: stable_def preserves_def locked_def)

lemma stable_with [stable_intros]:
  "(\<And>i. stable (f i)) \<Longrightarrow> stable (with_chan ch f)"
  "(\<And>i. stable (f i)) \<Longrightarrow> stable rest \<Longrightarrow> stable (with_host ch f rest)"
  unfolding with_chan_def with_host_def
  by (rule stable_locked, rule stableI, auto split: option.split intro: stableD stable_report)+

lemma attempt_shim_inv:
  assumes "stable_call m" and "\<And>v. stable (ok v)" and "\<And>e. stable (err e)" and w: "shim_inv (fst w)"
  shows "shim_inv (fst (snd (attempt m ok err w)))"
proof (cases "m w")
  case (Some q)
  obtain r w1 where q: "q = (r, w1)" by (metis surj_pair)
  with Some w assms(1) have "shim_inv (fst w1)" unfolding stable_call_def by blast
  with stableD [OF assms(2)] stableD [OF assms(3)] Some q show ?thesis
    by (cases r; cases "projl r") (auto simp: attempt_def)
qed (use w in \<open>simp add: attempt_def\<close>)

lemma stable_attempt [stable_intros]:
  "stable_call m \<Longrightarrow> (\<And>v. stable (ok v)) \<Longrightarrow> (\<And>e. stable (err e)) \<Longrightarrow> stable (attempt m ok err)"
  by (rule stableI) (rule attempt_shim_inv)

lemma stable_guard:
  assumes "stable m"
  shows "stable_export (guard m)"
  unfolding stable_export_def
proof (intro allI impI)
  fix w c w' assume w: "shim_inv (fst w)" "guard m w = Some (c, w')"
  obtain r w1 where m: "m w = (r, w1)" by (metis surj_pair)
  have "shim_inv (fst w1)" using stableD [OF assms w(1)] m by simp
  with w(2) m show "shim_inv (fst w')"
    by (cases "r"; cases "projl r"; cases w1) (auto simp: shim_inv_update split: out_of_fuel.splits)
qed

lemma shim_inv_slot: "shim_inv sh \<Longrightarrow> get_slot i sh = Some sl \<Longrightarrow> slot_ok sl"
  by (simp add: shim_inv_def)

lemma is_some_n_cong: "(x = None \<longleftrightarrow> y = None) \<Longrightarrow> is_some_n x = is_some_n y"
  by (cases x; cases y) auto

text \<open>A slot may be replaced by one with the same handles and the same kind of channel.\<close>

lemma shim_inv_same:
  assumes "shim_inv sh" and "get_slot i sh = Some sl" and "dv_handles (sl_device sl') = dv_handles (sl_device sl)"
    and "sl_chan sl' = None \<longleftrightarrow> sl_chan sl = None" and "sl_host sl' = None \<longleftrightarrow> sl_host sl = None"
  shows "shim_inv (put_slot i (Some sl') sh)"
proof (rule shim_inv_put [OF assms(1,2)])
  fix sl'' assume "Some sl' = Some sl''"
  with shim_inv_slot [OF assms(1,2)] assms(3-5) show "slot_ok sl''"
    using is_some_n_cong [OF assms(4)] is_some_n_cong [OF assms(5)] by (simp add: slot_ok_def)
qed

lemma stable_dev_call:
  assumes "keeps dv_handles m"
  shows "stable_call (dev_call i m)"
  unfolding stable_call_def
proof (intro allI impI)
  fix w r w' assume w: "shim_inv (fst w)" "dev_call i m w = Some (r, w')"
  show "shim_inv (fst w')"
  proof (cases "get_slot i (fst w)")
    case (Some sl)
    obtain x d where m: "m (sl_device sl) = (x, d)" by fastforce
    with w Some keepsD [OF assms m] show ?thesis by (auto simp: dev_call_def intro!: shim_inv_same [OF w(1) Some])
  qed (use w in \<open>simp add: dev_call_def\<close>)
qed

lemma stable_chan_call:
  assumes "keeps handles m"
  shows "stable_call (chan_call i m)"
  unfolding stable_call_def
proof (intro allI impI)
  fix w r w' assume w: "shim_inv (fst w)" "chan_call i m w = Some (r, w')"
  show "shim_inv (fst w')"
  proof (cases "\<exists>sl c. get_slot i (fst w) = Some sl \<and> sl_chan sl = Some c")
    case True
    then obtain sl c where sl: "get_slot i (fst w) = Some sl" "sl_chan sl = Some c" by blast
    obtain x d c1 where m: "m (sl_device sl, c) = (x, (d, c1))" by (metis surj_pair)
    with w(2) sl keepsD [OF assms m] show ?thesis
      by (auto simp: chan_call_def intro!: shim_inv_same [OF w(1) sl(1)])
  next
    case False
    with w show ?thesis by (auto simp: chan_call_def split: option.splits)
  qed
qed

lemma stable_host_call:
  assumes "\<And>s r s'. m s = Some (r, s') \<Longrightarrow> handles s' = handles s"
  shows "stable_call (host_call i m)"
  unfolding stable_call_def
proof (intro allI impI)
  fix w r w' assume w: "shim_inv (fst w)" "host_call i m w = Some (r, w')"
  show "shim_inv (fst w')"
  proof (cases "\<exists>sl tp. get_slot i (fst w) = Some sl \<and> sl_host sl = Some tp")
    case True
    then obtain sl tp where sl: "get_slot i (fst w) = Some sl" "sl_host sl = Some tp" by blast
    with w(2) obtain d tp1 where m: "m (sl_device sl, tp) = Some (r, (d, tp1))"
      and w': "w' = (put_slot i (Some (sl\<lparr>sl_device := d, sl_host := Some tp1\<rparr>)) (fst w), snd w)"
      by (auto simp: host_call_def)
    with sl assms [OF m] show ?thesis by (auto simp: w' intro!: shim_inv_same [OF w(1) sl(1)])
  next
    case False
    with w show ?thesis by (auto simp: host_call_def split: option.splits)
  qed
qed

lemma stable_slot [stable_intros]:
  "stable (take_wire_id J i base)" "stable (slot_now J i)" "stable (slot_sleep J i t)"
proof -
  show "stable (take_wire_id J i base)"
    by (rule stableI)
      (auto simp: take_wire_id_def split: option.split sum.split intro: shim_inv_same)
  show "stable (slot_now J i)"
    by (rule stableI) (auto simp: slot_now_def split: option.split prod.split intro: shim_inv_same)
  show "stable (slot_sleep J i t)"
    by (rule stableI) (auto simp: slot_sleep_def split: option.split intro: shim_inv_same)
qed

lemma stable_deliver [stable_intros]: "stable (deliver J i got pid st b)"
  unfolding deliver_def timestamp_micros_def Let_def
  by (intro stable_sbind stable_slot stable_memory stableI) (auto intro: shim_inv_update(3))


lemmas stable_calls [stable_intros] =
  raw_handles [THEN stable_chan_call] raw_transact_handles [THEN stable_chan_call]
  raw_write_handles [THEN stable_chan_call]

lemma stable_isotp [stable_intros]:
  "stable_call (host_call i (isotp_send E k p))" "stable_call (host_call i (isotp_recv E k t))"
  by (rule stable_host_call, erule isotp_handles)+

lemma stable_set_endpoints [stable_intros]: "stable_call (host_call i (\<lambda>s. Some (set_endpoints E tx rx x s)))"
  by (rule stable_host_call) (auto dest: keepsD [OF set_endpoints_handles])

lemma stable_voltage [stable_intros]: "stable_call (dev_call i (dev_set_programming_voltage E pin v))"
  unfolding dev_set_programming_voltage_def by (rule stable_dev_call [OF dev_status_handles])

lemma stable_cases [stable_intros]:
  "(P \<Longrightarrow> stable m1) \<Longrightarrow> (\<not> P \<Longrightarrow> stable m2) \<Longrightarrow> stable (if P then m1 else m2)"
  "(\<And>v. stable (f v)) \<Longrightarrow> stable n \<Longrightarrow> stable (case x of Some v \<Rightarrow> f v | None \<Rightarrow> n)"
  by (auto split: option.split)

lemma stable_loops [stable_intros]:
  "(\<And>m. stable (step m)) \<Longrightarrow> stable (send_each step sent ms)"
  "stable (set_each J i ps)" "stable (get_each J i j ps)"
proof -
  show "stable (send_each step sent ms)" if "\<And>m. stable (step m)"
  proof (induction ms arbitrary: sent)
    case Nil
    show ?case unfolding send_each.simps by (intro stable_intros)
  next
    case (Cons m ms)
    then show ?case unfolding send_each.simps by (intro stable_intros that)
  qed
  show "stable (set_each J i ps)"
  proof (induction ps)
    case Nil
    show ?case unfolding set_each.simps by (intro stable_intros)
  next
    case (Cons p ps)
    then show ?case unfolding set_each.simps by (intro stable_intros)
  qed
  show "stable (get_each J i j ps)"
  proof (induction ps arbitrary: j)
    case Nil
    show ?case unfolding get_each.simps by (intro stable_intros)
  next
    case (Cons p ps)
    then show ?case unfolding get_each.simps by (intro stable_intros)
  qed
qed

lemma stable_send [stable_intros]: "stable (send_host J k i m)" "stable (send_raw_msg J i m)"
  unfolding send_host_def send_raw_msg_def Let_def
  by (intro stable_intros)+

lemma stable_read_end [stable_intros]: "stable (read_done t got)" "stable (read_failed J got e)"
  unfolding read_done_def read_failed_def by (intro stable_intros)+


lemma stable_option [stable_intros]:
  "(\<And>v. stable (f v)) \<Longrightarrow> stable g \<Longrightarrow> stable (\<lambda>w. case h w of Some v \<Rightarrow> f v w | None \<Rightarrow> g w)"
  by (rule stableI) (auto split: option.split dest: stableD)

lemma stable_panic [stable_intros]: "stable (\<lambda>w. (Inl e, w))"
  by (rule stableI) simp

lemma stable_split [stable_intros]:
  "stable m1 \<Longrightarrow> stable m2 \<Longrightarrow> stable (\<lambda>w. if b w then m1 w else m2 w)"
  "(\<And>t. stable (l t)) \<Longrightarrow> (\<And>v. stable (r v)) \<Longrightarrow> stable (\<lambda>w. case h w of Inl t \<Rightarrow> l t w | Inr v \<Rightarrow> r v w)"
  by (rule stableI, auto split: sum.split dest: stableD)+

lemma stable_at: "(\<And>x. stable (m x)) \<Longrightarrow> stable (\<lambda>w. m (h w) w)"
  by (rule stableI) (auto dest: stableD)

lemma stable_read_done [stable_intros]: "stable (\<lambda>w. read_done (no_message i (fst w)) got w)"
  by (rule stable_at) (rule stable_read_end)

lemma stable_reads: "stable (read_host J n i rx want deadline got k)" "stable (read_raw J i proto want deadline got k)"
proof -
  show "stable (read_host J n i rx want deadline got k)"
  proof (induction k arbitrary: got)
    case (Suc k)
    have next_one: "stable (\<lambda>w. read_host J n i rx want deadline (got + 1) k w)" by (rule Suc.IH)
    have err: "stable (case e of Timeout _ \<Rightarrow> read_done (rstr ''no message'') got | _ \<Rightarrow> read_failed J got e)" for e
      by (cases e) (simp_all add: stable_read_end)
    show ?case
      unfolding read_host.simps by (intro stable_intros err next_one)
  qed (auto intro!: stableI)
  show "stable (read_raw J i proto want deadline got k)"
  proof (induction k arbitrary: got)
    case (Suc k)
    have next_one: "stable (\<lambda>w. read_raw J i proto want deadline g k w)" for g by (rule Suc.IH)
    show ?case
      unfolding read_raw.simps by (intro stable_intros next_one)
  qed (auto intro!: stableI)
qed

lemma stable_kline_init [stable_intros]:
  assumes "\<And>b. keeps handles (run b)"
  shows "stable (kline_init J run i)"
proof -
  have reply: "stable (\<lambda>w. case chan_proto i (fst w) of None \<Rightarrow> (panic, w)
      | Some proto \<Rightarrow> sbind (put_reply proto b) (\<lambda>_. sreturn STATUS_NOERROR) w)" for b
    by (intro stable_intros)
  show ?thesis
    unfolding kline_init_def by (intro stable_intros stable_chan_call assms reply)
qed

lemma stable_with_list [stable_intros]: "(\<And>ps. stable (f ps)) \<Longrightarrow> stable (with_list f)"
  unfolding with_list_def by (intro stable_intros)

lemma stable_filters [stable_intros]:
  "stable (host_filter J ft pat fl i)" "stable (chan_filter J ft msk pat fl i)"
proof -
  show "stable (host_filter J ft pat fl i)"
    unfolding host_filter_def Let_def by (intro stable_intros)
  show "stable (chan_filter J ft msk pat fl i)"
    unfolding chan_filter_def Let_def by (intro stable_intros)
qed

lemma drop_channels_slot [simp]:
  "sl_chan (drop_channels E sl) = None" "sl_host (drop_channels E sl) = None"
  by (simp_all add: drop_channels_def Let_def)

lemma drop_channels_ok: "slot_ok sl \<Longrightarrow> slot_ok (drop_channels E sl)"
  by (auto simp: slot_ok_def drop_channels_def Let_def raw_drop_handles split: option.splits)

lemma put_put_slot: "put_slot i x (put_slot i y sh) = put_slot i x sh"
  by (simp add: put_slot_def)

lemma set_channel:
  assumes "i < length (sh_slots sh)"
  shows "set_chan i c (put_slot i (Some sl) sh, m) = (Ok (), (put_slot i (Some (sl\<lparr>sl_chan := Some c\<rparr>)) sh, m))"
    and "set_host i tp (put_slot i (Some sl) sh, m) = (Ok (), (put_slot i (Some (sl\<lparr>sl_host := Some tp\<rparr>)) sh, m))"
  using assms by (simp_all add: set_chan_def set_host_def get_put_slot put_put_slot)

text \<open>A connect call on a slot without a channel, whose channel \<open>put\<close> stores.\<close>

lemma connected_inv:
  assumes inv: "shim_inv (fst w)" and get: "get_slot i (fst w) = Some sl"
    and h: "dv_handles (sl_device sl) = 1"
    and m: "\<And>r d. m (sl_device sl) = (r, d) \<Longrightarrow> dv_handles d = dv_handles (sl_device sl) + (case r of Inr _ \<Rightarrow> 1 | Inl _ \<Rightarrow> 0)"
    and put: "\<And>c d. put c (put_slot i (Some (sl\<lparr>sl_device := d\<rparr>)) (fst w), snd w)
      = (Ok (), (put_slot i (Some (sl' c d)) (fst w), snd w))"
    and ok: "\<And>c d. dv_handles d = 2 \<Longrightarrow> slot_ok (sl' c d)"
  shows "shim_inv (fst (snd (attempt (dev_call i m)
    (\<lambda>c. sbind (put c) (\<lambda>_. sbind (write_out (v :: c_ulong)) (\<lambda>_. sreturn STATUS_NOERROR))) (fail_with J) w)))"
proof -
  obtain r d where r: "m (sl_device sl) = (r, d)" by fastforce
  let ?w = "(put_slot i (Some (sl\<lparr>sl_device := d\<rparr>)) (fst w), snd w)"
  have call: "dev_call i m w = Some (r, ?w)" using get r by (simp add: dev_call_def)
  show ?thesis
  proof (cases r)
    case (Inl e)
    then have "shim_inv (put_slot i (Some (sl\<lparr>sl_device := d\<rparr>)) (fst w))"
      using m [OF r] by (intro shim_inv_same [OF inv get]) simp_all
    then show ?thesis
      using Inl call stableD [OF stable_report(2), of ?w] by (cases e) (auto simp: attempt_def)
  next
    case (Inr c)
    with m [OF r] h have "dv_handles d = 2" by simp
    then have "shim_inv (put_slot i (Some (sl' c d)) (fst w))"
      using ok by (intro shim_inv_put [OF inv get]) auto
    then show ?thesis
      using Inr call put [of c d] by (simp add: attempt_def write_out_def sbind_def)
  qed
qed

lemma connect_slot_inv:
  assumes "shim_inv (fst w)" and "get_slot i (fst w) = Some sl"
  shows "shim_inv (fst (snd (connect_slot J i proto flags baud w)))"
proof -
  let ?sl = "drop_channels (je_env J) sl"
  let ?w = "(put_slot i (Some ?sl) (fst w), snd w)"
  have drop: "drop_slot_channels (je_env J) i w = (Ok (), ?w)"
    by (simp add: drop_slot_channels_def assms(2))
  have inv: "shim_inv (fst ?w)"
    by (auto intro!: shim_inv_put [OF assms] drop_channels_ok shim_inv_slot [OF assms])
  have len: "i < length (sh_slots (fst w))" using assms(2) by (auto simp: get_slot_def split: if_splits)
  have get: "get_slot i (fst ?w) = Some ?sl" by (simp add: get_put_slot len)
  have h: "dv_handles (sl_device ?sl) = 1"
    using shim_inv_slot [OF inv get] by (simp add: slot_ok_def)
  note connected = connected_inv [OF inv get h]
  show ?thesis
    unfolding connect_slot_def Let_def sbind_def [of "drop_slot_channels (je_env J) i"] drop prod.case sum.case
    using connected [where put = "set_chan i" and sl' = "\<lambda>c d. ?sl\<lparr>sl_device := d, sl_chan := Some c\<rparr>", OF connect_handles(1)]
      connected [where put = "set_host i" and sl' = "\<lambda>tp d. ?sl\<lparr>sl_device := d, sl_host := Some tp\<rparr>", OF connect_handles(2)]
    by (simp add: set_channel len slot_ok_def)
qed


lemma dev_index_slot: "dev_index dev sh = Some i \<Longrightarrow> \<exists>sl. get_slot i sh = Some sl"
  by (auto simp: dev_index_def split: option.splits if_splits)

lemma index_slot:
  "chan_index ch sh = Some i \<Longrightarrow> \<exists>sl. get_slot i sh = Some sl \<and> sl_chan sl \<noteq> None"
  "host_index ch sh = Some i \<Longrightarrow> \<exists>sl. get_slot i sh = Some sl \<and> sl_host sl \<noteq> None"
  by (auto simp: chan_index_def host_index_def split: option.splits if_splits)

lemma first_free_spec:
  "first_free xs = Some i \<Longrightarrow> i < length xs \<and> xs ! i = None \<and> (\<forall>j < i. xs ! j \<noteq> None)"
  "first_free xs = None \<Longrightarrow> None \<notin> set xs"
proof -
  show "i < length xs \<and> xs ! i = None \<and> (\<forall>j < i. xs ! j \<noteq> None)" if "first_free xs = Some i"
    using that
    by (induction xs arbitrary: i rule: first_free.induct) (auto simp: nth_Cons split: nat.splits)
  show "None \<notin> set xs" if "first_free xs = None"
    using that by (induction xs rule: first_free.induct) auto
qed

text \<open>A device made by the test hook comes with one handle, as \<open>Device::open_transport\<close> gives it.\<close>

definition factory_ok :: "'s shim_env \<Rightarrow> bool" where
  "factory_ok J \<longleftrightarrow> (\<forall>f n d. je_factory J = Some f \<longrightarrow> f n = Inr d \<longrightarrow> dv_handles d = 1)"

lemma make_device_handles: "factory_ok J \<Longrightarrow> make_device J serial name = Ok d \<Longrightarrow> dv_handles d = 1"
  by (auto simp: make_device_def factory_ok_def device_open_with_def open_transport_def
      split: option.splits sum.splits prod.splits fault.splits)

lemma shim_inv_open:
  assumes "shim_inv sh" and "first_free (sh_slots sh) = Some i" and "sh_epoch sh \<noteq> None" and "slot_ok sl"
  shows "shim_inv (put_slot i (Some sl) sh)"
  using assms by (auto simp: shim_inv_def get_put_slot split: if_splits)

lemma open_slot_inv:
  assumes "factory_ok J" and "shim_inv (fst w)" and "sh_epoch (fst w) \<noteq> None"
  shows "shim_inv (fst (snd (open_slot J serial name w)))"
proof (cases "first_free (sh_slots (fst w))")
  case None
  with assms(2) show ?thesis by (simp add: open_slot_def stableD [OF stable_report(1)])
next
  case (Some i)
  show ?thesis
  proof (cases "make_device J serial name")
    case (Inl e)
    with Some assms(2) show ?thesis
      by (cases e) (simp_all add: open_slot_def stableD [OF stable_report(1)])
  next
    case (Inr d)
    from make_device_handles [OF assms(1) Inr]
    have "shim_inv (put_slot i (Some \<lparr>sl_device = d, sl_chan = None, sl_host = None, sl_next_id = 1\<rparr>) (fst w))"
      by (intro shim_inv_open [OF assms(2) Some assms(3)]) (simp add: slot_ok_def)
    with Some Inr show ?thesis by (simp add: open_slot_def write_out_def sbind_def)
  qed
qed

lemma stable_open: "factory_ok J \<Longrightarrow> stable_export (pass_thru_open J serial now name)"
  unfolding pass_thru_open_def
  by (intro stable_guard stableI)
    (simp add: Let_def locked_def open_slot_inv shim_inv_update stableD [OF stable_report(1)])

lemma stable_close: "stable_export (pass_thru_close J dev)"
  unfolding pass_thru_close_def
proof (intro stable_guard stable_locked stableI)
  fix w :: "'a shim \<times> 'a device option"
  assume "shim_inv (fst w)"
  then show "shim_inv (fst (snd (case dev_index dev (fst w) of
       None \<Rightarrow> report (rstr ''invalid device id'') ERR_INVALID_DEVICE_ID w
     | Some i \<Rightarrow>
         (Ok STATUS_NOERROR,
          (put_slot i None (fst w), map_option (drop_slot (je_env J)) (get_slot i (fst w)))))))"
    by (auto split: option.split intro: stableD [OF stable_report(1)] shim_inv_put dest!: dev_index_slot)
qed

lemma stable_connect: "stable_export (pass_thru_connect J dev pid flags baud)"
  unfolding pass_thru_connect_def
proof (intro stable_guard stable_split stable_report stable_locked)
  show "stable (\<lambda>w. case dev_index dev (fst w) of
      None \<Rightarrow> report (rstr ''invalid device id'') ERR_INVALID_DEVICE_ID w
    | Some i \<Rightarrow> connect_slot J i proto (ucast flags) (ucast baud) w)" for proto
    by (rule stableI) (auto split: option.split intro: stableD [OF stable_report(1)] connect_slot_inv dest!: dev_index_slot)
qed

lemma drop_slot_channels_inv:
  "shim_inv (fst w) \<Longrightarrow> get_slot i (fst w) = Some sl
    \<Longrightarrow> shim_inv (put_slot i (map_option (drop_channels E) (get_slot i (fst w))) (fst w))"
  by (auto intro!: shim_inv_put drop_channels_ok shim_inv_slot)

lemma stable_disconnect: "stable_export (pass_thru_disconnect J ch)"
  unfolding pass_thru_disconnect_def
  by (intro stable_guard stable_locked stableI)
    (auto split: option.split simp: sbind_def drop_slot_channels_def intro: stableD [OF stable_report(1)]
      dest!: index_slot intro!: drop_slot_channels_inv)


lemma stable_pair [stable_intros]:
  "(\<And>a b. stable (f a b)) \<Longrightarrow> stable (\<lambda>w. case h w of (a, b) \<Rightarrow> f a b w)"
  by (rule stableI) (auto split: prod.split dest: stableD)

lemma stable_filter_exports:
  "stable_export (pass_thru_start_msg_filter J ch ft msk pat flow)" "stable_export (pass_thru_stop_msg_filter J ch fid)"
  unfolding pass_thru_start_msg_filter_def pass_thru_stop_msg_filter_def Let_def
  by (intro stable_guard stable_intros)+

lemma stable_write: "stable_export (pass_thru_write_msgs J k ch interval)"
  unfolding pass_thru_write_msgs_def by (intro stable_guard stable_intros)

lemma stable_read: "stable_export (pass_thru_read_msgs J n k ch timeout)"
  unfolding pass_thru_read_msgs_def Let_def by (intro stable_guard stable_intros stable_reads)

lemma stable_memory_only: "(\<And>w. fst (snd (m w)) = fst w) \<Longrightarrow> stable m"
  by (rule stableI) simp

lemma stable_ioctl: "stable_export (pass_thru_ioctl J ch op)"
proof -
  have vbatt: "stable (\<lambda>w. if im_word (snd w) = None then report (rstr ''NULL READ_VBATT output'') ERR_NULL_PARAMETER w
        else attempt (chan_call i (raw_read_vbatt E))
          (\<lambda>mv w. (Ok STATUS_NOERROR, (fst w, (snd w)\<lparr>im_word := Some (ucast mv)\<rparr>))) (fail_with J) w)" for i E
    by (intro stable_split stable_report stable_attempt stable_calls stable_memory_only) simp
  show ?thesis
    unfolding pass_thru_ioctl_def Let_def
    by (intro stable_guard stable_cases(1) stable_with vbatt stable_with_list stable_loops stable_kline_init
        raw_transact_handles stable_attempt stable_calls stable_pure stable_report)
qed

lemma stable_periodic:
  "stable_export (pass_thru_start_periodic_msg J ch msg interval)" "stable_export (pass_thru_stop_periodic_msg J ch mid)"
  unfolding pass_thru_start_periodic_msg_def pass_thru_stop_periodic_msg_def
  by (intro stable_guard stable_intros)+

lemma stable_device_exports:
  "stable_export (pass_thru_set_programming_voltage J dev pin v)"
  "stable_export (pass_thru_read_version vars dev)"
proof -
  show "stable_export (pass_thru_set_programming_voltage J dev pin v)"
    unfolding pass_thru_set_programming_voltage_def by (intro stable_guard stable_intros)
  show "stable_export (pass_thru_read_version vars dev)"
    unfolding pass_thru_read_version_def
    by (rule stable_guard, rule stable_locked, rule stable_memory_only) (simp split: option.split)
qed

lemma stable_last_error: "stable_export pass_thru_get_last_error"
  unfolding pass_thru_get_last_error_def
  by (rule stable_guard, rule stable_memory_only) (simp split: option.split)

section \<open>Sequences of calls\<close>

text \<open>\<open>shim_run J sh\<close>: the library reaches \<open>sh\<close> by calls of its exports, each with any arguments and any
  memory of the caller (the unit where an export has no pointers).\<close>

inductive shim_run :: "'s shim_env \<Rightarrow> 's shim \<Rightarrow> bool" for J where
  init: "shim_run J shim_init"
| open_call: "shim_run J sh \<Longrightarrow> pass_thru_open J serial now name (sh, m) = Some (c, (sh', m')) \<Longrightarrow> shim_run J sh'"
| close_call: "shim_run J sh \<Longrightarrow> pass_thru_close J dev (sh, m) = Some (c, (sh', m')) \<Longrightarrow> shim_run J sh'"
| connect_call: "shim_run J sh \<Longrightarrow> pass_thru_connect J dev pid flags baud (sh, m) = Some (c, (sh', m')) \<Longrightarrow> shim_run J sh'"
| disconnect_call: "shim_run J sh \<Longrightarrow> pass_thru_disconnect J ch (sh, ()) = Some (c, (sh', ())) \<Longrightarrow> shim_run J sh'"
| start_filter_call: "shim_run J sh
    \<Longrightarrow> pass_thru_start_msg_filter J ch ft msk pat flow (sh, m) = Some (c, (sh', m')) \<Longrightarrow> shim_run J sh'"
| stop_filter_call: "shim_run J sh \<Longrightarrow> pass_thru_stop_msg_filter J ch fid (sh, ()) = Some (c, (sh', ())) \<Longrightarrow> shim_run J sh'"
| write_call: "shim_run J sh \<Longrightarrow> pass_thru_write_msgs J k ch interval (sh, m) = Some (c, (sh', m')) \<Longrightarrow> shim_run J sh'"
| read_call: "shim_run J sh \<Longrightarrow> pass_thru_read_msgs J n k ch timeout (sh, m) = Some (c, (sh', m')) \<Longrightarrow> shim_run J sh'"
| ioctl_call: "shim_run J sh \<Longrightarrow> pass_thru_ioctl J ch op (sh, m) = Some (c, (sh', m')) \<Longrightarrow> shim_run J sh'"
| start_periodic_call: "shim_run J sh
    \<Longrightarrow> pass_thru_start_periodic_msg J ch msg interval (sh, m) = Some (c, (sh', m')) \<Longrightarrow> shim_run J sh'"
| stop_periodic_call: "shim_run J sh
    \<Longrightarrow> pass_thru_stop_periodic_msg J ch mid (sh, ()) = Some (c, (sh', ())) \<Longrightarrow> shim_run J sh'"
| voltage_call: "shim_run J sh
    \<Longrightarrow> pass_thru_set_programming_voltage J dev pin v (sh, ()) = Some (c, (sh', ())) \<Longrightarrow> shim_run J sh'"
| version_call: "shim_run J sh \<Longrightarrow> pass_thru_read_version vars dev (sh, m) = Some (c, (sh', m')) \<Longrightarrow> shim_run J sh'"
| last_error_call: "shim_run J sh \<Longrightarrow> pass_thru_get_last_error (sh, m) = Some (c, (sh', m')) \<Longrightarrow> shim_run J sh'"

lemma stable_exportD: "stable_export m \<Longrightarrow> m (sh, x) = Some (c, (sh', y)) \<Longrightarrow> shim_inv sh \<Longrightarrow> shim_inv sh'"
  unfolding stable_export_def by fastforce

lemma shim_run_inv:
  assumes "shim_run J sh" and "factory_ok J"
  shows "shim_inv sh"
  using assms(1)
proof (induction rule: shim_run.induct)
  case init
  show ?case by (rule shim_inv_init)
next
  case open_call
  from stable_exportD [OF stable_open [OF assms(2)] this(2) this(3)] show ?case .
next
  case close_call
  from stable_exportD [OF stable_close this(2) this(3)] show ?case .
next
  case connect_call
  from stable_exportD [OF stable_connect this(2) this(3)] show ?case .
next
  case disconnect_call
  from stable_exportD [OF stable_disconnect this(2) this(3)] show ?case .
next
  case start_filter_call
  from stable_exportD [OF stable_filter_exports(1) this(2) this(3)] show ?case .
next
  case stop_filter_call
  from stable_exportD [OF stable_filter_exports(2) this(2) this(3)] show ?case .
next
  case write_call
  from stable_exportD [OF stable_write this(2) this(3)] show ?case .
next
  case read_call
  from stable_exportD [OF stable_read this(2) this(3)] show ?case .
next
  case ioctl_call
  from stable_exportD [OF stable_ioctl this(2) this(3)] show ?case .
next
  case start_periodic_call
  from stable_exportD [OF stable_periodic(1) this(2) this(3)] show ?case .
next
  case stop_periodic_call
  from stable_exportD [OF stable_periodic(2) this(2) this(3)] show ?case .
next
  case voltage_call
  from stable_exportD [OF stable_device_exports(1) this(2) this(3)] show ?case .
next
  case version_call
  from stable_exportD [OF stable_device_exports(2) this(2) this(3)] show ?case .
next
  case last_error_call
  from stable_exportD [OF stable_last_error this(2) this(3)] show ?case .
qed

end
