(* ===== verification/Error_Codes.thy ===== *)
theory Error_Codes
  imports J2534 Exchanges
begin

text \<open>
  The code of a driver error: no error that a message write can return has the code of success, so
  that a status of zero means the adapter acknowledged.
\<close>

definition real_error :: "error \<Rightarrow> bool" where
  "real_error e \<longleftrightarrow> code_of e \<noteq> STATUS_NOERROR"

lemma real_error_simps [simp]:
  "real_error (Codec e)" "real_error (Transport t)" "real_error (Timeout d)" "real_error Closed"
  "real_error (Wedged n)" "real_error (IsoTpErr x)"
  by (cases e; simp add: codes real_error_def) (simp_all add: codes real_error_def)

definition honest :: "('s \<Rightarrow> ('a, error) res \<times> 's) \<Rightarrow> bool" where
  "honest m \<longleftrightarrow> (\<forall>s e s'. m s = (Err e, s') \<longrightarrow> real_error e)"

lemma honestD: "honest m \<Longrightarrow> m s = (Err e, s') \<Longrightarrow> real_error e"
  unfolding honest_def by blast

lemma honest_sbind: "honest m \<Longrightarrow> (\<And>v. honest (f v)) \<Longrightarrow> honest (sbind m f)"
  unfolding honest_def sbind_eq_Inl by blast

lemma honest_at: "(\<And>a. honest (m a)) \<Longrightarrow> honest (\<lambda>s. m (f s) s)"
  unfolding honest_def by blast

lemma honest_if: "honest m1 \<Longrightarrow> honest m2 \<Longrightarrow> honest (if b then m1 else m2)"
  by simp

lemma honest_pure:
  "honest (sreturn v)" "honest (slift (codec r))" "real_error e \<Longrightarrow> honest (sthrow e)"
  by (auto simp: honest_def codec_def map_err_eq_Err)

lemma honest_port: "honest (io_op m)"
  by (auto simp: honest_def io_op_def map_err_eq_Err split: prod.splits)

lemma honest_on_io: "honest m \<Longrightarrow> honest (on_io m)"
  unfolding honest_def on_io_def by (fastforce split: prod.splits)

lemma honest_stamp: "honest (stamp T)"
  by (auto simp: honest_def stamp_def split: prod.splits)

lemma honest_read_exact: "honest (read_exact T need deadline timeout acc)"
proof -
  have "read_exact T need deadline timeout acc s = (Err e, s') \<Longrightarrow> real_error e" for s e s'
  proof (induction T need deadline timeout acc s rule: read_exact.induct)
    case (1 T need deadline timeout acc s)
    obtain now s1 where n: "t_now T s = (now, s1)" by fastforce
    obtain r s2 where r: "t_read T need (deadline - now) s1 = (r, s2)" by fastforce
    show ?case
    proof (cases "\<exists>b. r = Ok b \<and> b \<noteq> [] \<and> need \<noteq> 0")
      case True
      then obtain b where b: "r = Ok b" "b \<noteq> []" "need \<noteq> 0" by blast
      with "1.prems" n r have "read_exact T (need - length b) deadline timeout (acc @ b) s2 = (Err e, s')"
        by (simp add: read_exact.simps [of T need])
      then show ?thesis using "1.IH" [OF b(3) n [symmetric] r [symmetric] b(1,2)] by blast
    next
      case False
      with "1.prems" n r show ?thesis
        by (cases r) (auto simp: read_exact.simps [of T need] map_err_eq_Err split: if_splits)
    qed
  qed
  then show ?thesis unfolding honest_def by blast
qed

lemma honest_read_frame: "honest (read_frame T timeout)"
proof -
  have within: "honest (read_exact_within T n t)" for n t
    using honestD [OF honest_read_exact] by (fastforce simp: honest_def read_exact_within_def split: prod.splits)
  have len: "honest (slift (rd_u16 hdr))" for hdr
    by (auto simp: honest_def rd_u16_def rbind_def idx_def)
  show ?thesis
    unfolding read_frame_def by (intro honest_sbind honest_if honest_pure within len) simp_all
qed

lemma honest_transact: "honest (transact E i t)"
proof -
  have "honest (transact_inner E i t)"
    unfolding transact_inner_def
    by (rule honest_at) (intro honest_sbind honest_pure honest_on_io honest_port honest_stamp honest_read_frame)
  from honestD [OF this] show ?thesis by (fastforce simp: honest_def transact_def split: prod.splits)
qed

lemma honest_dev_transact: "honest (dev_transact E i t)"
  unfolding honest_def
proof (intro allI impI)
  fix d e d' assume t: "dev_transact E i t d = (Err e, d')"
  show "real_error e"
  proof (cases "dv_alive d \<and> \<not> ac_wedged (dv_actor d)")
    case False
    with t show ?thesis
      by (auto simp: dev_transact_def dev_refused sbind_def split: if_splits)
  next
    case True
    obtain r a where x: "transact E i t (dv_actor d) = (r, a)" by fastforce
    with honestD [OF honest_transact] have "\<And>e. r = Err e \<Longrightarrow> real_error e" by blast
    with True t x show ?thesis
      by (cases "(d, r, a)" rule: seen.cases) (auto simp: dev_transact_seen)
  qed
qed

lemma honest_raw_status: "honest (raw_status E i c t)"
proof -
  have t: "honest (on_dev (dev_transact E i t))"
    using honestD [OF honest_dev_transact] by (fastforce simp: honest_def on_dev_def split: prod.splits)
  have "real_error (Rejected c st)" if "status_of resp c = Ok st" "\<not> status_is_ok st" for resp st
    using that by (auto simp: status_of_Ok_iff codes real_error_def unat_eq_0)
  then have st: "honest (sbind (slift (codec (status_of resp c))) (\<lambda>st. if status_is_ok st then sreturn () else sthrow (Rejected c st)))"
    for resp
    by (auto simp: honest_def sbind_eq_Inl codec_def map_err_eq_Err split: if_splits)
  show ?thesis unfolding raw_status_def by (rule honest_sbind [OF t st])
qed

lemma honest_raw_write: "honest (raw_write E fl msg)"
proof -
  have "honest (case write_bounds p of (lo, hi) \<Rightarrow>
        if length msg < lo \<or> length msg > hi then sthrow (Codec (MsgTooLong (length msg)))
        else if p = Iso15765 \<and> length msg - 4 > 255
        then sthrow (IsoTpErr (FirmwareFfDlLimit (length msg - 4)))
        else sbind (slift (codec (write_msg p fl msg))) (\<lambda>c. raw_status E c WriteMsg (from_millis 1000)))" (is "honest (?m p)") for p
    by (cases "write_bounds p") (simp only: prod.case, intro honest_if honest_sbind honest_pure honest_raw_status; simp)
  moreover have "raw_write E fl msg s = ?m (rc_proto (snd s)) s" for s
    by (simp add: raw_write_def split_beta)
  ultimately show ?thesis unfolding honest_def by metis
qed


text \<open>The same for a poll.\<close>

lemma honest_poll: "honest (raw_poll E t)"
proof -
  have actor: "honest (actor_poll E p t)" for p
  proof -
    have "honest (sbind (transact E (read_poll p) t) (\<lambda>resp. sbind (slift (codec (parse_read_reply resp)))
        (\<lambda>parsed. sreturn (msg_of_reply parsed))))"
      by (intro honest_sbind honest_transact honest_pure)
    from honestD [OF this] show ?thesis
      by (auto simp: honest_def actor_poll_def split: option.splits list.splits)
  qed
  have poll: "real_error e" if t: "poll_proto E p t d = (Err e, d')" for p d e d'
  proof (cases "dv_alive d \<and> \<not> ac_wedged (dv_actor d)")
    case False
    with t show ?thesis
      by (auto simp: poll_proto_def dev_refused sbind_def split: if_splits)
  next
    case True
    obtain r a where x: "actor_poll E p t (dv_actor d) = (r, a)" by (metis surj_pair)
    with honestD [OF actor] have "\<And>e. r = Err e \<Longrightarrow> real_error e" by blast
    with True t x show ?thesis
      by (cases "(d, r, a)" rule: seen.cases) (auto simp: poll_proto_def dev_request_seen handle_def sbind_def)
  qed
  then show ?thesis by (fastforce simp: honest_def raw_poll_def on_dev_def split: prod.splits)
qed

end
