(* ===== verification/PassThru.thy ===== *)
theory PassThru
  imports J2534_Shim Error_Codes
begin

text \<open>
  Properties of the PassThru exports: handles and their lifetime, what a refused call leaves
  alone, the counts that reads and writes report, and the size of the texts handed out.
\<close>

section \<open>Handles\<close>

lemma guard_Ok: "m w = (Ok c, w') \<Longrightarrow> guard m w = Some (c, w')"
  by simp

lemma report_apply: "report t c w = (Ok c, ((fst w)\<lparr>sh_error := t\<rparr>, snd w))"
  by (simp add: report_def set_err_def sbind_def)

lemma device_handle:
  assumes "i < MAX_SLOTS" and "get_slot i sh = Some sl"
  shows "dev_index (of_nat (i + 1)) sh = Some i"
proof -
  have "i = 0 \<or> i = 1 \<or> i = 2 \<or> i = 3" using assms(1) by (auto simp: MAX_SLOTS_def)
  with assms(2) show ?thesis
    by (auto simp: dev_index_def slot_from_dev_def MAX_SLOTS_def)
qed

lemma device_handle_free:
  assumes "get_slot i sh = None" and "i < MAX_SLOTS"
  shows "dev_index (of_nat (i + 1)) sh = None"
proof -
  have "i = 0 \<or> i = 1 \<or> i = 2 \<or> i = 3" using assms(2) by (auto simp: MAX_SLOTS_def)
  with assms(1) show ?thesis
    by (auto simp: dev_index_def slot_from_dev_def MAX_SLOTS_def)
qed

text \<open>C33: Over any sequence of PassThru calls, with any arguments, the library has its four slots,
  every open slot has at most one channel, raw or host-mode, and the device's handle count is
  exactly one more than its channels, so that no handle leaks and none is dropped twice.\<close>
theorem slot_table_invariant:
  assumes "shim_run J sh" and "factory_ok J"
  shows "length (sh_slots sh) = 4 \<and>
    (\<forall>i sl. get_slot i sh = Some sl \<longrightarrow>
       i < 4 \<and> (sl_chan sl = None \<or> sl_host sl = None)
       \<and> dv_handles (sl_device sl) = 1 + (if sl_chan sl = None \<and> sl_host sl = None then 0 else 1)
       \<and> dev_index (of_nat (i + 1)) sh = Some i)"
proof -
  have inv: "shim_inv sh" using assms by (rule shim_run_inv)
  then have len: "length (sh_slots sh) = 4" by (simp add: shim_inv_def MAX_SLOTS_def)
  have "i < 4 \<and> (sl_chan sl = None \<or> sl_host sl = None)
       \<and> dv_handles (sl_device sl) = 1 + (if sl_chan sl = None \<and> sl_host sl = None then 0 else 1)
       \<and> dev_index (of_nat (i + 1)) sh = Some i" if sl: "get_slot i sh = Some sl" for i sl
  proof -
    have i: "i < 4" using sl len by (auto simp: get_slot_def split: if_splits)
    with device_handle [OF _ sl] have "dev_index (of_nat (i + 1)) sh = Some i" by (simp add: MAX_SLOTS_def)
    with i shim_inv_slot [OF inv sl] show ?thesis
      by (cases "sl_chan sl"; cases "sl_host sl") (simp_all add: slot_ok_def)
  qed
  with len show ?thesis by blast
qed

definition mock_device :: "mock device" where
  "mock_device = \<lparr>dv_actor = actor_new mock_transport None [1] (mock_new []), dv_alive = True, dv_handles = 1,
     dv_closed = False\<rparr>"

definition mock_shim_env :: "mock shim_env" where
  "mock_shim_env = \<lparr>je_env = mock_env False xor_cipher xor_cipher, je_show = (\<lambda>e. replicate 100 233),
     je_mvci_port = None, je_factory = Some (\<lambda>n. Inr mock_device)\<rparr>"

definition one_open :: "mock shim" where
  "one_open = \<lparr>sh_slots = [Some \<lparr>sl_device = mock_device, sl_chan = None, sl_host = None, sl_next_id = 1\<rparr>, None, None, None],
     sh_error = [], sh_epoch = Some 5, sh_poisoned = False\<rparr>"

lemma factory_ok_mock: "factory_ok mock_shim_env"
  by (simp add: factory_ok_def mock_shim_env_def mock_device_def)

lemma mock_open:
  "pass_thru_open mock_shim_env (\<lambda>p. Inr (mock_new [])) 5 None (shim_init, Some 0) = Some (0, (one_open, Some 1))"
  by (simp add: pass_thru_open_def shim_init_def MAX_SLOTS_def locked_def open_slot_def make_device_def
      mock_shim_env_def write_out_def put_slot_def one_open_def sbind_def STATUS_NOERROR_def numeral_eq_Suc)

lemma run_one_open: "shim_run mock_shim_env one_open"
  by (rule open_call [OF init mock_open])

lemma slot_table_invariant_witness:
  "dev_index 1 one_open = Some 0"
proof -
  have "get_slot 0 one_open = Some \<lparr>sl_device = mock_device, sl_chan = None, sl_host = None, sl_next_id = 1\<rparr>"
    by (simp add: get_slot_def one_open_def)
  with slot_table_invariant [OF run_one_open factory_ok_mock] show ?thesis by fastforce
qed


section \<open>Closing\<close>

text \<open>The device before its last handle goes: a channel has been disconnected on the wire.\<close>

definition before_last :: "'s env \<Rightarrow> 's slot \<Rightarrow> 's device" where
  "before_last E sl =
     (let d = (sl_device sl)\<lparr>dv_handles := 1\<rparr> in
      case (sl_chan sl, sl_host sl) of
        (Some c, _) \<Rightarrow> snd (disconnect_proto E (rc_proto c) d)
      | (None, Some tp) \<Rightarrow> snd (disconnect_proto E (rc_proto (chan_of tp)) d)
      | (None, None) \<Rightarrow> d)"

lemma drop_slot_last:
  assumes "slot_ok sl"
  shows "drop_slot E sl = dev_drop E (before_last E sl)" and "dv_handles (before_last E sl) = 1"
proof -
  let ?d = "(sl_device sl)\<lparr>dv_handles := 1\<rparr>"
  have h: "dv_handles (snd (disconnect_proto E p ?d)) = 1" for p
    by (simp add: keeps_apply [OF dev_handles(3)])
  consider (none) "sl_chan sl = None" "sl_host sl = None" "dv_handles (sl_device sl) = 1"
    | (chan) c where "sl_chan sl = Some c" "sl_host sl = None" "dv_handles (sl_device sl) = 2"
    | (host) tp where "sl_chan sl = None" "sl_host sl = Some tp" "dv_handles (sl_device sl) = 2"
    using assms by (cases "sl_chan sl"; cases "sl_host sl") (auto simp: slot_ok_def)
  then have "drop_slot E sl = dev_drop E (before_last E sl) \<and> dv_handles (before_last E sl) = 1"
  proof cases
    case none
    then have "before_last E sl = sl_device sl" by (simp add: before_last_def Let_def)
    moreover from none have "drop_slot E sl = dev_drop E (sl_device sl)" by (simp add: drop_slot_def drop_channels_def)
    ultimately show ?thesis using none(3) by simp
  next
    case chan
    with h show ?thesis
      by (simp add: drop_slot_def drop_channels_def before_last_def Let_def dev_drop_shared raw_drop_def)
  next
    case host
    with h show ?thesis
      by (simp add: drop_slot_def drop_channels_def before_last_def Let_def dev_drop_shared raw_drop_def)
  qed
  then show "drop_slot E sl = dev_drop E (before_last E sl)" "dv_handles (before_last E sl) = 1" by simp_all
qed



section \<open>Stale handles\<close>

lemma refused:
  assumes "\<not> sh_poisoned sh" and "chan_index ch sh = None"
  shows "with_chan ch f (sh, u) = (Ok ERR_INVALID_CHANNEL_ID, (sh\<lparr>sh_error := rstr ''invalid channel id''\<rparr>, u))"
    and "host_index ch sh = None \<Longrightarrow> with_host ch g (with_chan ch f) (sh, u)
      = (Ok ERR_INVALID_CHANNEL_ID, (sh\<lparr>sh_error := rstr ''invalid channel id''\<rparr>, u))"
  using assms by (simp_all add: with_chan_def with_host_def locked_def report_apply)

text \<open>A handle that does not stand for a channel, or no longer does, is refused by every export
  that takes one, with the same code; only the last error changes and nothing reaches an adapter.
  The ioctls and the periodic messages refuse a host-mode channel the same way.\<close>
theorem stale_channel_refused:
  assumes "\<not> sh_poisoned sh" and "chan_index ch sh = None" and "sh' = sh\<lparr>sh_error := rstr ''invalid channel id''\<rparr>"
  shows "(ucast op \<in> {0x01, 0x02, 0x03, 0x04, 0x05, 0x07, 0x08, 0x09, 0x0a :: u32}
        \<longrightarrow> pass_thru_ioctl J ch op (sh, im) = Some (ERR_INVALID_CHANNEL_ID, (sh', im)))
    \<and> pass_thru_start_periodic_msg J ch (Some msg) interval (sh, Some v) = Some (ERR_INVALID_CHANNEL_ID, (sh', Some v))
    \<and> pass_thru_stop_periodic_msg J ch mid (sh, u) = Some (ERR_INVALID_CHANNEL_ID, (sh', u))
    \<and> (host_index ch sh = None \<longrightarrow>
         pass_thru_disconnect J ch (sh, u) = Some (ERR_INVALID_CHANNEL_ID, (sh', u))
         \<and> pass_thru_stop_msg_filter J ch fid (sh, u) = Some (ERR_INVALID_CHANNEL_ID, (sh', u))
         \<and> pass_thru_start_msg_filter J ch 1 (Some msg) (Some pat) None (sh, Some v) = Some (ERR_INVALID_CHANNEL_ID, (sh', Some v))
         \<and> pass_thru_start_msg_filter J ch 3 (Some msg) (Some pat) (Some fl) (sh, Some v) = Some (ERR_INVALID_CHANNEL_ID, (sh', Some v))
         \<and> (msg_args mm \<noteq> None \<longrightarrow>
              pass_thru_write_msgs J k ch interval (sh, mm) = Some (ERR_INVALID_CHANNEL_ID, (sh', mm))
              \<and> pass_thru_read_msgs J n k ch interval (sh, mm) = Some (ERR_INVALID_CHANNEL_ID, (sh', mm))))"
proof (intro conjI impI)
  note no = refused [OF assms(1,2)]
  show "pass_thru_ioctl J ch op (sh, im) = Some (ERR_INVALID_CHANNEL_ID, (sh', im))"
    if "ucast op \<in> {0x01, 0x02, 0x03, 0x04, 0x05, 0x07, 0x08, 0x09, 0x0a :: u32}"
    using that by (auto simp: pass_thru_ioctl_def Let_def no assms(3))
  show "pass_thru_start_periodic_msg J ch (Some msg) interval (sh, Some v) = Some (ERR_INVALID_CHANNEL_ID, (sh', Some v))"
    by (simp add: pass_thru_start_periodic_msg_def no assms(3))
  show "pass_thru_stop_periodic_msg J ch mid (sh, u) = Some (ERR_INVALID_CHANNEL_ID, (sh', u))"
    by (simp add: pass_thru_stop_periodic_msg_def no assms(3))
  assume "host_index ch sh = None"
  note no = no this no(2) [OF this]
  show "pass_thru_disconnect J ch (sh, u) = Some (ERR_INVALID_CHANNEL_ID, (sh', u))"
    using assms by (simp add: pass_thru_disconnect_def locked_def no report_apply)
  show "pass_thru_stop_msg_filter J ch fid (sh, u) = Some (ERR_INVALID_CHANNEL_ID, (sh', u))"
    by (simp add: pass_thru_stop_msg_filter_def no assms(3))
  show "pass_thru_start_msg_filter J ch 1 (Some msg) (Some pat) None (sh, Some v) = Some (ERR_INVALID_CHANNEL_ID, (sh', Some v))"
    "pass_thru_start_msg_filter J ch 3 (Some msg) (Some pat) (Some fl) (sh, Some v) = Some (ERR_INVALID_CHANNEL_ID, (sh', Some v))"
    by (simp_all add: pass_thru_start_msg_filter_def no assms(3))
  assume "msg_args mm \<noteq> None"
  then obtain ms want where a: "msg_args mm = Some (ms, want)" by auto
  show "pass_thru_write_msgs J k ch interval (sh, mm) = Some (ERR_INVALID_CHANNEL_ID, (sh', mm))"
    using a by (simp add: pass_thru_write_msgs_def no assms(3))
  show "pass_thru_read_msgs J n k ch interval (sh, mm) = Some (ERR_INVALID_CHANNEL_ID, (sh', mm))"
    using a by (simp add: pass_thru_read_msgs_def Let_def no assms(3))
qed

lemma stale_channel_refused_witness:
  "pass_thru_stop_periodic_msg mock_shim_env 0x100 7 (one_open, ()) = Some (2, (one_open\<lparr>sh_error := rstr ''invalid channel id''\<rparr>, ()))"
proof -
  have "\<not> sh_poisoned one_open" "chan_index 0x100 one_open = None"
    by (simp_all add: one_open_def chan_index_def slot_from_ch_def get_slot_def MAX_SLOTS_def)
  from stale_channel_refused [OF this refl, where J = mock_shim_env and mid = 7 and u = "()"] show ?thesis
    by (simp add: codes)
qed


section \<open>Texts\<close>

lemma utf8_ascii: "\<forall>c \<in> set t. c < 0x80 \<Longrightarrow> utf8 t = map of_nat t"
  by (induction t) (simp_all add: utf8_def utf8_char_def)

lemma length_put_cstr: "length (put_cstr s dst) = max (length dst) (length s + 1)"
  by (simp add: put_cstr_def)

lemma takeWhile_cstr: "(\<And>b. b \<in> set s \<Longrightarrow> b \<noteq> 0) \<Longrightarrow> takeWhile (\<lambda>b. b \<noteq> 0) (s @ 0 # r) = s"
  by (induction s) auto

lemma utf8_char_length: "1 \<le> length (utf8_char c)" "length (utf8_char c) \<le> 4"
  by (simp_all add: utf8_char_def)

lemma utf8_length: "length (utf8 t) \<le> 4 * length t"
proof (induction t)
  case (Cons c t)
  with utf8_char_length(2) [of c] show ?case by (simp add: utf8_def)
qed (simp add: utf8_def)

text \<open>The last error leaves the library NUL-terminated and cut to 79 characters: when they are
  ASCII the caller's 80-byte buffer keeps its size and holds exactly them as a C string; any text
  takes at most 317 bytes.\<close>
theorem last_error_fits:
  assumes "length dst = 80"
  shows "\<exists>buf. pass_thru_get_last_error (sh, Some dst) = Some (STATUS_NOERROR, (sh, Some buf))
    \<and> length buf \<le> 317
    \<and> ((\<forall>c \<in> set (take 79 (sh_error sh)). 0 < c \<and> c < 0x80) \<longrightarrow>
         length buf = 80 \<and> map unat (takeWhile (\<lambda>b. b \<noteq> 0) buf) = take 79 (sh_error sh))"
proof (intro exI conjI impI)
  let ?t = "take 79 (sh_error sh)"
  let ?buf = "put_cstr (utf8 ?t) dst"
  show "pass_thru_get_last_error (sh, Some dst) = Some (STATUS_NOERROR, (sh, Some ?buf))"
    by (simp add: pass_thru_get_last_error_def)
  have "length (utf8 ?t) \<le> 4 * 79" using utf8_length [of ?t] by simp
  then show "length ?buf \<le> 317" by (simp add: length_put_cstr assms)
  assume a: "\<forall>c \<in> set ?t. 0 < c \<and> c < 0x80"
  then have u: "utf8 ?t = map of_nat ?t" by (simp add: utf8_ascii)
  show "length ?buf = 80" by (simp add: length_put_cstr assms u)
  have byte: "unat (of_nat c :: u8) = c" if "c \<in> set ?t" for c
    using a that by (intro unat_of_nat_u8) force
  then have "(of_nat c :: u8) \<noteq> 0" if "c \<in> set ?t" for c
    using a that by force
  then have "takeWhile (\<lambda>b. b \<noteq> 0) ?buf = map of_nat ?t"
    unfolding put_cstr_def u by (intro takeWhile_cstr) auto
  then show "map unat (takeWhile (\<lambda>b. b \<noteq> 0) ?buf) = ?t"
    using byte by (simp add: map_idI)
qed

lemma last_error_fits_witness:
  "\<exists>buf. pass_thru_get_last_error (one_open\<lparr>sh_error := rstr ''invalid channel id''\<rparr>, Some (replicate 80 7))
     = Some (STATUS_NOERROR, (one_open\<lparr>sh_error := rstr ''invalid channel id''\<rparr>, Some buf))
     \<and> map unat (takeWhile (\<lambda>b. b \<noteq> 0) buf) = rstr ''invalid channel id''"
  using last_error_fits [of "replicate 80 7" "one_open\<lparr>sh_error := rstr ''invalid channel id''\<rparr>"]
  by (force simp: rstr_def)

text \<open>Characters are counted, not bytes: after a failed open whose error names a port with enough
  non-ASCII characters the text runs over the end of an 80-byte buffer.\<close>

definition failing_env :: "mock shim_env" where
  "failing_env = mock_shim_env\<lparr>je_factory := Some (\<lambda>n. Inl (Transport (OpenFailed (or_else n []) [])))\<rparr>"

theorem last_error_overflow:
  "\<exists>sh buf. shim_run failing_env sh
    \<and> pass_thru_get_last_error (sh, Some (replicate 80 0)) = Some (STATUS_NOERROR, (sh, Some buf)) \<and> 80 < length buf"
proof -
  define sh where "sh = (shim_init :: mock shim)\<lparr>sh_epoch := Some 5, sh_error := rstr ''device open failed: '' @ replicate 100 233\<rparr>"
  have "pass_thru_open failing_env (\<lambda>p. Inr (mock_new [])) 5 (Some ''x'') (shim_init, Some 0)
      = Some (ERR_DEVICE_NOT_CONNECTED, (sh, Some 0))"
    by (simp add: pass_thru_open_def shim_init_def MAX_SLOTS_def locked_def open_slot_def make_device_def
        failing_env_def mock_shim_env_def report_apply sh_def numeral_eq_Suc)
  then have "shim_run failing_env sh" by (rule open_call [OF init])
  moreover have "80 < length (utf8 (take 79 (sh_error sh)))"
  proof -
    have "take 79 (sh_error sh) = rstr ''device open failed: '' @ replicate 59 233"
      by (simp add: sh_def rstr_def)
    moreover have "length (utf8 (replicate n 233)) = 2 * n" for n
      by (induction n) (simp_all add: utf8_def utf8_char_def)
    ultimately show ?thesis by (simp add: utf8_def)
  qed
  ultimately show ?thesis
    by (intro exI [of _ sh]) (simp add: pass_thru_get_last_error_def length_put_cstr)
qed


section \<open>Writing\<close>

text \<open>Writing messages one after the other on a channel, as the driver does it.\<close>

fun writes :: "'s env \<Rightarrow> raw_channel \<Rightarrow> passthru_msg list \<Rightarrow> 's device \<Rightarrow> 's device option" where
  "writes E c [] d = Some d"
| "writes E c (m # ms) d =
     (if unat (pm_data_size m) \<le> length (pm_data m)
      then (case raw_write E (pm_tx_flags m) (take (unat (pm_data_size m)) (pm_data m)) (d, c) of
              (Inr _, s) \<Rightarrow> writes E c ms (fst s)
            | (Inl _, s) \<Rightarrow> None)
      else None)"

abbreviation on_slot :: "nat \<Rightarrow> 's slot \<Rightarrow> ('s, 'm) world \<Rightarrow> ('s, 'm) world" where
  "on_slot i sl w \<equiv> (put_slot i (Some sl) (fst w), snd w)"

lemma get_slot_length: "get_slot i sh = Some sl \<Longrightarrow> i < length (sh_slots sh)"
  by (simp add: get_slot_def split: if_splits)

lemma send_raw_msg_result:
  assumes "get_slot i (fst w) = Some sl" and "sl_chan sl = Some c"
  obtains (sent) d where "writes (je_env J) c [m] (sl_device sl) = Some d"
      "send_raw_msg J i m w = (Ok None, on_slot i (sl\<lparr>sl_device := d\<rparr>) w)"
  | (refused) code w' where "writes (je_env J) c [m] (sl_device sl) = None"
      "send_raw_msg J i m w = (Ok (Some code), w')" "code \<noteq> STATUS_NOERROR" "snd w' = snd w"
proof (cases "unat (pm_data_size m) \<le> length (pm_data m)")
  case False
  then have "send_raw_msg J i m w
      = (Ok (Some ERR_INVALID_MSG), ((fst w)\<lparr>sh_error := rstr ''DataSize exceeds the message buffer''\<rparr>, snd w))"
    by (simp add: send_raw_msg_def Let_def report_apply sbind_def)
  from refused [OF _ this] False show thesis by (simp add: codes)
next
  case True
  let ?b = "take (unat (pm_data_size m)) (pm_data m)"
  obtain r d c' where x: "raw_write (je_env J) (pm_tx_flags m) ?b (sl_device sl, c) = (r, (d, c'))" by (metis surj_pair)
  have c': "c' = c" "r \<noteq> panic"
    using raw_write_queues [OF x] raw_write_cases [OF x] by auto
  have call: "chan_call i (raw_write (je_env J) (pm_tx_flags m) ?b) w = Some (r, on_slot i (sl\<lparr>sl_device := d\<rparr>) w)"
    using assms x c' by (cases sl) (simp add: chan_call_def)
  show thesis
  proof (cases r)
    case (Inr u)
    with True x call c' show thesis
      by (intro sent [of d]) (simp_all add: send_raw_msg_def attempt_def)
  next
    case (Inl e)
    with c' obtain e' where e: "r = Err e'" by (cases e) auto
    with honestD [OF honest_raw_write] x have "real_error e'" by blast
    then have "(case e' of Codec _ \<Rightarrow> ERR_INVALID_MSG | _ \<Rightarrow> code_of e') \<noteq> STATUS_NOERROR"
      by (cases e') (auto simp: real_error_def codes)
    moreover have "\<exists>w'. send_raw_msg J i m w
        = (Ok (Some (case e' of Codec _ \<Rightarrow> ERR_INVALID_MSG | _ \<Rightarrow> code_of e')), w') \<and> snd w' = snd w"
      using True call e by (simp add: send_raw_msg_def attempt_def report_apply sbind_def)
    moreover have "writes (je_env J) c [m] (sl_device sl) = None" using x e by simp
    ultimately show thesis using refused by blast
  qed
qed

lemma send_each_raw:
  assumes "get_slot i (fst w) = Some sl" and "sl_chan sl = Some c"
  shows "\<exists>j code w'. send_each (send_raw_msg J i) sent ms w = (Ok code, w')
    \<and> snd w' = (snd w)\<lparr>mm_num := Some (of_nat (sent + j))\<rparr> \<and> j \<le> length ms
    \<and> writes (je_env J) c (take j ms) (sl_device sl) \<noteq> None
    \<and> (if j = length ms then code = STATUS_NOERROR
       else code \<noteq> STATUS_NOERROR \<and> writes (je_env J) c (take (Suc j) ms) (sl_device sl) = None)"
  using assms
proof (induction ms arbitrary: sent w sl)
  case Nil
  then show ?case by (auto simp: put_num_def sbind_def)
next
  case (Cons m ms)
  from Cons.prems show ?case
  proof (cases rule: send_raw_msg_result [where J = J and m = m])
    case (sent d)
    define sl1 where "sl1 = sl\<lparr>sl_device := d\<rparr>"
    let ?w = "on_slot i sl1 w"
    have get: "get_slot i (fst ?w) = Some sl1"
      using Cons.prems(1) by (simp add: get_put_slot get_slot_length)
    have sl1: "sl_chan sl1 = Some c" "sl_device sl1 = d" using Cons.prems(2) by (simp_all add: sl1_def)
    from Cons.IH [OF get sl1(1), of "sent + 1", unfolded sl1(2)] obtain j code w' where
      IH: "send_each (send_raw_msg J i) (sent + 1) ms ?w = (Ok code, w')"
        "snd w' = (snd ?w)\<lparr>mm_num := Some (of_nat (sent + 1 + j))\<rparr>" "j \<le> length ms"
        "writes (je_env J) c (take j ms) d \<noteq> None"
        "if j = length ms then code = STATUS_NOERROR
         else code \<noteq> STATUS_NOERROR \<and> writes (je_env J) c (take (Suc j) ms) d = None"
      by blast
    have step: "writes (je_env J) c (m # xs) (sl_device sl) = writes (je_env J) c xs d" for xs
      using sent(1) by (auto split: if_splits prod.splits sum.splits)
    have "send_each (send_raw_msg J i) sent (m # ms) w = (Ok code, w')"
      using sent(2) IH(1) by (simp add: sl1_def)
    with IH step show ?thesis
      by (intro exI [of _ "Suc j"] exI [of _ code] exI [of _ w']) (auto simp: add.assoc split: if_splits)
  next
    case (refused code w')
    have no: "writes (je_env J) c [m] (sl_device sl) = None" by (rule refused(1))
    have "send_each (send_raw_msg J i) sent (m # ms) w = (Ok code, (fst w', (snd w')\<lparr>mm_num := Some (of_nat sent)\<rparr>))"
      using refused(2) by (simp add: put_num_def sbind_def)
    with refused no show ?thesis
      by (intro exI [of _ 0] exI [of _ code] exI) auto
  qed
qed



text \<open>A channel on the mock device.\<close>

definition can_message :: passthru_msg where
  "can_message = \<lparr>pm_protocol_id = 5, pm_rx_status = 0, pm_tx_flags = 0, pm_timestamp = 0, pm_data_size = 6,
     pm_extra_data_index = 0, pm_data = replicate 4128 0\<rparr>"

definition can_slot :: "mock slot" where
  "can_slot = \<lparr>sl_device = mock_device\<lparr>dv_handles := 2\<rparr>, sl_chan = Some \<lparr>rc_proto = Can, rc_nfilters = 0\<rparr>,
     sl_host = None, sl_next_id = 1\<rparr>"

definition can_shim :: "mock shim" where
  "can_shim = \<lparr>sh_slots = [Some can_slot, None, None, None], sh_error = [], sh_epoch = Some 0, sh_poisoned = False\<rparr>"

lemma can_shim_simps:
  "\<not> sh_poisoned can_shim" "host_index 0x100 can_shim = None" "chan_index 0x100 can_shim = Some 0"
  "get_slot 0 can_shim = Some can_slot" "sl_chan can_slot = Some \<lparr>rc_proto = Can, rc_nfilters = 0\<rparr>"
  by (simp_all add: can_shim_def can_slot_def host_index_def chan_index_def slot_from_ch_def get_slot_def MAX_SLOTS_def)


section \<open>Reading\<close>

locale shim_clock = session_clock "je_env J" time for J :: "'s shim_env" and time
begin

text \<open>Slot \<open>i\<close> has the raw channel's protocol \<open>p\<close>, and its session's clock has passed \<open>t\<close>.\<close>

definition at :: "nat \<Rightarrow> protocol_id \<Rightarrow> instant \<Rightarrow> 's shim \<Rightarrow> bool" where
  "at i p t sh \<longleftrightarrow> (\<exists>sl c. get_slot i sh = Some sl \<and> sl_chan sl = Some c \<and> rc_proto c = p
     \<and> t \<le> time (ac_io (dv_actor (sl_device sl))))"

lemma at_put:
  assumes "get_slot i sh = Some sl0" and "sl_chan sl = Some c" and "rc_proto c = p" and "t \<le> time (ac_io (dv_actor (sl_device sl)))"
  shows "at i p t (put_slot i (Some sl) sh)"
  using assms by (auto simp: at_def get_put_slot get_slot_length)

lemma at_mono: "at i p t sh \<Longrightarrow> t' \<le> t \<Longrightarrow> at i p t' sh"
  by (force simp: at_def)

lemma at_poll:
  assumes "at i p t (fst w)"
  obtains r w1 where "chan_call i (raw_poll (je_env J) b) w = Some (r, w1)" "r \<noteq> panic" "at i p t (fst w1)"
    "snd w1 = snd w" "\<And>e. r = Err e \<Longrightarrow> real_error e"
proof -
  from assms obtain sl c where sl: "get_slot i (fst w) = Some sl" "sl_chan sl = Some c" "rc_proto c = p"
    "t \<le> time (ac_io (dv_actor (sl_device sl)))" by (auto simp: at_def)
  obtain r d c' where x: "raw_poll (je_env J) b (sl_device sl, c) = (r, (d, c'))" by (metis surj_pair)
  have c': "c' = c"
    using arg_cong [OF x, of "\<lambda>q. snd (snd q)"] by (simp add: raw_poll_def)
  have later: "t \<le> time (ac_io (dv_actor d))"
    using poll_later [of "(sl_device sl, c)" b] x sl(4) by simp
  obtain q d0 where q: "poll_proto (je_env J) (rc_proto c) b (sl_device sl) = (q, d0)" by fastforce
  then have "q \<noteq> panic" using dev_calls_not_panic(4) by (metis fst_conv)
  with q x have "r \<noteq> panic" by (simp add: raw_poll_def on_dev_def)
  moreover have "chan_call i (raw_poll (je_env J) b) w = Some (r, on_slot i (sl\<lparr>sl_device := d, sl_chan := Some c\<rparr>) w)"
    using sl x c' by (simp add: chan_call_def)
  moreover have "at i p t (fst (on_slot i (sl\<lparr>sl_device := d, sl_chan := Some c\<rparr>) w))"
    using at_put [OF sl(1)] sl(3) later by simp
  moreover have "\<And>e. r = Err e \<Longrightarrow> real_error e" using honestD [OF honest_poll] x by blast
  ultimately show thesis using that by simp
qed

lemma at_now:
  assumes "at i p t (fst w)"
  obtains now w1 where "slot_now J i w = (Ok now, w1)" "t \<le> now" "at i p now (fst w1)" "snd w1 = snd w"
    "sh_epoch (fst w1) = sh_epoch (fst w)"
proof -
  from assms obtain sl c where sl: "get_slot i (fst w) = Some sl" "sl_chan sl = Some c" "rc_proto c = p"
    "t \<le> time (ac_io (dv_actor (sl_device sl)))" by (auto simp: at_def)
  obtain now io where n: "t_now (ev_io (je_env J)) (ac_io (dv_actor (sl_device sl))) = (now, io)" by fastforce
  have b: "t \<le> now" "now \<le> time io"
    using now_between [of "ac_io (dv_actor (sl_device sl))"] n sl(4) by simp_all
  show thesis
    by (rule that [of now "on_slot i (sl\<lparr>sl_device := (sl_device sl)\<lparr>dv_actor := (dv_actor (sl_device sl))\<lparr>ac_io := io\<rparr>\<rparr>\<rparr>) w"])
      (use n b sl in \<open>simp_all add: slot_now_def at_put [OF sl(1)]\<close>)
qed

lemma at_sleep:
  assumes "at i p t (fst w)"
  obtains w1 where "slot_sleep J i d w = (Ok (), w1)" "at i p (t + d) (fst w1)" "snd w1 = snd w"
proof -
  from assms obtain sl c where sl: "get_slot i (fst w) = Some sl" "sl_chan sl = Some c" "rc_proto c = p"
    "t \<le> time (ac_io (dv_actor (sl_device sl)))" by (auto simp: at_def)
  have "t + d \<le> time (t_thread_sleep (ev_io (je_env J)) d (ac_io (dv_actor (sl_device sl))))"
    using slept [of "ac_io (dv_actor (sl_device sl))" d] sl(4) by simp
  then show thesis
    by (intro that [of "snd (slot_sleep J i d w)"]) (simp_all add: slot_sleep_def at_put [OF sl(1)] sl)
qed

end


context shim_clock
begin

lemma at_deliver:
  assumes "at i p t (fst w)"
  obtains w1 micros where "deliver J i got pid st b w = (Ok (), w1)" "at i p t (fst w1)"
    "snd w1 = (snd w)\<lparr>mm_msgs := map_option (\<lambda>ms. ms[got := fill_msg pid st micros b (ms ! got)]) (mm_msgs (snd w))\<rparr>"
proof -
  from assms obtain now w1 where n: "slot_now J i w = (Ok now, w1)" "t \<le> now" "at i p now (fst w1)" "snd w1 = snd w"
    by (rule at_now)
  have "at i p t ((fst w1)\<lparr>sh_epoch := e\<rparr>)" for e
    using n(2,3) by (force simp: at_def)
  with n show thesis
    by (intro that) (auto simp: deliver_def timestamp_micros_def put_msg_def sbind_def Let_def)
qed

end

text \<open>What a receive loop leaves in the caller's memory.\<close>

definition received :: "protocol_id \<Rightarrow> nat \<Rightarrow> nat \<Rightarrow> passthru_msg list \<Rightarrow> msg_mem \<Rightarrow> bool" where
  "received p got got' ms m \<longleftrightarrow>
     (\<exists>ms'. mm_msgs m = Some ms' \<and> length ms' = length ms
        \<and> (\<forall>j < length ms. j < got \<or> got' \<le> j \<longrightarrow> ms' ! j = ms ! j)
        \<and> (\<forall>j. got \<le> j \<and> j < got' \<and> j < length ms \<longrightarrow>
             pm_protocol_id (ms' ! j) = wire p \<and> length (pm_data (ms' ! j)) = length (pm_data (ms ! j))))"

lemma length_fill_msg [simp]: "length (pm_data (fill_msg pid st u b old)) = length (pm_data old)"
  by (simp add: fill_msg_def Let_def)

lemma fill_msg_protocol [simp]: "pm_protocol_id (fill_msg pid st u b old) = pid"
  by (simp add: fill_msg_def Let_def)

lemma received_refl: "mm_msgs m = Some ms \<Longrightarrow> received p got got ms m"
  by (auto simp: received_def)

lemma received_step:
  assumes "received p (Suc got) got' (ms[got := fill_msg (wire p) st u b (ms ! got)]) m" and "got < got'"
  shows "received p got got' ms m"
proof -
  obtain ms' where ms': "mm_msgs m = Some ms'" "length ms' = length ms"
    "\<And>j. j < length ms \<Longrightarrow> j < Suc got \<or> got' \<le> j \<Longrightarrow> ms' ! j = ms[got := fill_msg (wire p) st u b (ms ! got)] ! j"
    "\<And>j. Suc got \<le> j \<Longrightarrow> j < got' \<Longrightarrow> j < length ms \<Longrightarrow>
       pm_protocol_id (ms' ! j) = wire p
       \<and> length (pm_data (ms' ! j)) = length (pm_data (ms[got := fill_msg (wire p) st u b (ms ! got)] ! j))"
    using assms(1) by (auto simp: received_def)
  have new: "ms' ! got = fill_msg (wire p) st u b (ms ! got)" if "got < length ms"
    using ms'(3) [of got] that by simp
  have old: "ms' ! j = ms ! j" if "j < length ms" "j < got \<or> got' \<le> j" for j
    using ms'(3) [of j] that assms(2) by auto
  have filled: "pm_protocol_id (ms' ! j) = wire p \<and> length (pm_data (ms' ! j)) = length (pm_data (ms ! j))"
    if "got \<le> j" "j < got'" "j < length ms" for j
    using ms'(4) [of j] new that by (cases "j = got") auto
  show ?thesis using ms'(1,2) old filled unfolding received_def by blast
qed

context shim_clock
begin

text \<open>How the loop ends: the number of messages, the code, the memory.\<close>

definition ends_well :: "protocol_id \<Rightarrow> nat \<Rightarrow> nat \<Rightarrow> passthru_msg list \<Rightarrow> (c_long, 's, msg_mem) body \<Rightarrow> ('s, msg_mem) world \<Rightarrow> bool" where
  "ends_well p got want ms m w \<longleftrightarrow>
     (\<exists>code w' got'. m w = (Ok code, w') \<and> got \<le> got' \<and> got' \<le> want \<and> mm_num (snd w') = Some (of_nat got')
        \<and> (code = STATUS_NOERROR \<longrightarrow> 0 < got') \<and> received p got got' ms (snd w'))"

lemma read_end:
  assumes "mm_msgs (snd w) = Some ms" and "got \<le> want"
  shows "ends_well p got want ms (read_done t got) w" and "real_error e \<Longrightarrow> ends_well p got want ms (read_failed J got e) w"
  using assms
  by (auto simp: ends_well_def read_done_def read_failed_def fail_with_def put_num_def sbind_def report_apply codes
      real_error_def received_def intro!: exI [of _ got])

lemma ends_well_cong: "m w = m' w' \<Longrightarrow> ends_well p got want ms m w = ends_well p got want ms m' w'"
  by (simp add: ends_well_def)

lemma ends_well_more:
  assumes "ends_well p (Suc got) want (ms[got := fill_msg (wire p) st u b (ms ! got)]) m w"
  shows "ends_well p got want ms m w"
proof -
  from assms obtain code w' got' where "m w = (Ok code, w')" "Suc got \<le> got'" "got' \<le> want"
    "mm_num (snd w') = Some (of_nat got')" "code = STATUS_NOERROR \<longrightarrow> 0 < got'"
    "received p (Suc got) got' (ms[got := fill_msg (wire p) st u b (ms ! got)]) (snd w')"
    by (auto simp: ends_well_def)
  with received_step show ?thesis
    unfolding ends_well_def by (intro exI [of _ code] exI [of _ w'] exI [of _ got']) auto
qed

lemma read_raw_silent:
  assumes "chan_call i (raw_poll (je_env J) (from_millis 200)) w = Some (Ok None, w1)" and "got < want"
    and "slot_now J i w1 = (Ok now, w2)"
  shows "read_raw J i p want deadline got (Suc k) w =
    (if now \<ge> deadline then read_done (no_message i (fst w2)) got w2
     else sbind (slot_sleep J i (from_millis 5)) (\<lambda>_ w. read_raw J i p want deadline got k w) w2)"
  using assms by (simp add: attempt_def)

lemma read_raw_ends:
  assumes "at i p t (fst w)" and "mm_msgs (snd w) = Some ms" and "got \<le> want"
    and "deadline - t \<le> n * from_millis 5" and "(want - got) + n < k"
  shows "ends_well p got want ms (read_raw J i p want deadline got k) w"
  using assms
proof (induction k arbitrary: t w ms got n)
  case (Suc k)
  show ?case
  proof (cases "got = want")
    case True
    with read_end(1) [OF Suc.prems(2,3)] show ?thesis by (simp add: ends_well_def)
  next
    case more: False
    obtain r w1 where poll: "chan_call i (raw_poll (je_env J) (from_millis 200)) w = Some (r, w1)" "r \<noteq> panic"
      "at i p t (fst w1)" "snd w1 = snd w" "\<And>e. r = Err e \<Longrightarrow> real_error e"
      using at_poll [OF Suc.prems(1)] by blast
    consider (err) e where "r = Err e" | (msg) m where "r = Ok (Some m)" | (none) "r = Ok None"
      using poll(2) by (metis fault.exhaust option.exhaust sum.exhaust)
    then show ?thesis
    proof cases
      case err
      with poll more Suc.prems(2,3) read_end(2) [of w1 ms got want e p] show ?thesis
        by (simp add: ends_well_def attempt_def)
    next
      case msg
      obtain w2 u where d: "deliver J i got (wire p) (rx_status m) (rx_data m) w1 = (Ok (), w2)" "at i p t (fst w2)"
        "snd w2 = (snd w1)\<lparr>mm_msgs := map_option (\<lambda>ms. ms[got := fill_msg (wire p) (rx_status m) u (rx_data m) (ms ! got)]) (mm_msgs (snd w1))\<rparr>"
        using at_deliver [OF poll(3)] by blast
      let ?ms = "ms[got := fill_msg (wire p) (rx_status m) u (rx_data m) (ms ! got)]"
      have "mm_msgs (snd w2) = Some ?ms" using d(3) poll(4) Suc.prems(2) by simp
      from Suc.IH [OF d(2) this _ Suc.prems(4), of "Suc got"] more Suc.prems(3,5)
      have "ends_well p (Suc got) want ?ms (read_raw J i p want deadline (Suc got) k) w2" by simp
      moreover have "read_raw J i p want deadline got (Suc k) w = read_raw J i p want deadline (Suc got) k w2"
        using msg poll(1) more d(1) Suc.prems(3) by (simp add: attempt_def)
      ultimately show ?thesis using ends_well_more ends_well_cong by metis
    next
      case none
      obtain now w2 where nw: "slot_now J i w1 = (Ok now, w2)" "t \<le> now" "at i p now (fst w2)" "snd w2 = snd w1"
        using at_now [OF poll(3)] by blast
      have "chan_call i (raw_poll (je_env J) (from_millis 200)) w = Some (Ok None, w1)" "got < want"
        using none poll(1) more Suc.prems(3) by simp_all
      note round = read_raw_silent [OF this nw(1), of p deadline k]
      show ?thesis
      proof (cases "now \<ge> deadline")
        case True
        with read_end(1) [of w2 ms got want] nw(4) poll(4) Suc.prems(2,3) round show ?thesis
          by (simp add: ends_well_def)
      next
        case False
        then obtain j where j: "n = Suc j" using Suc.prems(4) nw(2) by (cases n) auto
        obtain w3 where sl: "slot_sleep J i (from_millis 5) w2 = (Ok (), w3)" "at i p (now + from_millis 5) (fst w3)" "snd w3 = snd w2"
          using at_sleep [OF nw(3)] by blast
        have "deadline - (now + from_millis 5) \<le> j * from_millis 5"
          using Suc.prems(4) nw(2) j by simp
        from Suc.IH [OF sl(2) _ Suc.prems(3) this] j sl(3) nw(4) poll(4) Suc.prems(2,5)
        have "ends_well p got want ms (read_raw J i p want deadline got k) w3" by simp
        with False sl(1) round show ?thesis by (simp add: ends_well_def)
      qed
    qed
  qed
qed simp

end


context shim_clock
begin

lemma read_msgs_end:
  assumes "\<not> sh_poisoned sh" and "host_index ch sh = None" and "chan_index ch sh = Some i"
    and "get_slot i sh = Some sl" and "sl_chan sl = Some c"
    and "mm_msgs mm = Some ms" and "mm_num mm = Some n" and "n \<noteq> 0"
    and "unat n + max (unat timeout) 1 div 5 + 2 \<le> k"
  shows "\<exists>code sh' m' got. pass_thru_read_msgs J f k ch timeout (sh, mm) = Some (code, (sh', m'))
    \<and> mm_num m' = Some (of_nat got) \<and> got \<le> unat n \<and> (code = STATUS_NOERROR \<longrightarrow> 0 < got)
    \<and> received (rc_proto c) 0 got ms m'"
proof -
  let ?w = "(sh, mm)" and ?span = "from_millis (max (unat timeout) 1)"
  have "at i (rc_proto c) 0 (fst ?w)" using assms(4,5) by (simp add: at_def)
  from at_now [OF this] obtain now w1
    where nw: "slot_now J i ?w = (Ok now, w1)" "at i (rc_proto c) now (fst w1)" "snd w1 = snd ?w" by metis
  have span: "max (unat timeout) 1 \<le> (max (unat timeout) 1 div 5 + 1) * 5" by simp
  have "now + ?span - now \<le> (max (unat timeout) 1 div 5 + 1) * from_millis 5"
    using mult_le_mono1 [OF span, of 1000000] by (simp add: algebra_simps)
  from read_raw_ends [OF nw(2) _ _ this, of ms 0 "unat n" k] nw(3) assms(6,9)
  have "ends_well (rc_proto c) 0 (unat n) ms (read_raw J i (rc_proto c) (unat n) (now + ?span) 0 k) w1" by simp
  then obtain code w' got where r: "read_raw J i (rc_proto c) (unat n) (now + ?span) 0 k w1 = (Ok code, w')"
    "got \<le> unat n" "mm_num (snd w') = Some (of_nat got)" "code = STATUS_NOERROR \<longrightarrow> 0 < got" "received (rc_proto c) 0 got ms (snd w')"
    by (auto simp: ends_well_def)
  have proto: "chan_proto i (fst w1) = Some (rc_proto c)" using nw(2) by (auto simp: at_def chan_proto_def)
  have "msg_args mm = Some (ms, unat n)" using assms(6-8) by (simp add: msg_args_def)
  then have "pass_thru_read_msgs J f k ch timeout (sh, mm) = Some (code, w')"
    using assms(1-3) nw(1) proto r(1)
    by (simp add: pass_thru_read_msgs_def with_host_def with_chan_def locked_def Let_def)
  with r show ?thesis by (metis surj_pair snd_conv)
qed

end

interpretation mock_shim: shim_clock mock_shim_env mk_now
  by (simp add: shim_clock_def mock_shim_env_def mock_timed.session_clock_axioms)

text \<open>C38: Reading on a raw channel always returns, over any port whose clock runs forward and whatever
  the adapter sends, within one round per message and one per five milliseconds of the timeout: it
  reports how many of the caller's entries it filled, never more than asked for, fills them from
  the front with the channel's protocol and leaves the others alone; success means at least one.\<close>
theorem read_msgs_returns:
  assumes "shim_clock J time"
    and "\<not> sh_poisoned sh" and "host_index ch sh = None" and "chan_index ch sh = Some i"
    and "get_slot i sh = Some sl" and "sl_chan sl = Some c"
    and "mm_msgs mm = Some ms" and "mm_num mm = Some n" and "n \<noteq> 0"
    and "unat n + max (unat timeout) 1 div 5 + 2 \<le> k"
  shows "\<exists>code sh' m' got. pass_thru_read_msgs J f k ch timeout (sh, mm) = Some (code, (sh', m'))
    \<and> mm_num m' = Some (of_nat got) \<and> got \<le> unat n \<and> (code = STATUS_NOERROR \<longrightarrow> 0 < got)
    \<and> (\<exists>ms'. mm_msgs m' = Some ms' \<and> length ms' = length ms
        \<and> (\<forall>j < length ms. if j < got then pm_protocol_id (ms' ! j) = wire (rc_proto c) else ms' ! j = ms ! j))"
proof -
  from shim_clock.read_msgs_end [OF assms] obtain code sh' m' got
    where r: "pass_thru_read_msgs J f k ch timeout (sh, mm) = Some (code, (sh', m'))" "mm_num m' = Some (of_nat got)"
      "got \<le> unat n" "code = STATUS_NOERROR \<longrightarrow> 0 < got" "received (rc_proto c) 0 got ms m'" by blast
  from r(5) obtain ms' where "mm_msgs m' = Some ms'" "length ms' = length ms"
    "\<forall>j < length ms. if j < got then pm_protocol_id (ms' ! j) = wire (rc_proto c) else ms' ! j = ms ! j"
    by (auto simp: received_def)
  with r(1-4) show ?thesis by blast
qed

lemma read_msgs_returns_witness:
  "\<exists>code sh' m'. pass_thru_read_msgs mock_shim_env 1 9 0x100 30 (can_shim, \<lparr>mm_msgs = Some [can_message], mm_num = Some 1\<rparr>)
     = Some (code, (sh', m'))"
proof -
  let ?mm = "\<lparr>mm_msgs = Some [can_message], mm_num = Some 1\<rparr>"
  have "mm_msgs ?mm = Some [can_message]" "mm_num ?mm = Some 1" "(1 :: c_ulong) \<noteq> 0"
    "unat (1 :: c_ulong) + max (unat (30 :: c_ulong)) 1 div 5 + 2 \<le> 9"
    by simp_all
  from read_msgs_returns [OF mock_shim.shim_clock_axioms can_shim_simps this, where f = 1] show ?thesis by blast
qed

end
