(* ===== verification/Streams.thy ===== *)
theory Streams
  imports Wire_Read
begin

text \<open>
  What a real port promises of reads: the bytes come in order, none is made up and none is lost,
  but a read may give up early or fail. This contract is weaker than \<open>byte_stream\<close> of the scripted
  transport; a frame that is read is still exactly the front of the stream.
\<close>

locale ordered_stream =
  fixes T :: "'s transport" and held :: "'s \<Rightarrow> bytes"
  assumes read_in_order: "0 < n \<Longrightarrow> t_read T n d s = (Ok b, s') \<Longrightarrow> held s = b @ held s' \<and> length b \<le> n"
    and now_keeps: "held (snd (t_now T s)) = held s"
begin

lemma read_exact_in_order:
  assumes "read_exact T need deadline timeout acc s = (Ok b, s')"
  shows "\<exists>b0. b = acc @ b0 \<and> length b0 = need \<and> held s = b0 @ held s'"
  using assms
proof (induction need arbitrary: acc s rule: less_induct)
  case (less need)
  show ?case
  proof (cases "need = 0")
    case True
    with less.prems show ?thesis by (simp add: read_exact.simps)
  next
    case False
    obtain now s1 where now: "t_now T s = (now, s1)" by fastforce
    obtain r s2 where rd: "t_read T need (deadline - now) s1 = (r, s2)" by fastforce
    from less.prems False now rd obtain p where p: "r = Ok p" "p \<noteq> []"
      "read_exact T (need - length p) deadline timeout (acc @ p) s2 = (Ok b, s')"
      by (auto simp: read_exact.simps [of T need] map_err_eq_Ok [symmetric] split: sum.splits if_splits fault.splits)
    have held: "held s = p @ held s2" "length p \<le> need"
      using read_in_order [of need "deadline - now" s1 p s2] now_keeps [of s] now rd p(1) False by auto
    from p(2) False have "need - length p < need" by simp
    from less.IH [OF this p(3)] obtain b0
      where "b = (acc @ p) @ b0" "length b0 = need - length p" "held s2 = b0 @ held s'" by blast
    with held show ?thesis by (intro exI [of _ "p @ b0"]) simp
  qed
qed

lemma read_exact_within_in_order:
  assumes "read_exact_within T need timeout s = (Ok b, s')"
  shows "length b = need \<and> held s = b @ held s'"
proof -
  obtain now s1 where now: "t_now T s = (now, s1)" by fastforce
  with assms have "read_exact T need (now + timeout) timeout [] s1 = (Ok b, s')"
    by (simp add: read_exact_within_def)
  from read_exact_in_order [OF this] now_keeps [of s] now show ?thesis by auto
qed

text \<open>What the frame reader returns is well framed and was next in the stream.\<close>

lemma read_frame_in_order:
  assumes "read_frame T timeout s = (Ok f, s')"
  shows "well_framed f \<and> held s = f @ held s'"
proof -
  from assms obtain hdr s1 len body where h: "read_exact_within T 2 timeout s = (Ok hdr, s1)"
    and len: "rd_u16 hdr = (Ok len :: (nat, error) res)" "\<not> len < 3" "\<not> len > MAX_FRAME"
    and b: "read_exact_within T (len - 2) (timeout + from_millis (len div 5 + 50)) s1 = (Ok body, s')" "f = hdr @ body"
    by (auto simp: read_frame_def sbind_eq_Ok split: if_splits)
  note hdr = read_exact_within_in_order [OF h] and body = read_exact_within_in_order [OF b(1)]
  then have "len_field hdr = len" using len(1) by (simp add: rd_u16_eq)
  then have "len_field f = len" using len_field_append [of hdr body] hdr b(2) by simp
  with hdr body b(2) len(2,3) show ?thesis by (auto simp: well_framed_def)
qed

end

sublocale byte_stream \<subseteq> ordered: ordered_stream T held
proof
  fix n d s b s'
  assume "0 < n" "t_read T n d s = (Ok b, s')"
  then show "held s = b @ held s' \<and> length b \<le> n" using read_portion [of n d s] by auto
qed simp

end
