(* ===== verification/Texts.thy ===== *)
theory Texts
  imports Prelude
begin

text \<open>Numbers in texts, as \<open>format!\<close> prints them: decimal, and hexadecimal in lower case with leading
  zeros to a width.\<close>

fun show_nat :: "nat \<Rightarrow> string" where
  "show_nat n = (if n < 10 then [char_of (48 + n)] else show_nat (n div 10) @ [char_of (48 + n mod 10)])"

declare show_nat.simps [simp del]

definition show_int :: "int \<Rightarrow> string" where
  "show_int i = (if i < 0 then ''-'' @ show_nat (nat (- i)) else show_nat (nat i))"

definition hex_digits :: "nat \<Rightarrow> nat \<Rightarrow> string" where
  "hex_digits width n = map (\<lambda>i. ''0123456789abcdef'' ! (n div 16 ^ i mod 16)) (rev [0 ..< width])"

end
