(* ===== verification/Jni.thy ===== *)
theory Jni
  imports Streams Texts
begin

text \<open>
  The Android backend, \<open>rmvci-core/src/transport/jni.rs\<close>: a transport whose bytes are moved by a Java
  \<open>UsbSerialPort\<close>. The Java side and the crate \<open>jni\<close> are outside the repository; what the code calls
  of them is the record \<open>'d java\<close> on the state \<open>'d\<close> of the virtual machine and the port. A call that
  throws gives its error's text and leaves an exception pending on the thread until it is cleared.
  \<open>'d jni\<close> is the struct: that state and the buffer of surplus bytes.
\<close>

record 'd java =
  jv_attach :: "'d \<Rightarrow> string option \<times> 'd"
  jv_array_from :: "bytes \<Rightarrow> 'd \<Rightarrow> string option \<times> 'd"
  jv_write :: "bytes \<Rightarrow> int \<Rightarrow> 'd \<Rightarrow> string option \<times> 'd"
  jv_new_array :: "nat \<Rightarrow> 'd \<Rightarrow> string option \<times> 'd"
  jv_read :: "nat \<Rightarrow> int \<Rightarrow> 'd \<Rightarrow> (string + int \<times> bytes) \<times> 'd"
  jv_region :: "bytes \<Rightarrow> nat \<Rightarrow> 'd \<Rightarrow> (string + bytes) \<times> 'd"
  jv_purge :: "'d \<Rightarrow> string option \<times> 'd"
  jv_set_dtr :: "bool \<Rightarrow> 'd \<Rightarrow> string option \<times> 'd"
  jv_set_rts :: "bool \<Rightarrow> 'd \<Rightarrow> string option \<times> 'd"
  jv_control_transfer :: "(int \<Rightarrow> int \<Rightarrow> int \<Rightarrow> int \<Rightarrow> int \<Rightarrow> 'd \<Rightarrow> (string + int) \<times> 'd) option"
  jv_exception_clear :: "'d \<Rightarrow> 'd"
  jv_now :: "'d \<Rightarrow> instant \<times> 'd"
  jv_sleep :: "duration \<Rightarrow> 'd \<Rightarrow> 'd"

record 'd jni =
  jt_java :: 'd
  jt_rxbuf :: bytes

definition READ_SCRATCH :: nat where "READ_SCRATCH = 512"

definition jerr :: "string \<Rightarrow> string \<Rightarrow> transport_error" where
  "jerr e what = OpenFailed what e"

definition jni_new :: "'d \<Rightarrow> 'd jni" where
  "jni_new vm = \<lparr>jt_java = vm, jt_rxbuf = []\<rparr>"

section \<open>Calls into Java\<close>

text \<open>A call whose failure is returned under a name, and one that clears the exception it threw first.\<close>

definition jcall :: "string \<Rightarrow> ('d \<Rightarrow> string option \<times> 'd) \<Rightarrow> (unit, transport_error, 'd jni) op" where
  "jcall what m t =
     (case m (jt_java t) of
        (None, d) \<Rightarrow> (Ok (), t\<lparr>jt_java := d\<rparr>)
      | (Some e, d) \<Rightarrow> (Err (jerr e what), t\<lparr>jt_java := d\<rparr>))"

definition jcall_clear :: "'d java \<Rightarrow> string \<Rightarrow> ('d \<Rightarrow> string option \<times> 'd) \<Rightarrow> (unit, transport_error, 'd jni) op" where
  "jcall_clear D what m t =
     (case m (jt_java t) of
        (None, d) \<Rightarrow> (Ok (), t\<lparr>jt_java := d\<rparr>)
      | (Some e, d) \<Rightarrow> (Err (jerr e what), t\<lparr>jt_java := jv_exception_clear D d\<rparr>))"

definition jni_env :: "'d java \<Rightarrow> (unit, transport_error, 'd jni) op" where
  "jni_env D = jcall ''attach thread to JVM'' (jv_attach D)"

section \<open>The transport\<close>

definition jni_write_all :: "'d java \<Rightarrow> bytes \<Rightarrow> (unit, transport_error, 'd jni) op" where
  "jni_write_all D buf =
     sbind (jni_env D) (\<lambda>_.
     sbind (jcall ''write: alloc'' (jv_array_from D buf)) (\<lambda>_.
       jcall_clear D ''write'' (jv_write D buf 2000)))"

text \<open>The time for Java: whole milliseconds in 32 bits.\<close>

definition java_millis :: "duration \<Rightarrow> int" where
  "java_millis timeout = int (min (timeout div 1000000) (2 ^ 31 - 1))"

definition jni_fetch :: "'d java \<Rightarrow> nat \<Rightarrow> duration \<Rightarrow> (bytes, transport_error, 'd jni) op" where
  "jni_fetch D cap timeout t =
     (case jv_read D cap (java_millis timeout) (jt_java t) of
        (Inl e, d) \<Rightarrow> (Err (jerr e ''read''), t\<lparr>jt_java := jv_exception_clear D d\<rparr>)
      | (Inr (n, arr), d) \<Rightarrow>
          if n \<le> 0 then (Ok [], t\<lparr>jt_java := d\<rparr>)
          else (case jv_region D arr (nat n) d of
              (Inl e, d1) \<Rightarrow> (Err (jerr e ''read: copy''), t\<lparr>jt_java := d1\<rparr>)
            | (Inr got, d1) \<Rightarrow> (Ok got, t\<lparr>jt_java := d1\<rparr>)))"

definition jni_read :: "'d java \<Rightarrow> nat \<Rightarrow> duration \<Rightarrow> (bytes, transport_error, 'd jni) op" where
  "jni_read D len timeout t =
     (if jt_rxbuf t \<noteq> []
      then let n = min (length (jt_rxbuf t)) len in
        (Ok (take n (jt_rxbuf t)), t\<lparr>jt_rxbuf := drop n (jt_rxbuf t)\<rparr>)
      else sbind (jni_env D) (\<lambda>_.
           sbind (jcall ''read: alloc'' (jv_new_array D (max len READ_SCRATCH))) (\<lambda>_.
           sbind (jni_fetch D (max len READ_SCRATCH) timeout) (\<lambda>got t.
             let n = min (length got) len in
             (Ok (take n got), t\<lparr>jt_rxbuf := jt_rxbuf t @ drop n got\<rparr>)))) t)"

text \<open>A driver without \<open>purgeHwBuffers\<close> throws; that is only logged.\<close>

definition jni_purge_rx :: "'d java \<Rightarrow> (unit, transport_error, 'd jni) op" where
  "jni_purge_rx D t =
     sbind (jni_env D) (\<lambda>_ t. (Ok (), snd (jcall_clear D ''purge'' (jv_purge D) t))) (t\<lparr>jt_rxbuf := []\<rparr>)"

definition jni_set_modem :: "'d java \<Rightarrow> bool \<Rightarrow> bool \<Rightarrow> (unit, transport_error, 'd jni) op" where
  "jni_set_modem D dtr rts =
     sbind (jni_env D) (\<lambda>_.
     sbind (jcall_clear D ''setDTR'' (jv_set_dtr D dtr)) (\<lambda>_.
       jcall_clear D ''setRTS'' (jv_set_rts D rts)))"

definition jni_optimize_latency :: "(transport_error \<Rightarrow> string) \<Rightarrow> 'd java \<Rightarrow> 'd jni
    \<Rightarrow> latency_result \<times> 'd jni" where
  "jni_optimize_latency sh D t =
     (case jv_control_transfer D of
        None \<Rightarrow> (Unavailable, t)
      | Some control \<Rightarrow> (case jni_env D t of
          (Inl (Fail e), t1) \<Rightarrow> (LatencyFailed (sh e), t1)
        | (Inl Panic, t1) \<Rightarrow> (Unavailable, t1)
        | (Inr _, t1) \<Rightarrow> (case control 0x40 9 2 0 1000 (jt_java t1) of
            (Inr n, d) \<Rightarrow>
              (if n \<ge> 0 then LatencySet 2 else LatencyFailed (''controlTransfer returned '' @ show_int n), t1\<lparr>jt_java := d\<rparr>)
          | (Inl e, d) \<Rightarrow> (LatencyFailed e, t1\<lparr>jt_java := jv_exception_clear D d\<rparr>))))"

definition jni_transport :: "(transport_error \<Rightarrow> string) \<Rightarrow> 'd java \<Rightarrow> 'd jni transport" where
  "jni_transport sh D =
     \<lparr>t_write_all = jni_write_all D, t_read = jni_read D, t_purge_rx = jni_purge_rx D, t_set_modem = jni_set_modem D,
      t_optimize_latency = jni_optimize_latency sh D,
      t_sleep = (\<lambda>d t. t\<lparr>jt_java := jv_sleep D d (jt_java t)\<rparr>),
      t_now = (\<lambda>t. case jv_now D (jt_java t) of (now, d) \<Rightarrow> (now, t\<lparr>jt_java := d\<rparr>)),
      t_thread_sleep = (\<lambda>d t. t\<lparr>jt_java := jv_sleep D d (jt_java t)\<rparr>)\<rparr>"

section \<open>Pending exceptions\<close>

text \<open>\<open>thrown d\<close>: an exception is pending on the thread. A call that returns leaves none behind that
  was not there; clearing removes it. Attaching is not a Java call and throws nothing.\<close>

locale java_exceptions =
  fixes D :: "'d java" and thrown :: "'d \<Rightarrow> bool"
  assumes attach_throws_not: "\<not> thrown d \<Longrightarrow> \<not> thrown (snd (jv_attach D d))"
    and returns:
      "\<not> thrown d \<Longrightarrow> jv_array_from D b d = (None, d') \<Longrightarrow> \<not> thrown d'"
      "\<not> thrown d \<Longrightarrow> jv_write D b ms d = (None, d') \<Longrightarrow> \<not> thrown d'"
      "\<not> thrown d \<Longrightarrow> jv_new_array D n d = (None, d') \<Longrightarrow> \<not> thrown d'"
      "\<not> thrown d \<Longrightarrow> jv_read D n ms d = (Inr r, d') \<Longrightarrow> \<not> thrown d'"
      "\<not> thrown d \<Longrightarrow> jv_region D arr n d = (Inr b, d') \<Longrightarrow> \<not> thrown d'"
      "\<not> thrown d \<Longrightarrow> jv_purge D d = (None, d') \<Longrightarrow> \<not> thrown d'"
      "\<not> thrown d \<Longrightarrow> jv_set_dtr D v d = (None, d') \<Longrightarrow> \<not> thrown d'"
      "\<not> thrown d \<Longrightarrow> jv_set_rts D v d = (None, d') \<Longrightarrow> \<not> thrown d'"
      "\<not> thrown d \<Longrightarrow> jv_control_transfer D = Some c \<Longrightarrow> c i1 i2 i3 i4 i5 d = (Inr v5, d') \<Longrightarrow> \<not> thrown d'"
    and cleared: "\<not> thrown (jv_exception_clear D d)"
begin

text \<open>What an operation leaves the thread with.\<close>

definition tidy :: "('d jni \<Rightarrow> 'a \<times> 'd jni) \<Rightarrow> bool" where
  "tidy m \<longleftrightarrow> (\<forall>t. \<not> thrown (jt_java t) \<longrightarrow> \<not> thrown (jt_java (snd (m t))))"

lemma tidy_sbind: "tidy m \<Longrightarrow> (\<And>v. tidy (f v)) \<Longrightarrow> tidy (sbind m f)"
  by (fastforce simp: tidy_def sbind_def split: prod.split sum.split)

lemma tidy_env: "tidy (jni_env D)"
  using attach_throws_not by (fastforce simp: tidy_def jni_env_def jcall_def split: prod.split option.split)

lemma tidy_clear:
  assumes "\<And>d d'. \<not> thrown d \<Longrightarrow> m d = (None, d') \<Longrightarrow> \<not> thrown d'"
  shows "tidy (jcall_clear D what m)"
  using assms cleared by (auto simp: tidy_def jcall_clear_def split: prod.split option.split)

lemma tidy_total:
  assumes "\<And>d d'. \<not> thrown d \<Longrightarrow> m d = (None, d') \<Longrightarrow> \<not> thrown d'" and "\<And>d. fst (m d) = None"
  shows "tidy (jcall what m)"
  unfolding tidy_def
proof (intro allI impI)
  fix t :: "'d jni"
  assume "\<not> thrown (jt_java t)"
  moreover obtain d where "m (jt_java t) = (None, d)" using assms(2) [of "jt_java t"] by (cases "m (jt_java t)") simp
  ultimately show "\<not> thrown (jt_java (snd (jcall what m t)))"
    using assms(1) by (simp add: jcall_def)
qed

lemma tidy_fetch:
  assumes "\<And>arr n d. \<exists>b. fst (jv_region D arr n d) = Inr b"
  shows "tidy (jni_fetch D cap timeout)"
  unfolding tidy_def
proof (intro allI impI)
  fix t :: "'d jni"
  assume t: "\<not> thrown (jt_java t)"
  obtain r d where r: "jv_read D cap (java_millis timeout) (jt_java t) = (r, d)" by fastforce
  show "\<not> thrown (jt_java (snd (jni_fetch D cap timeout t)))"
  proof (cases r)
    case (Inl e)
    with r cleared show ?thesis by (simp add: jni_fetch_def)
  next
    case (Inr x)
    obtain n arr where x: "x = (n, arr)" by fastforce
    have d: "\<not> thrown d" using returns(4) [OF t] r Inr by blast
    obtain b d1 where b: "jv_region D arr (nat n) d = (Inr b, d1)"
      using assms [of arr "nat n" d] by (cases "jv_region D arr (nat n) d") auto
    with returns(5) [OF d this] d r Inr x show ?thesis by (simp add: jni_fetch_def)
  qed
qed

lemma tidy_write:
  assumes "\<And>d. fst (jv_array_from D b d) = None"
  shows "tidy (jni_write_all D b)"
  unfolding jni_write_all_def
proof (intro tidy_sbind tidy_env)
  show "tidy (jcall ''write: alloc'' (jv_array_from D b))" by (rule tidy_total [OF returns(1) assms])
  show "tidy (jcall_clear D ''write'' (jv_write D b 2000))" by (rule tidy_clear [OF returns(2)])
qed

lemma tidy_read:
  assumes "\<And>n d. fst (jv_new_array D n d) = None" and "\<And>arr n d. \<exists>b. fst (jv_region D arr n d) = Inr b"
  shows "tidy (jni_read D len timeout)"
proof -
  let ?keep = "\<lambda>got t. let n = min (length got) len in (Ok (take n got), t\<lparr>jt_rxbuf := jt_rxbuf t @ drop n got\<rparr>)"
  let ?rest = "sbind (jni_env D) (\<lambda>_. sbind (jcall ''read: alloc'' (jv_new_array D (max len READ_SCRATCH))) (\<lambda>_.
      sbind (jni_fetch D (max len READ_SCRATCH) timeout) ?keep))"
  have "tidy ?rest"
  proof (intro tidy_sbind tidy_env)
    show "tidy (jcall ''read: alloc'' (jv_new_array D (max len READ_SCRATCH)))"
      by (rule tidy_total [OF returns(3) assms(1)])
    show "tidy (jni_fetch D (max len READ_SCRATCH) timeout)" by (rule tidy_fetch [OF assms(2)])
    show "tidy (?keep got)" for got by (simp add: tidy_def Let_def)
  qed
  moreover have "jni_read D len timeout t = (if jt_rxbuf t \<noteq> []
      then (Ok (take (min (length (jt_rxbuf t)) len) (jt_rxbuf t)),
            t\<lparr>jt_rxbuf := drop (min (length (jt_rxbuf t)) len) (jt_rxbuf t)\<rparr>) else ?rest t)" for t
    by (simp only: jni_read_def Let_def)
  ultimately show ?thesis by (simp add: tidy_def)
qed

lemma tidy_purge: "tidy (jni_purge_rx D)"
proof -
  have "tidy (\<lambda>t. (Ok (), snd (jcall_clear D ''purge'' (jv_purge D) t)))"
    using tidy_clear [OF returns(6), where what = "''purge''"] by (simp add: tidy_def)
  with tidy_env have "tidy (sbind (jni_env D) (\<lambda>_ t. (Ok (), snd (jcall_clear D ''purge'' (jv_purge D) t))))"
    by (intro tidy_sbind)
  then show ?thesis by (simp add: jni_purge_rx_def tidy_def)
qed

lemma tidy_modem: "tidy (jni_set_modem D dtr rts)"
  unfolding jni_set_modem_def by (intro tidy_sbind tidy_env tidy_clear) (erule (1) returns)+

lemma tidy_latency: "tidy (jni_optimize_latency sh D)"
  unfolding tidy_def
proof (intro allI impI)
  fix t :: "'d jni"
  assume t: "\<not> thrown (jt_java t)"
  obtain r t1 where e: "jni_env D t = (r, t1)" by fastforce
  with tidy_env t have t1: "\<not> thrown (jt_java t1)" by (metis snd_conv tidy_def)
  show "\<not> thrown (jt_java (snd (jni_optimize_latency sh D t)))"
  proof (cases "jv_control_transfer D")
    case None
    with t show ?thesis by (simp add: jni_optimize_latency_def)
  next
    case (Some control)
    obtain x d where x: "control 0x40 9 2 0 1000 (jt_java t1) = (x, d)" by fastforce
    show ?thesis
    proof (cases r)
      case (Inl f)
      with Some e t1 show ?thesis by (cases f) (simp_all add: jni_optimize_latency_def)
    next
      case (Inr v)
      with Some e x cleared returns(9) [OF t1 Some] show ?thesis
        by (cases x) (auto simp: jni_optimize_latency_def)
    qed
  qed
qed

end

section \<open>The stream of a Java port\<close>

text \<open>A read that returns \<open>n\<close> has filled the first \<open>n\<close> bytes of the array from the port; the other
  calls of a read take nothing from it.\<close>

locale java_stream =
  fixes D :: "'d java" and unread :: "'d \<Rightarrow> bytes"
  assumes read_fills: "jv_read D n ms d = (Inr (k, arr), d') \<Longrightarrow> nat k \<le> length arr \<and> unread d = take (nat k) arr @ unread d'"
    and region_copies: "jv_region D arr n d = (Inr b, d') \<Longrightarrow> b = take n arr \<and> unread d' = unread d"
    and others_keep: "unread (snd (jv_attach D d)) = unread d" "unread (snd (jv_new_array D n d)) = unread d"
      "unread (snd (jv_now D d)) = unread d"
begin

definition jheld :: "'d jni \<Rightarrow> bytes" where
  "jheld t = jt_rxbuf t @ unread (jt_java t)"

lemma fetch_held:
  assumes "jni_fetch D cap timeout t = (Ok got, t')"
  shows "unread (jt_java t) = got @ unread (jt_java t')" "jt_rxbuf t' = jt_rxbuf t"
  using assms read_fills [of cap "java_millis timeout" "jt_java t"] region_copies
  by (auto simp: jni_fetch_def split: prod.splits sum.splits if_splits) fastforce+

lemma jcall_held:
  assumes "jcall what m t = (Ok v, t')" and "\<And>d. unread (snd (m d)) = unread d"
  shows "unread (jt_java t') = unread (jt_java t)" "jt_rxbuf t' = jt_rxbuf t"
  using assms(1) assms(2) [of "jt_java t"] by (auto simp: jcall_def split: prod.splits option.splits)

lemma jni_stream: "ordered_stream (jni_transport sh D) jheld"
proof
  fix len timeout t b t'
  assume "t_read (jni_transport sh D) len timeout t = (Ok b, t')"
  then have rd: "jni_read D len timeout t = (Ok b, t')" by (simp add: jni_transport_def)
  show "jheld t = b @ jheld t' \<and> length b \<le> len"
  proof (cases "jt_rxbuf t = []")
    case False
    with rd show ?thesis by (auto simp: jni_read_def Let_def jheld_def min_def)
  next
    case True
    from rd True obtain t1 t2 t3 got where s: "jni_env D t = (Ok (), t1)"
      "jcall ''read: alloc'' (jv_new_array D (max len READ_SCRATCH)) t1 = (Ok (), t2)"
      "jni_fetch D (max len READ_SCRATCH) timeout t2 = (Ok got, t3)"
      "b = take (min (length got) len) got" "t' = t3\<lparr>jt_rxbuf := jt_rxbuf t3 @ drop (min (length got) len) got\<rparr>"
      by (auto simp: jni_read_def sbind_eq_Ok Let_def)
    note keep = jcall_held [OF s(1) [unfolded jni_env_def] others_keep(1)] jcall_held [OF s(2) others_keep(2)] fetch_held [OF s(3)]
    have "jheld t = got @ unread (jt_java t3)" using keep True by (simp add: jheld_def)
    moreover have "jheld t' = drop (min (length got) len) got @ unread (jt_java t3)"
      using s(5) keep True by (simp add: jheld_def)
    ultimately show ?thesis using s(4) by simp
  qed
next
  show "jheld (snd (t_now (jni_transport sh D) t)) = jheld t" for t
    using others_keep(3) [of "jt_java t"] by (cases "jv_now D (jt_java t)") (simp add: jni_transport_def jheld_def)
qed

end

section \<open>A scripted port\<close>

text \<open>A port whose driver has no \<open>purgeHwBuffers\<close>, and whose writes throw once it is closed.\<close>

record mock_java =
  mj_unread :: bytes
  mj_open :: bool
  mj_thrown :: bool
  mj_now :: instant

definition throwing :: "'a \<Rightarrow> mock_java \<Rightarrow> 'a \<times> mock_java" where
  "throwing v d = (v, d\<lparr>mj_thrown := True\<rparr>)"

definition mock_java_port :: "mock_java java" where
  "mock_java_port =
     \<lparr>jv_attach = (\<lambda>d. (None, d)), jv_array_from = (\<lambda>b d. (None, d)),
      jv_write = (\<lambda>b ms d. if mj_open d then (None, d\<lparr>mj_now := mj_now d + 1\<rparr>) else throwing (Some ''closed'') d),
      jv_new_array = (\<lambda>n d. (None, d)),
      jv_read = (\<lambda>n ms d. let b = take n (mj_unread d) in
         (Inr (int (length b), b @ replicate (n - length b) 0), d\<lparr>mj_unread := drop n (mj_unread d)\<rparr>)),
      jv_region = (\<lambda>arr n d. (Inr (take n arr), d)), jv_purge = throwing (Some ''unsupported''),
      jv_set_dtr = (\<lambda>v d. (None, d)), jv_set_rts = (\<lambda>v d. (None, d)), jv_control_transfer = None,
      jv_exception_clear = (\<lambda>d. d\<lparr>mj_thrown := False\<rparr>), jv_now = (\<lambda>d. (mj_now d, d)),
      jv_sleep = (\<lambda>t d. d\<lparr>mj_now := mj_now d + t\<rparr>)\<rparr>"

interpretation mock_java_exceptions: java_exceptions mock_java_port mj_thrown
  by unfold_locales (auto simp: mock_java_port_def throwing_def Let_def split: if_splits)

interpretation mock_java_stream: java_stream mock_java_port mj_unread
  by unfold_locales (auto simp: mock_java_port_def throwing_def Let_def min_def split: if_splits)

lemma take_drop_take: "n \<le> m \<Longrightarrow> take n xs @ drop n (take m xs) @ drop m xs = xs"
  by (metis append.assoc append_take_drop_id min.absorb1 take_take)

text \<open>This port also never fails and never gives up early.\<close>

lemma min_length [simp]: "take (min (length xs) n) xs = take n xs" "drop (min (length xs) n) xs = drop n xs"
  by (simp_all add: min_def)

lemma mock_fetch:
  "0 < cap \<Longrightarrow> jni_fetch mock_java_port cap d t =
     (Ok (take cap (mj_unread (jt_java t))), t\<lparr>jt_java := (jt_java t)\<lparr>mj_unread := drop cap (mj_unread (jt_java t))\<rparr>\<rparr>)"
  by (auto simp: jni_fetch_def mock_java_port_def Let_def min_def)

lemma mock_port_read:
  "t_read (jni_transport sh mock_java_port) n d t =
     (if jt_rxbuf t \<noteq> [] then (Ok (take n (jt_rxbuf t)), t\<lparr>jt_rxbuf := drop n (jt_rxbuf t)\<rparr>)
      else let m = max n READ_SCRATCH; b = take m (mj_unread (jt_java t)) in
        (Ok (take n b), t\<lparr>jt_java := (jt_java t)\<lparr>mj_unread := drop m (mj_unread (jt_java t))\<rparr>, jt_rxbuf := drop n b\<rparr>))"
proof -
  have "jni_env mock_java_port t = (Ok (), t)" "jcall what (jv_new_array mock_java_port m) t = (Ok (), t)" for what m
    by (simp_all add: jni_env_def jcall_def mock_java_port_def)
  moreover have "0 < max n READ_SCRATCH" by (simp add: READ_SCRATCH_def)
  ultimately show ?thesis
    by (simp add: jni_transport_def jni_read_def sbind_def mock_fetch Let_def del: length_take)
qed

interpretation mock_port_bytes: byte_stream "jni_transport sh mock_java_port" "\<lambda>t. jt_rxbuf t @ mj_unread (jt_java t)" for sh
proof
  fix n :: nat and d :: duration and t :: "mock_java jni"
  assume n: "0 < n"
  show "\<exists>b t'. t_read (jni_transport sh mock_java_port) n d t = (Ok b, t') \<and>
      jt_rxbuf t @ mj_unread (jt_java t) = b @ jt_rxbuf t' @ mj_unread (jt_java t') \<and> length b \<le> n \<and>
      (b = [] \<longrightarrow> jt_rxbuf t @ mj_unread (jt_java t) = [])"
  proof (cases "jt_rxbuf t = []")
    case True
    define m where "m = max n READ_SCRATCH"
    have m: "n \<le> m" "max n READ_SCRATCH = m" by (simp_all add: m_def)
    show ?thesis
      using take_drop_take [OF m(1), of "mj_unread (jt_java t)"] True n m by (simp add: mock_port_read Let_def)
  next
    case False
    with n show ?thesis by (simp add: mock_port_read)
  qed
next
  fix t :: "mock_java jni"
  show "jt_rxbuf (snd (t_now (jni_transport sh mock_java_port) t)) @ mj_unread (jt_java (snd (t_now (jni_transport sh mock_java_port) t)))
      = jt_rxbuf t @ mj_unread (jt_java t)"
    by (simp add: jni_transport_def mock_java_port_def)
qed

section \<open>Properties\<close>

text \<open>C25: Whatever the Java side does, no operation of the transport leaves an exception pending on the
  session's thread, as long as Java can allocate the arrays and copy out of them: every call that
  may throw is cleared when it has thrown, on every path. A pending exception would make the next
  unrelated call fail, or crash the process when the thread returns.\<close>
theorem jni_leaves_no_exception:
  assumes "java_exceptions D thrown" and "\<not> thrown (jt_java t)"
    and "\<And>b d. fst (jv_array_from D b d) = None" and "\<And>n d. fst (jv_new_array D n d) = None"
    and "\<And>arr n d. \<exists>b. fst (jv_region D arr n d) = Inr b"
  shows "\<not> thrown (jt_java (snd (jni_write_all D buf t))) \<and> \<not> thrown (jt_java (snd (jni_read D len timeout t)))
    \<and> \<not> thrown (jt_java (snd (jni_purge_rx D t))) \<and> \<not> thrown (jt_java (snd (jni_set_modem D dtr rts t)))
    \<and> \<not> thrown (jt_java (snd (jni_optimize_latency sh D t)))"
proof -
  note tidy = java_exceptions.tidy_write [OF assms(1,3)] java_exceptions.tidy_read [OF assms(1,4,5)]
    java_exceptions.tidy_purge [OF assms(1)] java_exceptions.tidy_modem [OF assms(1)] java_exceptions.tidy_latency [OF assms(1)]
  show ?thesis
    using tidy assms(2) by (simp add: java_exceptions.tidy_def [OF assms(1)])
qed

definition mock_port :: "mock_java jni" where
  "mock_port = jni_new \<lparr>mj_unread = [0x00, 0x04, 0x02, 0x01, 0x07, 0x05], mj_open = False, mj_thrown = False, mj_now = 0\<rparr>"

lemma jni_leaves_no_exception_witness:
  "\<not> mj_thrown (jt_java (snd (jni_write_all mock_java_port [1] mock_port)))
    \<and> \<not> mj_thrown (jt_java (snd (jni_purge_rx mock_java_port mock_port)))"
proof -
  have "\<not> mj_thrown (jt_java mock_port)" "\<And>b d. fst (jv_array_from mock_java_port b d) = None"
    "\<And>n d. fst (jv_new_array mock_java_port n d) = None"
    "\<And>arr n d. \<exists>b. fst (jv_region mock_java_port arr n d) = Inr b"
    by (simp_all add: mock_port_def jni_new_def mock_java_port_def)
  from jni_leaves_no_exception [OF mock_java_exceptions.java_exceptions_axioms this] show ?thesis by blast
qed

text \<open>Where an allocation itself throws, for want of memory, the exception is left pending.\<close>

theorem jni_alloc_leaves_exception:
  assumes "jv_attach D (jt_java t) = (None, d)" and "jv_array_from D buf d = (Some e, d')" and "thrown d'"
  shows "fst (jni_write_all D buf t) = Err (jerr e ''write: alloc'')" "thrown (jt_java (snd (jni_write_all D buf t)))"
  using assms by (simp_all add: jni_write_all_def jni_env_def jcall_def sbind_def)

text \<open>A time below one millisecond, as at the end of a deadline, is passed to Java as zero.\<close>

theorem java_millis_zero: "java_millis timeout = 0 \<longleftrightarrow> timeout < from_millis 1"
  by (auto simp: java_millis_def min_def div_eq_0_iff)

text \<open>The session reads over Java what the adapter sent, in order: surplus bytes of a read, which
  Java hands over in packets, are served first by the next one; a frame that the frame reader
  returns is well framed and the very front of the stream.\<close>
theorem jni_frames_in_order:
  assumes "java_stream D unread" and "read_frame (jni_transport sh D) timeout t = (Ok f, t')"
  shows "well_framed f \<and> jt_rxbuf t @ unread (jt_java t) = f @ jt_rxbuf t' @ unread (jt_java t')"
  using ordered_stream.read_frame_in_order [OF java_stream.jni_stream [OF assms(1)] assms(2)]
  by (simp add: java_stream.jheld_def [OF assms(1)])

text \<open>The driver returns a whole packet: one frame and the first byte of the next.\<close>

definition packet_port :: "bytes \<Rightarrow> bytes \<Rightarrow> mock_java jni" where
  "packet_port surplus unread =
     \<lparr>jt_java = \<lparr>mj_unread = unread, mj_open = True, mj_thrown = False, mj_now = 0\<rparr>, jt_rxbuf = surplus\<rparr>"

lemma jni_frames_in_order_witness:
  "\<exists>t' :: mock_java jni. jt_rxbuf t' @ mj_unread (jt_java t') = [77] \<and>
    jt_rxbuf (packet_port [4] [0, 9, 13, 77]) @ [0, 9, 13, 77] = [4, 0, 9, 13] @ jt_rxbuf t' @ mj_unread (jt_java t')"
proof -
  have "well_framed [4, 0, 9, 13]" by (simp add: well_framed_def len_field_def MAX_FRAME_def MAX_INNER_def)
  then obtain t' where rd: "read_frame (jni_transport (\<lambda>e. []) mock_java_port) 5 (packet_port [4] [0, 9, 13, 77]) = (Ok [4, 0, 9, 13], t')"
    "jt_rxbuf t' @ mj_unread (jt_java t') = [77]"
    using mock_port_bytes.read_frame_whole [of "packet_port [4] [0, 9, 13, 77]" "[4, 0, 9, 13]" "[77]" "\<lambda>e. []" 5]
    by (auto simp: packet_port_def)
  note front = jni_frames_in_order [OF mock_java_stream.java_stream_axioms rd(1)]
  show ?thesis
    by (intro exI [of _ t']) (use front rd(2) in \<open>simp add: packet_port_def\<close>)
qed

end
