(* ===== verification/Net.thy ===== *)
theory Net
  imports Byte_Transport
begin

text \<open>
  The bridge of \<open>rmvci-net\<close>: \<open>wire.rs\<close> (frames of the connection), \<open>server.rs\<close> (the phone that owns
  the cable) and \<open>client.rs\<close> (a \<open>Transport\<close> that forwards every primitive). A TCP stream is the
  bytes it carries in order, the end of the list being its end. \<open>remote_transport\<close> composes a client
  with a served connection: its state \<open>'s bridge\<close> is the served transport's and whether the
  connection still stands. Texts are their bytes; the standard library's \<open>from_utf8_lossy\<close> and the
  \<open>Display\<close> of errors are the parameters \<open>ne_lossy\<close> and \<open>ne_show\<close>.
\<close>

section \<open>Frames\<close>

definition MAGIC :: bytes where "MAGIC = [0x52, 0x4d, 0x56, 0x4e]"
definition VERSION :: u8 where "VERSION = 1"
definition NET_MAX_FRAME :: nat where "NET_MAX_FRAME = 1048576"
definition MAX_READ :: nat where "MAX_READ = 65536"

record net_env =
  ne_show :: "transport_error \<Rightarrow> string"
  ne_lossy :: "bytes \<Rightarrow> string"

definition text_bytes :: "string \<Rightarrow> bytes" where "text_bytes s = map of_char s"

text \<open>The bytes \<open>write_frame\<close> puts on the stream.\<close>

definition net_write_frame :: "bytes \<Rightarrow> (bytes, transport_error) res" where
  "net_write_frame body =
     (if length body < 2 ^ 32 then Ok (u32_le (of_nat (length body)) @ body)
      else Err (Io InvalidInput ''frame body too large''))"

text \<open>\<open>read_frame\<close> on what a stream holds: the body and what is left.\<close>

definition net_read_frame :: "bytes \<Rightarrow> (bytes \<times> bytes, transport_error) res" where
  "net_read_frame b =
     (if length b < 4 then Err (Io UnexpectedEof ''failed to fill whole buffer'')
      else let len = unat (u32_from_le (take 4 b)); rest = drop 4 b in
        if len > NET_MAX_FRAME then Err (Io InvalidData ''frame length exceeds MAX_FRAME'')
        else if length rest < len then Err (Io UnexpectedEof ''failed to fill whole buffer'')
        else Ok (take len rest, drop len rest))"

definition err_resp :: "string \<Rightarrow> bytes" where
  "err_resp msg = 0x01 # text_bytes msg"

fun encode_latency :: "latency_result \<Rightarrow> bytes" where
  "encode_latency (LatencySet millis) = [0x00, millis]"
| "encode_latency (AlreadyLow millis) = [0x01, millis]"
| "encode_latency (LatencyFailed reason) = 0x02 # text_bytes reason"
| "encode_latency Unavailable = [0x03]"

definition decode_latency :: "net_env \<Rightarrow> bytes \<Rightarrow> latency_result" where
  "decode_latency N b =
     (case b of
        [] \<Rightarrow> Unavailable
      | tag # rest \<Rightarrow>
          if tag = 0x00 then LatencySet (case rest of [] \<Rightarrow> 0 | m # _ \<Rightarrow> m)
          else if tag = 0x01 then AlreadyLow (case rest of [] \<Rightarrow> 0 | m # _ \<Rightarrow> m)
          else if tag = 0x02 then LatencyFailed (ne_lossy N rest)
          else Unavailable)"

text \<open>\<open>u64::to_le_bytes\<close> and back.\<close>

definition u64_le :: "64 word \<Rightarrow> bytes" where
  "u64_le v = map (\<lambda>i. ucast (drop_bit (8 * i) v)) [0 ..< 8]"

definition u64_from_le :: "bytes \<Rightarrow> 64 word" where
  "u64_from_le b = foldr (\<lambda>x v. ucast x OR push_bit 8 v) (take 8 b) 0"

section \<open>The server\<close>

text \<open>A primitive of the cable: its errors become a response, a panic unwinds.\<close>

definition respond :: "net_env \<Rightarrow> ('a \<Rightarrow> bytes) \<Rightarrow> ('a, transport_error, 's) op \<Rightarrow> (bytes, transport_error, 's) op" where
  "respond N ok m s =
     (case m s of
        (Inr v, s1) \<Rightarrow> (Ok (0x00 # ok v), s1)
      | (Inl (Fail e), s1) \<Rightarrow> (Ok (err_resp (ne_show N e)), s1)
      | (Inl Panic, s1) \<Rightarrow> (panic, s1))"

text \<open>A byte as \<open>{:#04x}\<close> prints it.\<close>

definition hex_digit :: "u8 \<Rightarrow> char" where
  "hex_digit d = (if unat d < 10 then char_of (48 + unat d) else char_of (87 + unat d))"

definition hex_u8 :: "u8 \<Rightarrow> string" where
  "hex_u8 b = ''0x'' @ [hex_digit (drop_bit 4 b), hex_digit (b AND 0x0f)]"

definition dispatch_read :: "net_env \<Rightarrow> 's transport \<Rightarrow> bytes \<Rightarrow> (bytes, transport_error, 's) op" where
  "dispatch_read N T body =
     (if length body < 12 then sreturn (err_resp ''short READ request'')
      else let cap = min (unat (u32_from_le (take 4 body))) MAX_READ;
               micros = unat (u64_from_le (take 8 (drop 4 body))) in
        respond N (take cap) (t_read T cap (micros * 1000)))"

definition dispatch :: "net_env \<Rightarrow> 's transport \<Rightarrow> bytes \<Rightarrow> (bytes, transport_error, 's) op" where
  "dispatch N T req =
     (case req of
        [] \<Rightarrow> sreturn (err_resp ''empty request'')
      | tag # body \<Rightarrow>
          if tag = 0x01 then respond N (\<lambda>_. []) (t_write_all T body)
          else if tag = 0x02 then dispatch_read N T body
          else if tag = 0x03 then respond N (\<lambda>_. []) (t_purge_rx T)
          else if tag = 0x04
          then (case body of
              [] \<Rightarrow> sreturn (err_resp ''short SET_MODEM request'')
            | flags # _ \<Rightarrow> respond N (\<lambda>_. []) (t_set_modem T (flags AND 1 \<noteq> 0) (flags AND 2 \<noteq> 0)))
          else if tag = 0x05
          then (\<lambda>s. case t_optimize_latency T s of (l, s1) \<Rightarrow> (Ok (0x00 # encode_latency l), s1))
          else sreturn (err_resp (''unknown request tag '' @ hex_u8 tag)))"

lemma net_read_frame_shorter: "net_read_frame b = Ok (body, rest) \<Longrightarrow> length rest < length b"
  by (auto simp: net_read_frame_def Let_def split: if_splits)

text \<open>The loop of a connection on what the client sends: the bytes sent back, how it ended, the cable.\<close>

type_synonym 's served = "bytes \<times> (unit, transport_error) res \<times> 's"

function serve_loop :: "net_env \<Rightarrow> 's transport \<Rightarrow> bytes \<Rightarrow> bytes \<Rightarrow> 's \<Rightarrow> 's served" where
  "serve_loop N T input out s =
     (case net_read_frame input of
        Inl (Fail (Io UnexpectedEof _)) \<Rightarrow> (out, Ok (), s)
      | Inl e \<Rightarrow> (out, Inl e, s)
      | Inr (req, rest) \<Rightarrow>
          (case dispatch N T req s of
             (Inl e, s1) \<Rightarrow> (out, Inl e, s1)
           | (Inr resp, s1) \<Rightarrow> (case net_write_frame resp of
               Inl e \<Rightarrow> (out, Inl e, s1)
             | Inr b \<Rightarrow> serve_loop N T rest (out @ b) s1)))"
  by pat_completeness auto

termination
  by (relation "measure (\<lambda>(N, T, input, out, s). length input)") (auto dest: net_read_frame_shorter)

declare serve_loop.simps [simp del]

definition serve_connection :: "net_env \<Rightarrow> 's transport \<Rightarrow> bytes \<Rightarrow> 's \<Rightarrow> 's served" where
  "serve_connection N T input s =
     (if length input < 5 then ([], Err (Io UnexpectedEof ''failed to fill whole buffer''), s)
      else if take 4 input \<noteq> MAGIC then ([0x01], Err (Io InvalidData ''bad magic in hello''), s)
      else if input ! 4 \<noteq> VERSION then ([0x01], Err (Io InvalidData ''protocol version''), s)
      else serve_loop N T (drop 5 input) [0x00] s)"

section \<open>The client\<close>

definition net_err :: "string \<Rightarrow> transport_error" where
  "net_err reason = OpenFailed ''rmvci-bridge'' reason"

definition hello :: bytes where
  "hello = MAGIC @ [VERSION]"

text \<open>What the client makes of the server's answer to the hello.\<close>

definition handshake :: "bytes \<Rightarrow> (unit, transport_error) res" where
  "handshake answer =
     (case answer of
        [] \<Rightarrow> Err (Io UnexpectedEof ''failed to fill whole buffer'')
      | ack # _ \<Rightarrow> if ack = 0x00 then Ok ()
          else Err (net_err ''bridge rejected the handshake (protocol version mismatch?)''))"

definition ok_payload :: "net_env \<Rightarrow> bytes \<Rightarrow> (bytes, transport_error) res" where
  "ok_payload N resp =
     (case resp of
        [] \<Rightarrow> Err (net_err ''malformed response frame'')
      | st # rest \<Rightarrow> if st = 0x00 then Ok rest
          else if st = 0x01 then Err (net_err (ne_lossy N rest))
          else Err (net_err ''malformed response frame''))"

record 's bridge =
  br_cable :: 's
  br_up :: bool

text \<open>One round trip: the request's frame goes through the server's loop, what it sends comes back. A
  server that ends the connection leaves the client at the end of its stream. After a response
  beyond the frame limit, which only an error text of a MiB could be, the model ends the connection
  where the client would read on inside it. The socket's own errors and its time limit, which
  outlasts a read's time by ten seconds, are not in the model: the network delivers.\<close>

definition net_transact :: "net_env \<Rightarrow> 's transport \<Rightarrow> bytes \<Rightarrow> (bytes, transport_error, 's bridge) op" where
  "net_transact N T body c =
     (case net_write_frame body of
        Inl e \<Rightarrow> (Inl e, c)
      | Inr b \<Rightarrow>
          if \<not> br_up c then (Err (Io OtherIo ''broken pipe''), c)
          else (case serve_loop N T b [] (br_cable c) of
              (out, r, s) \<Rightarrow> (case net_read_frame out of
                Inl e \<Rightarrow> (Inl e, \<lparr>br_cable = s, br_up = False\<rparr>)
              | Inr (resp, _) \<Rightarrow> (Ok resp, \<lparr>br_cable = s, br_up = (r = Ok ())\<rparr>))))"

definition net_call :: "net_env \<Rightarrow> 's transport \<Rightarrow> bytes \<Rightarrow> (bytes, transport_error, 's bridge) op" where
  "net_call N T body = sbind (net_transact N T body) (\<lambda>resp. slift (ok_payload N resp))"

definition tcp_write_all :: "net_env \<Rightarrow> 's transport \<Rightarrow> bytes \<Rightarrow> (unit, transport_error, 's bridge) op" where
  "tcp_write_all N T buf = sbind (net_call N T (0x01 # buf)) (\<lambda>_. sreturn ())"

text \<open>A read of a buffer of \<open>n\<close> bytes: its length is cut to 32 bits, the time to microseconds.\<close>

definition tcp_read :: "net_env \<Rightarrow> 's transport \<Rightarrow> nat \<Rightarrow> duration \<Rightarrow> (bytes, transport_error, 's bridge) op" where
  "tcp_read N T n timeout =
     sbind (net_call N T (0x02 # u32_le (of_nat n) @ u64_le (of_nat (min (timeout div 1000) (2 ^ 64 - 1)))))
       (\<lambda>payload. sreturn (take n payload))"

definition tcp_purge_rx :: "net_env \<Rightarrow> 's transport \<Rightarrow> (unit, transport_error, 's bridge) op" where
  "tcp_purge_rx N T = sbind (net_call N T [0x03]) (\<lambda>_. sreturn ())"

definition tcp_set_modem :: "net_env \<Rightarrow> 's transport \<Rightarrow> bool \<Rightarrow> bool \<Rightarrow> (unit, transport_error, 's bridge) op" where
  "tcp_set_modem N T dtr rts =
     sbind (net_call N T [0x04, of_bool dtr OR push_bit 1 (of_bool rts)]) (\<lambda>_. sreturn ())"

definition tcp_optimize_latency :: "net_env \<Rightarrow> 's transport \<Rightarrow> 's bridge \<Rightarrow> latency_result \<times> 's bridge" where
  "tcp_optimize_latency N T c =
     (case net_call N T [0x05] c of
        (Inr payload, c1) \<Rightarrow> (decode_latency N payload, c1)
      | (Inl (Fail e), c1) \<Rightarrow> (LatencyFailed (ne_show N e), c1)
      | (Inl Panic, c1) \<Rightarrow> (Unavailable, c1))"

definition remote_transport :: "net_env \<Rightarrow> 's transport \<Rightarrow> 's bridge transport" where
  "remote_transport N T =
     \<lparr>t_write_all = tcp_write_all N T, t_read = tcp_read N T, t_purge_rx = tcp_purge_rx N T,
      t_set_modem = tcp_set_modem N T, t_optimize_latency = tcp_optimize_latency N T,
      t_sleep = (\<lambda>d c. c\<lparr>br_cable := t_sleep T d (br_cable c)\<rparr>),
      t_now = (\<lambda>c. case t_now T (br_cable c) of (now, s) \<Rightarrow> (now, c\<lparr>br_cable := s\<rparr>)),
      t_thread_sleep = (\<lambda>d c. c\<lparr>br_cable := t_thread_sleep T d (br_cable c)\<rparr>)\<rparr>"


section \<open>Round trips\<close>

lemma length_u64_le [simp]: "length (u64_le v) = 8"
  by (simp add: u64_le_def)

lemma low_byte_or: "ucast (ucast w :: u8) OR push_bit 8 (drop_bit 8 w) = (w :: 64 word)"
proof (rule bit_word_eqI)
  fix n assume "n < LENGTH(64)"
  then show "bit (ucast (ucast w :: u8) OR push_bit 8 (drop_bit 8 w)) n = bit w n"
    by (cases "n < 8") (simp_all add: bit_simps)
qed

lemma u64_fold:
  assumes "k \<le> 8"
  shows "foldr (\<lambda>x v. ucast x OR push_bit 8 v) (map (\<lambda>i. ucast (drop_bit (8 * i) v) :: u8) [k ..< 8]) 0
    = drop_bit (8 * k) (v :: 64 word)"
  using assms
proof (induction k rule: inc_induct)
  case base
  show ?case by (rule bit_word_eqI) (simp add: bit_simps)
next
  case (step k)
  have "[k ..< 8] = k # [Suc k ..< 8]" using step.hyps by (simp add: upt_conv_Cons)
  moreover have "drop_bit (8 * Suc k) v = drop_bit 8 (drop_bit (8 * k) v)"
    by (simp add: drop_bit_drop_bit ac_simps)
  ultimately show ?case using step.IH low_byte_or [of "drop_bit (8 * k) v"] by simp
qed

lemma u64_from_le_le [simp]: "u64_from_le (u64_le v) = v"
  using u64_fold [of 0 v] by (simp add: u64_from_le_def u64_le_def del: upt_rec_numeral)

lemma net_read_write_frame:
  assumes "length body \<le> NET_MAX_FRAME"
  shows "\<exists>b. net_write_frame body = Ok b \<and> net_read_frame (b @ rest) = Ok (body, rest)"
proof -
  have "length body < 2 ^ 32" using assms by (simp add: NET_MAX_FRAME_def)
  then have "unat (of_nat (length body) :: u32) = length body" by (simp add: unat_of_nat)
  with assms \<open>length body < 2 ^ 32\<close> show ?thesis
    by (simp add: net_write_frame_def net_read_frame_def Let_def)
qed

lemma net_read_frame_empty: "net_read_frame [] = Err (Io UnexpectedEof ''failed to fill whole buffer'')"
  by (simp add: net_read_frame_def)

text \<open>A request and its response cross the bridge whole.\<close>

lemma net_transact_up:
  assumes "br_up c" and "length body \<le> NET_MAX_FRAME" and "dispatch N T body (br_cable c) = (r, s)"
    and "\<And>resp. r = Ok resp \<Longrightarrow> length resp \<le> NET_MAX_FRAME"
  shows "net_transact N T body c =
    (case r of Inr resp \<Rightarrow> (Ok resp, \<lparr>br_cable = s, br_up = True\<rparr>)
     | Inl _ \<Rightarrow> (Err (Io UnexpectedEof ''failed to fill whole buffer''), \<lparr>br_cable = s, br_up = False\<rparr>))"
proof -
  obtain b where b: "net_write_frame body = Ok b" "net_read_frame (b @ []) = Ok (body, [])"
    using net_read_write_frame [OF assms(2), of "[]"] by blast
  show ?thesis
  proof (cases r)
    case (Inl e)
    with b assms(1,3) show ?thesis
      by (cases e) (simp_all add: net_transact_def serve_loop.simps [of N T b] net_read_frame_empty)
  next
    case (Inr resp)
    obtain b' where b': "net_write_frame resp = Ok b'" "net_read_frame (b' @ []) = Ok (resp, [])"
      using net_read_write_frame [OF assms(4) [OF Inr], of "[]"] by blast
    have "serve_loop N T b [] (br_cable c) = (b', Ok (), s)"
      using b assms(3) Inr b'(1)
      by (simp add: serve_loop.simps [of N T b] serve_loop.simps [of N T "[]"] net_read_frame_empty)
    with b b' assms(1) Inr show ?thesis by (simp add: net_transact_def)
  qed
qed

text \<open>The result of a primitive as the client sees it.\<close>

fun remote_result :: "net_env \<Rightarrow> ('a \<Rightarrow> 'b) \<Rightarrow> ('a, transport_error) res \<Rightarrow> ('b, transport_error) res" where
  "remote_result N g (Inr v) = Ok (g v)"
| "remote_result N g (Inl (Fail e)) = Err (net_err (ne_lossy N (text_bytes (ne_show N e))))"
| "remote_result N g (Inl Panic) = Err (Io UnexpectedEof ''failed to fill whole buffer'')"

definition remote_of :: "net_env \<Rightarrow> ('a \<Rightarrow> 'b) \<Rightarrow> ('a, transport_error, 's) op \<Rightarrow> ('b, transport_error, 's bridge) op" where
  "remote_of N g m c =
     (case m (br_cable c) of (r, s) \<Rightarrow> (remote_result N g r, \<lparr>br_cable = s, br_up = (r \<noteq> panic)\<rparr>))"

definition short_texts :: "net_env \<Rightarrow> bool" where
  "short_texts N \<longleftrightarrow> (\<forall>e. length (ne_show N e) < NET_MAX_FRAME)"

lemma net_call_respond:
  assumes "br_up c" and "length body \<le> NET_MAX_FRAME" and "short_texts N"
    and "dispatch N T body = respond N ok m" and "\<And>v. length (ok v) < NET_MAX_FRAME"
  shows "net_call N T body c = remote_of N ok m c"
proof -
  obtain r s where m: "m (br_cable c) = (r, s)" by fastforce
  have err: "length (err_resp (ne_show N e)) \<le> NET_MAX_FRAME" for e
    using assms(3) by (simp add: short_texts_def err_resp_def text_bytes_def Suc_le_eq)
  have ok: "length (0x00 # ok v) \<le> NET_MAX_FRAME" for v
    using assms(5) [of v] by simp
  have d: "dispatch N T body (br_cable c)
      = (case r of Inr v \<Rightarrow> (Ok (0x00 # ok v), s) | Inl (Fail e) \<Rightarrow> (Ok (err_resp (ne_show N e)), s) | Inl Panic \<Rightarrow> (panic, s))"
    by (simp add: assms(4) respond_def m)
  consider v where "r = Ok v" | e where "r = Err e" | "r = panic"
    by (metis fault.exhaust sum.exhaust)
  then show ?thesis
  proof cases
    case (1 v)
    with net_transact_up [OF assms(1,2), of N T "Ok (0x00 # ok v)" s] d ok show ?thesis
      by (simp add: net_call_def remote_of_def m sbind_def ok_payload_def)
  next
    case (2 e)
    with net_transact_up [OF assms(1,2), of N T "Ok (err_resp (ne_show N e))" s] d err show ?thesis
      by (simp add: net_call_def remote_of_def m sbind_def ok_payload_def err_resp_def)
  next
    case 3
    with net_transact_up [OF assms(1,2), of N T panic s] d show ?thesis
      by (simp add: net_call_def remote_of_def m sbind_def)
  qed
qed


lemma remote_of_map:
  assumes "m' c = remote_of N g m c"
  shows "sbind m' (\<lambda>v. sreturn (h v)) c = remote_of N (\<lambda>v. h (g v)) m c"
proof -
  obtain r s where m: "m (br_cable c) = (r, s)" by fastforce
  then show ?thesis
    using assms by (cases "(N, g, r)" rule: remote_result.cases) (auto simp: remote_of_def sbind_def)
qed

lemma unit_call:
  assumes "br_up c" and "short_texts N" and "length body \<le> NET_MAX_FRAME"
    and "dispatch N T body = respond N (\<lambda>_. []) m"
  shows "sbind (net_call N T body) (\<lambda>_. sreturn ()) c = remote_of N (\<lambda>_. ()) m c"
proof -
  have "net_call N T body c = remote_of N (\<lambda>_. []) m c"
    by (rule net_call_respond [OF assms(1,3,2,4)]) (simp add: NET_MAX_FRAME_def)
  then show ?thesis by (rule remote_of_map [where h = "\<lambda>_. ()" and g = "\<lambda>_. []"])
qed

text \<open>A latency result survives the connection, whatever its text.\<close>
theorem latency_round_trip:
  assumes "\<And>r. l = LatencyFailed r \<Longrightarrow> ne_lossy N (text_bytes r) = r"
  shows "decode_latency N (encode_latency l) = l"
  using assms by (cases l) (simp_all add: decode_latency_def)

definition plain_net :: net_env where
  "plain_net = \<lparr>ne_show = (\<lambda>e. ''failed''), ne_lossy = map (\<lambda>b. char_of (unat b))\<rparr>"

lemma plain_net_text: "ne_lossy plain_net (text_bytes r) = r"
proof (induction r)
  case (Cons x r)
  have "unat (of_char x :: u8) = of_char x" by (cases x) simp
  with Cons show ?case by (simp add: plain_net_def text_bytes_def)
qed (simp add: plain_net_def text_bytes_def)

lemma latency_round_trip_witness:
  "decode_latency plain_net (encode_latency (LatencyFailed ''odd device path'')) = LatencyFailed ''odd device path''"
  by (rule latency_round_trip) (rule plain_net_text)

lemma remote_calls:
  assumes "br_up c" and "short_texts N"
  shows "(length buf < NET_MAX_FRAME \<longrightarrow> tcp_write_all N T buf c = remote_of N (\<lambda>_. ()) (t_write_all T buf) c)
    \<and> (n \<le> MAX_READ \<longrightarrow> u < 2 ^ 64 \<longrightarrow> tcp_read N T n (u * 1000) c = remote_of N (take n) (t_read T n (u * 1000)) c)
    \<and> tcp_purge_rx N T c = remote_of N (\<lambda>_. ()) (t_purge_rx T) c
    \<and> tcp_set_modem N T dtr rts c = remote_of N (\<lambda>_. ()) (t_set_modem T dtr rts) c
    \<and> (\<forall>l s. t_optimize_latency T (br_cable c) = (l, s) \<longrightarrow> length (encode_latency l) < NET_MAX_FRAME
         \<longrightarrow> tcp_optimize_latency N T c = (decode_latency N (encode_latency l), \<lparr>br_cable = s, br_up = True\<rparr>))"
proof (intro conjI impI allI)
  note call = unit_call [OF assms]
  have big: "2 \<le> NET_MAX_FRAME" "MAX_READ < NET_MAX_FRAME" "13 \<le> NET_MAX_FRAME" "0 < NET_MAX_FRAME"
    by (simp_all add: NET_MAX_FRAME_def MAX_READ_def)
  show "tcp_write_all N T buf c = remote_of N (\<lambda>_. ()) (t_write_all T buf) c" if "length buf < NET_MAX_FRAME"
    unfolding tcp_write_all_def by (rule call) (use that big in \<open>simp_all add: dispatch_def\<close>)
  show "tcp_purge_rx N T c = remote_of N (\<lambda>_. ()) (t_purge_rx T) c"
    unfolding tcp_purge_rx_def by (rule call) (use big in \<open>simp_all add: dispatch_def\<close>)
  show "tcp_set_modem N T dtr rts c = remote_of N (\<lambda>_. ()) (t_set_modem T dtr rts) c"
    unfolding tcp_set_modem_def
  proof (rule call)
    show "dispatch N T [0x04, of_bool dtr OR push_bit 1 (of_bool rts)] = respond N (\<lambda>_. []) (t_set_modem T dtr rts)"
      by (cases dtr; cases rts) (simp_all add: dispatch_def)
  qed (use big in simp)
  show "tcp_read N T n (u * 1000) c = remote_of N (take n) (t_read T n (u * 1000)) c" if "n \<le> MAX_READ" "u < 2 ^ 64"
  proof -
    have u: "min u 18446744073709551615 = u" "unat (of_nat u :: 64 word) = u"
      using that(2) by (simp_all add: unat_of_nat)
    have n: "unat (of_nat n :: u32) = n" "min n MAX_READ = n"
      using that(1) by (simp_all add: MAX_READ_def unat_of_nat)
    have "dispatch N T (0x02 # u32_le (of_nat n) @ u64_le (of_nat u)) = respond N (take n) (t_read T n (u * 1000))"
      by (simp add: dispatch_def dispatch_read_def Let_def u(2) n)
    from net_call_respond [OF assms(1) _ assms(2) this] big that(1)
    have "net_call N T (0x02 # u32_le (of_nat n) @ u64_le (of_nat u)) c = remote_of N (take n) (t_read T n (u * 1000)) c"
      by simp
    from remote_of_map [where h = "take n" and m' = "net_call N T (0x02 # u32_le (of_nat n) @ u64_le (of_nat u))", OF this]
    show ?thesis by (simp add: tcp_read_def u(1))
  qed
  show "tcp_optimize_latency N T c = (decode_latency N (encode_latency l), \<lparr>br_cable = s, br_up = True\<rparr>)"
    if "t_optimize_latency T (br_cable c) = (l, s)" "length (encode_latency l) < NET_MAX_FRAME" for l s
    using net_transact_up [OF assms(1), of "[0x05]" N T "Ok (0x00 # encode_latency l)" s] that big
    by (simp add: tcp_optimize_latency_def net_call_def dispatch_def sbind_def ok_payload_def)
qed

text \<open>Behind a standing connection every primitive is the cable's own: the same call with the
  same arguments on the bridge's transport and its result returned, an error as its text; so for
  writes below the frame limit and reads of at most 64 KiB with a time in whole microseconds.\<close>
theorem remote_as_cable:
  assumes "br_up c" and "short_texts N"
  shows "(length buf < NET_MAX_FRAME \<longrightarrow> tcp_write_all N T buf c = remote_of N (\<lambda>_. ()) (t_write_all T buf) c)
    \<and> (n \<le> MAX_READ \<longrightarrow> u < 2 ^ 64 \<longrightarrow> tcp_read N T n (u * 1000) c = remote_of N (take n) (t_read T n (u * 1000)) c)
    \<and> tcp_purge_rx N T c = remote_of N (\<lambda>_. ()) (t_purge_rx T) c
    \<and> tcp_set_modem N T dtr rts c = remote_of N (\<lambda>_. ()) (t_set_modem T dtr rts) c
    \<and> (\<forall>l s. t_optimize_latency T (br_cable c) = (l, s) \<longrightarrow> length (encode_latency l) < NET_MAX_FRAME
         \<longrightarrow> tcp_optimize_latency N T c = (decode_latency N (encode_latency l), \<lparr>br_cable = s, br_up = True\<rparr>))"
  by (rule remote_calls [OF assms])

lemma remote_as_cable_witness:
  "tcp_write_all plain_net mock_transport [1, 2] \<lparr>br_cable = mock_new [], br_up = True\<rparr>
     = (Ok (), \<lparr>br_cable = snd (mock_write_all [1, 2] (mock_new [])), br_up = True\<rparr>)"
proof -
  have "short_texts plain_net" by (simp add: short_texts_def plain_net_def NET_MAX_FRAME_def)
  from remote_as_cable [OF _ this, of "\<lparr>br_cable = mock_new [], br_up = True\<rparr>" "[1, 2]" mock_transport] show ?thesis
    by (simp add: remote_of_def mock_write_all_def mock_new_def NET_MAX_FRAME_def)
qed


section \<open>A whole connection\<close>

text \<open>Frames one after the other, and the answers to requests served in order.\<close>

definition frames :: "bytes list \<Rightarrow> bytes" where
  "frames bs = concat (map (\<lambda>b. u32_le (of_nat (length b)) @ b) bs)"

fun answers :: "net_env \<Rightarrow> 's transport \<Rightarrow> bytes list \<Rightarrow> 's \<Rightarrow> (bytes list \<times> 's) option" where
  "answers N T [] s = Some ([], s)"
| "answers N T (req # reqs) s =
     (case dispatch N T req s of
        (Inr resp, s1) \<Rightarrow> map_option (\<lambda>(resps, s2). (resp # resps, s2)) (answers N T reqs s1)
      | (Inl _, _) \<Rightarrow> None)"

definition within_frame :: "bytes list \<Rightarrow> bool" where
  "within_frame bs \<longleftrightarrow> (\<forall>b\<in>set bs. length b \<le> NET_MAX_FRAME)"

lemma frames_Nil [simp]: "frames [] = []"
  by (simp add: frames_def)

lemma frames_Cons: "frames (b # bs) = (u32_le (of_nat (length b)) @ b) @ frames bs"
  by (simp add: frames_def)

lemma framed:
  assumes "length b \<le> NET_MAX_FRAME"
  shows "net_write_frame b = Ok (u32_le (of_nat (length b)) @ b)"
    and "net_read_frame ((u32_le (of_nat (length b)) @ b) @ rest) = Ok (b, rest)"
  using net_read_write_frame [OF assms, of rest] by (auto simp: net_write_frame_def split: if_splits)

lemma serve_loop_answers:
  assumes "answers N T reqs s = Some (resps, s1)" and "within_frame reqs" and "within_frame resps"
    and "net_read_frame rest = Err (Io UnexpectedEof t)"
  shows "serve_loop N T (frames reqs @ rest) out s = (out @ frames resps, Ok (), s1)"
  using assms(1-3)
proof (induction reqs arbitrary: s resps out)
  case Nil
  then show ?case using assms(4) by (simp add: serve_loop.simps [of N T rest])
next
  case (Cons req reqs)
  obtain resp s2 later where d: "dispatch N T req s = (Ok resp, s2)" "resps = resp # later"
      "answers N T reqs s2 = Some (later, s1)"
    using Cons.prems(1) by (auto split: prod.splits sum.splits)
  have "serve_loop N T (frames (req # reqs) @ rest) out s
      = serve_loop N T (frames reqs @ rest) (out @ u32_le (of_nat (length resp)) @ resp) s2"
    using Cons.prems(2,3) d framed(2) [of req "frames reqs @ rest"] framed(1) [of resp]
    by (simp add: serve_loop.simps [of N T "u32_le (of_nat (length req)) @ req @ frames reqs @ rest"] frames_Cons within_frame_def)
  with Cons.IH [OF d(3)] Cons.prems(2,3) d(2) show ?case
    by (simp add: frames_Cons within_frame_def)
qed

text \<open>C40: A connection that opens with the client's hello is served to its end: the server accepts,
  executes the requests in order on the cable and answers each with one frame, and where the client
  stops, be it inside a frame, it ends without an error. With any other hello the client is refused
  and the cable is not touched.\<close>
theorem serve_session:
  assumes "answers N T reqs s = Some (resps, s1)" and "within_frame reqs" and "within_frame resps"
    and "net_read_frame rest = Err (Io UnexpectedEof t)"
  shows "serve_connection N T (hello @ frames reqs @ rest) s = (0x00 # frames resps, Ok (), s1)
    \<and> handshake (0x00 # frames resps) = Ok ()
    \<and> (length h = 5 \<longrightarrow> h \<noteq> hello \<longrightarrow>
         (\<exists>e e'. serve_connection N T (h @ tail) s = ([0x01], Err e, s) \<and> handshake [0x01] = Err e'))"
proof (intro conjI impI)
  show "serve_connection N T (hello @ frames reqs @ rest) s = (0x00 # frames resps, Ok (), s1)"
    using serve_loop_answers [OF assms, of "[0x00]"]
    by (simp add: serve_connection_def hello_def MAGIC_def VERSION_def)
  show "handshake (0x00 # frames resps) = Ok ()" by (simp add: handshake_def)
  assume h: "length h = 5" "h \<noteq> hello"
  have "take 4 h @ [h ! 4] = h" using h(1) take_Suc_conv_app_nth [of 4 h] by simp
  with h have "\<not> (take 4 h = MAGIC \<and> h ! 4 = VERSION)" by (auto simp: hello_def)
  with h(1) show "\<exists>e e'. serve_connection N T (h @ tail) s = ([0x01], Err e, s) \<and> handshake [0x01] = Err e'"
    by (auto simp: serve_connection_def handshake_def nth_append)
qed

lemma serve_session_witness:
  "serve_connection plain_net mock_transport (hello @ frames [[0x01, 7], []] @ [9]) (mock_new [])
     = (0x00 # frames [[0x00], err_resp ''empty request''], Ok (), snd (mock_write_all [7] (mock_new [])))"
proof -
  have "answers plain_net mock_transport [[0x01, 7], []] (mock_new [])
      = Some ([[0x00], err_resp ''empty request''], snd (mock_write_all [7] (mock_new [])))"
    by (simp add: dispatch_def respond_def mock_transport_def mock_write_all_def mock_new_def)
  from serve_session [OF this, of "[9]"] show ?thesis
    by (simp add: within_frame_def NET_MAX_FRAME_def net_read_frame_def err_resp_def text_bytes_def)
qed


section \<open>Time over the bridge\<close>

lemma net_read_frame_oversized:
  assumes "\<not> length body \<le> NET_MAX_FRAME" and "net_write_frame body = Ok b"
  shows "net_read_frame b = Err (Io InvalidData ''frame length exceeds MAX_FRAME'')"
proof -
  have n: "length body < 2 ^ 32" using assms(2) by (auto simp: net_write_frame_def split: if_splits)
  then have "unat (of_nat (length body) :: u32) = length body" by (simp add: unat_of_nat)
  with assms n show ?thesis by (auto simp: net_write_frame_def net_read_frame_def Let_def)
qed

text \<open>The cable's state after a round trip is the one before it, or after the request was executed.\<close>

lemma net_transact_cable:
  "br_cable (snd (net_transact N T body c)) \<in> {br_cable c, snd (dispatch N T body (br_cable c))}"
proof (cases "net_write_frame body")
  case (Inr b)
  show ?thesis
  proof (cases "length body \<le> NET_MAX_FRAME")
    case True
    then have b: "net_read_frame b = Ok (body, [])" using net_read_write_frame [OF True, of "[]"] Inr by auto
    obtain r s where d: "dispatch N T body (br_cable c) = (r, s)" by fastforce
    have "snd (snd (serve_loop N T b [] (br_cable c))) = s"
      using b d by (auto simp: serve_loop.simps [of N T b] serve_loop.simps [of N T "[]"] net_read_frame_empty split: sum.split)
    then show ?thesis
      using Inr d by (auto simp: net_transact_def split: prod.split sum.split fault.split)
  next
    case False
    with net_read_frame_oversized [OF False Inr] Inr show ?thesis
      by (auto simp: net_transact_def serve_loop.simps [of N T b] split: prod.split sum.split fault.split)
  qed
qed (simp add: net_transact_def)

lemma net_call_cable:
  "br_cable (snd (sbind (net_call N T body) (\<lambda>v. sreturn (h v)) c)) \<in> {br_cable c, snd (dispatch N T body (br_cable c))}"
  using net_transact_cable [of N T body c]
  by (auto simp: net_call_def sbind_def split: prod.splits sum.splits)

lemma respond_state: "snd (respond N ok m s) = snd (m s)"
  by (auto simp: respond_def split: prod.split sum.split fault.split)

lemma dispatch_state:
  "snd (dispatch N T (0x01 # buf) s) = snd (t_write_all T buf s)"
  "snd (dispatch N T [0x03] s) = snd (t_purge_rx T s)"
  "snd (dispatch N T (0x02 # body) s) = s \<or> (\<exists>n d. snd (dispatch N T (0x02 # body) s) = snd (t_read T n d s))"
  by (auto simp: dispatch_def dispatch_read_def respond_state Let_def)

context world_clock
begin

text \<open>The clock of the cable's world runs forward over the bridge as well.\<close>

lemma remote_clock: "world_clock (remote_transport N T) (\<lambda>c. time (br_cable c))"
proof
  fix s :: "'s bridge" and b n d
  have now: "time s0 \<le> fst (t_now T s0)" "fst (t_now T s0) \<le> time (snd (t_now T s0))" for s0
    by (rule now_between)+
  show "time (br_cable s) \<le> fst (t_now (remote_transport N T) s)"
    "fst (t_now (remote_transport N T) s) \<le> time (br_cable (snd (t_now (remote_transport N T) s)))"
    using now [of "br_cable s"] by (simp_all add: remote_transport_def split_beta)
  show "time (br_cable s) \<le> time (br_cable (snd (t_write_all (remote_transport N T) b s)))"
    using net_call_cable [of N T "0x01 # b" "\<lambda>_. ()" s] forward(1) [of "br_cable s" b]
    by (auto simp: remote_transport_def tcp_write_all_def dispatch_state)
  show "time (br_cable s) \<le> time (br_cable (snd (t_purge_rx (remote_transport N T) s)))"
    using net_call_cable [of N T "[0x03]" "\<lambda>_. ()" s] forward(3) [of "br_cable s"]
    by (auto simp: remote_transport_def tcp_purge_rx_def dispatch_state)
  show "time (br_cable s) \<le> time (br_cable (snd (t_read (remote_transport N T) n d s)))"
    using net_call_cable [of N T "0x02 # u32_le (of_nat n) @ u64_le (of_nat (min (d div 1000) (2 ^ 64 - 1)))" "take n" s]
      dispatch_state(3) [of N T "u32_le (of_nat n) @ u64_le (of_nat (min (d div 1000) (2 ^ 64 - 1)))" "br_cable s"]
      forward(2) [of "br_cable s"]
    unfolding remote_transport_def tcp_read_def by (auto simp del: One_nat_def)
  show "time (br_cable s) \<le> time (br_cable (t_sleep (remote_transport N T) d s))"
    using forward(4) by (simp add: remote_transport_def)
  show "time (br_cable s) + d \<le> time (br_cable (t_thread_sleep (remote_transport N T) d s))"
    using slept by (simp add: remote_transport_def)
qed

end

interpretation mock_remote: world_clock "remote_transport N mock_transport" "\<lambda>c. mk_now (br_cable c)" for N
  by (rule mock_clock.remote_clock)

end
