(* ===== verification/Serial.thy ===== *)
theory Serial
  imports Streams Texts
begin

text \<open>
  The serial backend, \<open>rmvci-core/src/transport/serial.rs\<close>: the kernel's \<open>ftdi_sio\<close> tty. The crate
  \<open>serialport\<close> and the file system are outside the repository; what the code calls of them is the
  record \<open>'d serial_dev\<close> of an opened port, whose errors are texts. The struct's own state is the
  port and its path, neither of which it changes, so the port's world \<open>'d\<close> is the transport's state.
\<close>

record 'd serial_dev =
  sd_path :: string
  sd_write_all :: "bytes \<Rightarrow> 'd \<Rightarrow> (io_error_kind \<times> string) option \<times> 'd"
  sd_set_timeout :: "duration \<Rightarrow> 'd \<Rightarrow> string option \<times> 'd"
  sd_read :: "nat \<Rightarrow> 'd \<Rightarrow> (io_error_kind \<times> string + bytes) \<times> 'd"
  sd_clear_input :: "'d \<Rightarrow> string option \<times> 'd"
  sd_dtr :: "bool \<Rightarrow> 'd \<Rightarrow> string option \<times> 'd"
  sd_rts :: "bool \<Rightarrow> 'd \<Rightarrow> string option \<times> 'd"
  sd_canonicalize :: "string \<Rightarrow> 'd \<Rightarrow> string + string"
  sd_file_name :: "string \<Rightarrow> string option"
  sd_debug_path :: "string \<Rightarrow> string"
  sd_read_file :: "string \<Rightarrow> 'd \<Rightarrow> string option"
  sd_write_file :: "string \<Rightarrow> string \<Rightarrow> 'd \<Rightarrow> string option \<times> 'd"
  sd_now :: "'d \<Rightarrow> instant \<times> 'd"
  sd_sleep :: "duration \<Rightarrow> 'd \<Rightarrow> 'd"

section \<open>The transport\<close>

text \<open>\<open>.map_err(|e| TransportError::Open { port, reason })\<close>.\<close>

definition or_open :: "'d serial_dev \<Rightarrow> ('d \<Rightarrow> string option \<times> 'd) \<Rightarrow> (unit, transport_error, 'd) op" where
  "or_open D m d = (case m d of (None, d1) \<Rightarrow> (Ok (), d1) | (Some e, d1) \<Rightarrow> (Err (OpenFailed (sd_path D) e), d1))"

text \<open>\<open>opener\<close> is the crate's builder applied to the path and the settings 115200, eight data bits, no
  parity, one stop bit, no flow control and 100 ms.\<close>

definition serial_open :: "(string \<Rightarrow> nat \<Rightarrow> duration \<Rightarrow> string + 'd serial_dev \<times> 'd) \<Rightarrow> string
    \<Rightarrow> ('d serial_dev \<times> 'd, transport_error) res" where
  "serial_open opener path =
     (case opener path 115200 (from_millis 100) of
        Inl e \<Rightarrow> Err (OpenFailed path e)
      | Inr (D, d) \<Rightarrow> Ok (D\<lparr>sd_path := path\<rparr>, d))"

definition serial_write_all :: "'d serial_dev \<Rightarrow> bytes \<Rightarrow> (unit, transport_error, 'd) op" where
  "serial_write_all D buf d =
     (case sd_write_all D buf d of (None, d1) \<Rightarrow> (Ok (), d1) | (Some (k, e), d1) \<Rightarrow> (Err (Io k e), d1))"

definition serial_read :: "'d serial_dev \<Rightarrow> nat \<Rightarrow> duration \<Rightarrow> (bytes, transport_error, 'd) op" where
  "serial_read D n timeout =
     sbind (or_open D (sd_set_timeout D (max timeout (from_millis 1)))) (\<lambda>_ d.
       case sd_read D n d of
         (Inr b, d1) \<Rightarrow> (Ok b, d1)
       | (Inl (k, e), d1) \<Rightarrow> if k = TimedOut then (Ok [], d1) else (Err (Io k e), d1))"

definition serial_set_modem :: "'d serial_dev \<Rightarrow> bool \<Rightarrow> bool \<Rightarrow> (unit, transport_error, 'd) op" where
  "serial_set_modem D dtr rts = sbind (or_open D (sd_dtr D dtr)) (\<lambda>_. or_open D (sd_rts D rts))"

section \<open>The latency timer\<close>

text \<open>\<open>str::trim\<close> on ASCII, and \<open>parse::<u8>\<close>.\<close>

definition white :: "char \<Rightarrow> bool" where
  "white c \<longleftrightarrow> (of_char c :: nat) \<in> {9, 10, 11, 12, 13, 32}"

definition str_trim :: "string \<Rightarrow> string" where
  "str_trim s = rev (dropWhile white (rev (dropWhile white s)))"

definition digit_of :: "char \<Rightarrow> nat option" where
  "digit_of c = (let n = of_char c in if 48 \<le> n \<and> n \<le> 57 then Some (n - 48) else None)"

fun digits_value :: "nat \<Rightarrow> string \<Rightarrow> nat option" where
  "digits_value v [] = Some v"
| "digits_value v (c # cs) = (case digit_of c of None \<Rightarrow> None | Some k \<Rightarrow> digits_value (10 * v + k) cs)"

definition parse_u8 :: "string \<Rightarrow> u8 option" where
  "parse_u8 s =
     (let ds = (case s of c # cs \<Rightarrow> if c = CHR ''+'' then cs else s | [] \<Rightarrow> []) in
      if ds = [] then None
      else case digits_value 0 ds of Some v \<Rightarrow> if v \<le> 255 then Some (of_nat v) else None | None \<Rightarrow> None)"

definition serial_optimize_latency :: "'d serial_dev \<Rightarrow> 'd \<Rightarrow> latency_result \<times> 'd" where
  "serial_optimize_latency D d =
     (case sd_canonicalize D (sd_path D) d of
        Inl e \<Rightarrow> (LatencyFailed e, d)
      | Inr real \<Rightarrow> (case sd_file_name D real of
          None \<Rightarrow> (LatencyFailed (''odd device path '' @ sd_debug_path D real), d)
        | Some name \<Rightarrow>
            let node = ''/sys/bus/usb-serial/devices/'' @ name @ ''/latency_timer'';
                current = Option.bind (sd_read_file D node d) (\<lambda>s. parse_u8 (str_trim s)) in
            (case (case current of Some ms \<Rightarrow> if ms \<le> 2 then Some ms else None | None \<Rightarrow> None) of
               Some ms \<Rightarrow> (AlreadyLow ms, d)
             | None \<Rightarrow> (case sd_write_file D node (''2'' @ [CHR 0x0A]) d of
                 (None, d1) \<Rightarrow> (LatencySet 2, d1)
               | (Some e, d1) \<Rightarrow> (LatencyFailed (node @ '': '' @ e @
                   '' (fix permanently with a udev rule: ACTION==\"add\", SUBSYSTEM==\"usb-serial\", '' @
                   ''DRIVER==\"ftdi_sio\", ATTR{latency_timer}=\"2\")''), d1)))))"

definition serial_transport :: "'d serial_dev \<Rightarrow> 'd transport" where
  "serial_transport D =
     \<lparr>t_write_all = serial_write_all D, t_read = serial_read D, t_purge_rx = or_open D (sd_clear_input D),
      t_set_modem = serial_set_modem D, t_optimize_latency = serial_optimize_latency D,
      t_sleep = sd_sleep D, t_now = sd_now D, t_thread_sleep = sd_sleep D\<rparr>"

section \<open>The stream of a tty\<close>

text \<open>A read that fails or times out takes nothing out of the tty.\<close>

locale tty =
  fixes D :: "'d serial_dev" and unread :: "'d \<Rightarrow> bytes"
  assumes read_front: "sd_read D n d = (Inr b, d') \<Longrightarrow> unread d = b @ unread d' \<and> length b \<le> n"
    and read_nothing: "sd_read D n d = (Inl (TimedOut, e), d') \<Longrightarrow> unread d' = unread d"
    and timeout_keeps: "unread (snd (sd_set_timeout D t d)) = unread d"
    and clock_keeps: "unread (snd (sd_now D d)) = unread d"
begin

lemma serial_stream: "ordered_stream (serial_transport D) unread"
proof
  fix n t d b d'
  assume "t_read (serial_transport D) n t d = (Ok b, d')"
  then obtain d1 where d1: "or_open D (sd_set_timeout D (max t (from_millis 1))) d = (Ok (), d1)"
    and rd: "(case sd_read D n d1 of (Inr b, d1) \<Rightarrow> (Ok b, d1)
       | (Inl (k, e), d1) \<Rightarrow> if k = TimedOut then (Ok [], d1) else (Err (Io k e), d1)) = (Ok b, d')"
    by (auto simp: serial_transport_def serial_read_def sbind_eq_Ok)
  have "unread d1 = unread d"
    using d1 timeout_keeps [of "max t (from_millis 1)" d] by (auto simp: or_open_def split: prod.splits option.splits)
  moreover have "unread d1 = b @ unread d' \<and> length b \<le> n"
    using rd read_front [of n d1 b d'] read_nothing [of n d1 _ d'] by (auto split: prod.splits sum.splits if_splits)
  ultimately show "unread d = b @ unread d' \<and> length b \<le> n" by simp
qed (simp add: serial_transport_def clock_keeps)

end

text \<open>The latency timer is written exactly when it does not already hold a number of at most two.\<close>

lemma latency_already_low:
  assumes "sd_canonicalize D (sd_path D) d = Inr real" and "sd_file_name D real = Some name"
  shows "fst (serial_optimize_latency D d) = AlreadyLow ms \<longleftrightarrow>
    (\<exists>s. sd_read_file D (''/sys/bus/usb-serial/devices/'' @ name @ ''/latency_timer'') d = Some s
       \<and> parse_u8 (str_trim s) = Some ms \<and> ms \<le> 2)"
  using assms
  by (auto simp: serial_optimize_latency_def Let_def Option.bind_eq_Some_conv split: option.splits prod.splits if_splits)

section \<open>A scripted tty\<close>

record mock_tty =
  tt_unread :: bytes
  tt_timer :: "string option"
  tt_now :: instant

definition mock_tty_dev :: "mock_tty serial_dev" where
  "mock_tty_dev =
     \<lparr>sd_path = ''/dev/ttyUSB0'', sd_write_all = (\<lambda>b d. (None, d\<lparr>tt_now := tt_now d + 1\<rparr>)), sd_set_timeout = (\<lambda>t d. (None, d)),
      sd_read = (\<lambda>n d. if tt_unread d = [] then (Inl (TimedOut, []), d)
         else (Inr (take n (tt_unread d)), d\<lparr>tt_unread := drop n (tt_unread d)\<rparr>)),
      sd_clear_input = (\<lambda>d. (None, d\<lparr>tt_unread := []\<rparr>)), sd_dtr = (\<lambda>b d. (None, d)), sd_rts = (\<lambda>b d. (None, d)),
      sd_canonicalize = (\<lambda>p d. Inr p), sd_file_name = (\<lambda>p. Some (drop 5 p)), sd_debug_path = (\<lambda>p. p),
      sd_read_file = (\<lambda>p d. tt_timer d), sd_write_file = (\<lambda>p t d. (None, d\<lparr>tt_timer := Some t\<rparr>)),
      sd_now = (\<lambda>d. (tt_now d, d)), sd_sleep = (\<lambda>t d. d\<lparr>tt_now := tt_now d + t\<rparr>)\<rparr>"

interpretation mock_tty: tty mock_tty_dev tt_unread
  by unfold_locales (auto simp: mock_tty_dev_def split: if_splits)

text \<open>Over a tty as well the session reads what the adapter sent, in order.\<close>

theorem serial_frames_in_order:
  assumes "tty D unread" and "read_frame (serial_transport D) timeout d = (Ok f, d')"
  shows "well_framed f \<and> unread d = f @ unread d'"
  using ordered_stream.read_frame_in_order [OF tty.serial_stream [OF assms(1)] assms(2)] .

text \<open>The timer's text is trimmed and read as a number; setting it leaves what a later open finds low.\<close>

lemma latency_set_once:
  "serial_optimize_latency mock_tty_dev \<lparr>tt_unread = [], tt_timer = Some (''16'' @ [CHR 0x0A]), tt_now = 0\<rparr>
     = (LatencySet 2, \<lparr>tt_unread = [], tt_timer = Some (''2'' @ [CHR 0x0A]), tt_now = 0\<rparr>)"
  "fst (serial_optimize_latency mock_tty_dev \<lparr>tt_unread = [], tt_timer = Some (''2'' @ [CHR 0x0A]), tt_now = 0\<rparr>) = AlreadyLow 2"
  by (simp_all add: serial_optimize_latency_def mock_tty_dev_def parse_u8_def str_trim_def white_def digit_of_def Let_def)

end
