(* ===== verification/Usb.thy ===== *)
theory Usb
  imports Streams Texts
begin

text \<open>
  The USB backend, \<open>rmvci-core/src/transport/usb.rs\<close>: the cable's FT232R without the kernel's driver.
  The crate \<open>nusb\<close> is outside the repository; what the code calls of it is the record \<open>'d usb_dev\<close> of
  an opened device: control transfers, the two bulk endpoints, the re-attachment of the kernel's
  driver, the packet size, and the standard library's clock. \<open>'d usb\<close> is the struct's changing part;
  the packet size and the label, which never change, are fields of the device.
\<close>

section \<open>The device\<close>

datatype usb_status = XferOk | XferCancelled string | XferError string

record usb_completion =
  uc_status :: usb_status
  uc_actual_len :: nat
  uc_buffer :: bytes

record 'd usb_dev =
  ud_control :: "u8 \<Rightarrow> u16 \<Rightarrow> 'd \<Rightarrow> string option \<times> 'd"
  ud_out :: "bytes \<Rightarrow> 'd \<Rightarrow> usb_completion \<times> 'd"
  ud_in :: "nat \<Rightarrow> duration \<Rightarrow> 'd \<Rightarrow> usb_completion \<times> 'd"
  ud_attach :: "'d \<Rightarrow> string option \<times> 'd"
  ud_max_packet :: nat
  ud_label :: string
  ud_now :: "'d \<Rightarrow> instant \<times> 'd"
  ud_sleep :: "duration \<Rightarrow> 'd \<Rightarrow> 'd"

definition SIO_RESET :: u8 where "SIO_RESET = 0"
definition SIO_MODEM_CTRL :: u8 where "SIO_MODEM_CTRL = 1"
definition SIO_SET_BAUDRATE :: u8 where "SIO_SET_BAUDRATE = 3"
definition SIO_SET_DATA :: u8 where "SIO_SET_DATA = 4"
definition SIO_SET_LATENCY_TIMER :: u8 where "SIO_SET_LATENCY_TIMER = 9"
definition SIO_RESET_SIO :: u16 where "SIO_RESET_SIO = 0"
definition SIO_RESET_PURGE_RX :: u16 where "SIO_RESET_PURGE_RX = 1"
definition DATA_8N1 :: u16 where "DATA_8N1 = 8"
definition BAUD_115200_DIVISOR :: u16 where "BAUD_115200_DIVISOR = 0x001a"
definition TARGET_LATENCY_MS :: u8 where "TARGET_LATENCY_MS = 2"
definition FTDI_VID :: u16 where "FTDI_VID = 0x0403"
definition FT232R_PID :: u16 where "FT232R_PID = 0x6001"

lemmas sio = SIO_RESET_def SIO_MODEM_CTRL_def SIO_SET_BAUDRATE_def SIO_SET_DATA_def SIO_SET_LATENCY_TIMER_def
  SIO_RESET_SIO_def SIO_RESET_PURGE_RX_def DATA_8N1_def BAUD_115200_DIVISOR_def TARGET_LATENCY_MS_def

section \<open>The transport\<close>

record 'd usb =
  us_dev :: 'd
  us_rx :: bytes

definition io_err :: "string \<Rightarrow> string \<Rightarrow> transport_error" where
  "io_err e what = OpenFailed what e"

definition usb_control :: "'d usb_dev \<Rightarrow> u8 \<Rightarrow> u16 \<Rightarrow> (unit, transport_error, 'd usb) op" where
  "usb_control D request value u =
     (case ud_control D request value (us_dev u) of
        (None, d) \<Rightarrow> (Ok (), u\<lparr>us_dev := d\<rparr>)
      | (Some e, d) \<Rightarrow> (Err (io_err e (ud_label D)), u\<lparr>us_dev := d\<rparr>))"

text \<open>\<open>slice::chunks\<close>, which panics on a size of zero.\<close>

function chunks_of :: "nat \<Rightarrow> 'a list \<Rightarrow> 'a list list" where
  "chunks_of n xs = (if n = 0 \<or> xs = [] then [] else take n xs # chunks_of n (drop n xs))"
  by pat_completeness auto
termination
  by (relation "measure (\<lambda>(n, xs). length xs)") auto

declare chunks_of.simps [simp del]

definition absorb :: "'d usb_dev \<Rightarrow> bytes \<Rightarrow> (unit, transport_error, 'd usb) op" where
  "absorb D data u =
     (if ud_max_packet D = 0 then (panic, u)
      else (Ok (), u\<lparr>us_rx := us_rx u @
        concat (map (\<lambda>packet. if length packet > 2 then drop 2 packet else []) (chunks_of (ud_max_packet D) data))\<rparr>))"

definition usb_take :: "nat \<Rightarrow> (bytes, transport_error, 'd usb) op" where
  "usb_take len u =
     (let n = min len (length (us_rx u)) in (Ok (take n (us_rx u)), u\<lparr>us_rx := drop n (us_rx u)\<rparr>))"

definition usb_write_all :: "'d usb_dev \<Rightarrow> bytes \<Rightarrow> (unit, transport_error, 'd usb) op" where
  "usb_write_all D buf u =
     (case ud_out D buf (us_dev u) of
        (c, d) \<Rightarrow> let u1 = u\<lparr>us_dev := d\<rparr> in
          (case uc_status c of
             XferOk \<Rightarrow>
               if uc_actual_len c \<noteq> length buf
               then (Err (io_err (''short write: '' @ show_nat (uc_actual_len c) @ '' of '' @ show_nat (length buf) @
                       '' bytes'') (ud_label D)), u1)
               else (Ok (), u1)
           | XferCancelled e \<Rightarrow> (Err (io_err e (ud_label D)), u1)
           | XferError e \<Rightarrow> (Err (io_err e (ud_label D)), u1)))"

text \<open>The waiting loop of \<open>read\<close>; running out of fuel is \<open>None\<close>.\<close>

fun usb_read_loop :: "'d usb_dev \<Rightarrow> nat \<Rightarrow> nat \<Rightarrow> instant \<Rightarrow> 'd usb
    \<Rightarrow> ((bytes, transport_error) res \<times> 'd usb) option" where
  "usb_read_loop D 0 len deadline u = None"
| "usb_read_loop D (Suc k) len deadline u =
     (case ud_now D (us_dev u) of
        (now, d) \<Rightarrow> let remaining = deadline - now; u1 = u\<lparr>us_dev := d\<rparr> in
          if remaining = 0 then Some (Ok [], u1)
          else (case ud_in D (ud_max_packet D * 8) (min remaining (from_millis 200)) d of
            (c, d2) \<Rightarrow> let u2 = u1\<lparr>us_dev := d2\<rparr> in
              (case uc_status c of
                 XferOk \<Rightarrow>
                   (case sbind (slift (slice (uc_buffer c) 0 (uc_actual_len c))) (absorb D) u2 of
                      (Inl e, u3) \<Rightarrow> Some (Inl e, u3)
                    | (Inr _, u3) \<Rightarrow>
                        if us_rx u3 \<noteq> [] then Some (usb_take len u3) else usb_read_loop D k len deadline u3)
               | XferCancelled _ \<Rightarrow> usb_read_loop D k len deadline u2
               | XferError e \<Rightarrow> Some (Err (io_err e (ud_label D)), u2))))"

declare usb_read_loop.simps(2) [simp del]

definition usb_read :: "'d usb_dev \<Rightarrow> nat \<Rightarrow> nat \<Rightarrow> duration \<Rightarrow> 'd usb
    \<Rightarrow> ((bytes, transport_error) res \<times> 'd usb) option" where
  "usb_read D fuel len timeout u =
     (if us_rx u \<noteq> [] then Some (usb_take len u)
      else case ud_now D (us_dev u) of
        (now, d) \<Rightarrow> usb_read_loop D fuel len (now + timeout) (u\<lparr>us_dev := d\<rparr>))"

definition usb_purge_rx :: "'d usb_dev \<Rightarrow> (unit, transport_error, 'd usb) op" where
  "usb_purge_rx D u = usb_control D SIO_RESET SIO_RESET_PURGE_RX (u\<lparr>us_rx := []\<rparr>)"

definition usb_set_modem :: "'d usb_dev \<Rightarrow> bool \<Rightarrow> bool \<Rightarrow> (unit, transport_error, 'd usb) op" where
  "usb_set_modem D dtr rts =
     sbind (usb_control D SIO_MODEM_CTRL (if dtr then 0x0101 else 0x0100)) (\<lambda>_.
       usb_control D SIO_MODEM_CTRL (if rts then 0x0202 else 0x0200))"

text \<open>\<open>sh\<close> is the \<open>Display\<close> of a transport error.\<close>

definition usb_optimize_latency :: "(transport_error \<Rightarrow> string) \<Rightarrow> 'd usb_dev \<Rightarrow> 'd usb \<Rightarrow> latency_result \<times> 'd usb" where
  "usb_optimize_latency sh D u =
     (case usb_control D SIO_SET_LATENCY_TIMER (ucast TARGET_LATENCY_MS) u of
        (Inr _, u1) \<Rightarrow> (LatencySet TARGET_LATENCY_MS, u1)
      | (Inl (Fail e), u1) \<Rightarrow> (LatencyFailed (sh e), u1)
      | (Inl Panic, u1) \<Rightarrow> (Unavailable, u1))"

text \<open>As an instance of the trait. A read gets as much fuel as its timeout has nanoseconds, and one
  more: enough wherever a transfer takes time (\<open>usb_read_ends\<close> below).\<close>

definition usb_transport :: "(transport_error \<Rightarrow> string) \<Rightarrow> 'd usb_dev \<Rightarrow> 'd usb transport" where
  "usb_transport sh D =
     \<lparr>t_write_all = usb_write_all D,
      t_read = (\<lambda>len timeout u. case usb_read D (timeout + 1) len timeout u of Some r \<Rightarrow> r | None \<Rightarrow> (panic, u)),
      t_purge_rx = usb_purge_rx D, t_set_modem = usb_set_modem D, t_optimize_latency = usb_optimize_latency sh D,
      t_sleep = (\<lambda>t u. u\<lparr>us_dev := ud_sleep D t (us_dev u)\<rparr>),
      t_now = (\<lambda>u. case ud_now D (us_dev u) of (now, d) \<Rightarrow> (now, u\<lparr>us_dev := d\<rparr>)),
      t_thread_sleep = (\<lambda>t u. u\<lparr>us_dev := ud_sleep D t (us_dev u)\<rparr>)\<rparr>"

section \<open>Opening and dropping\<close>

record usb_info =
  ui_vendor :: u16
  ui_product :: u16
  ui_serial :: "string option"

definition usb_matches :: "string option \<Rightarrow> usb_info \<Rightarrow> bool" where
  "usb_matches serial i \<longleftrightarrow> ui_vendor i = FTDI_VID \<and> ui_product i = FT232R_PID
     \<and> (case serial of None \<Rightarrow> True | Some want \<Rightarrow> ui_serial i = Some want)"

definition usb_label :: "usb_info \<Rightarrow> string" where
  "usb_label i = ''usb '' @ hex_digits 4 (unat (ui_vendor i)) @ '':'' @ hex_digits 4 (unat (ui_product i)) @ '' '' @
     (case ui_serial i of Some s \<Rightarrow> s | None \<Rightarrow> ''(no serial)'')"

definition usb_drop :: "'d usb_dev \<Rightarrow> 'd usb \<Rightarrow> 'd" where
  "usb_drop D u = snd (ud_attach D (us_dev u))"

text \<open>\<open>listing\<close> is what the bus lists, or why it cannot be listed; \<open>claim\<close> opens a device, claims its
  interface and both endpoints, and fails with the text of the first that failed. A transport whose
  configuration fails is dropped.\<close>

definition usb_open :: "string + usb_info list \<Rightarrow> (usb_info \<Rightarrow> string + 'd usb_dev \<times> 'd) \<Rightarrow> string option
    \<Rightarrow> ('d usb_dev \<times> 'd usb, transport_error \<times> 'd option) res" where
  "usb_open listing claim serial =
     (case listing of
        Inl e \<Rightarrow> Err (io_err e ''list USB devices'', None)
      | Inr infos \<Rightarrow> (case find (usb_matches serial) infos of
          None \<Rightarrow> Err (OpenFailed (case serial of Some s \<Rightarrow> s | None \<Rightarrow> ''any FT232R'')
                        (''no '' @ hex_digits 4 (unat FTDI_VID) @ '':'' @ hex_digits 4 (unat FT232R_PID) @ '' device found''), None)
        | Some i \<Rightarrow> (case claim i of
            Inl e \<Rightarrow> Err (io_err e (usb_label i), None)
          | Inr (D0, d) \<Rightarrow>
              let D = D0\<lparr>ud_label := usb_label i\<rparr> in
              (case sbind (usb_control D SIO_RESET SIO_RESET_SIO) (\<lambda>_.
                    sbind (usb_control D SIO_SET_BAUDRATE BAUD_115200_DIVISOR) (\<lambda>_.
                      usb_control D SIO_SET_DATA DATA_8N1)) \<lparr>us_dev = d, us_rx = []\<rparr> of
                 (Inr _, u) \<Rightarrow> Ok (D, u)
               | (Inl (Fail e), u) \<Rightarrow> Err (e, Some (usb_drop D u))
               | (Inl Panic, u) \<Rightarrow> panic))))"

section \<open>One round of the loop\<close>

definition usb_round :: "'d usb_dev \<Rightarrow> instant \<Rightarrow> 'd usb \<Rightarrow> usb_completion \<times> 'd usb" where
  "usb_round D deadline u =
     (case ud_now D (us_dev u) of (now, d) \<Rightarrow>
      case ud_in D (ud_max_packet D * 8) (min (deadline - now) (from_millis 200)) d of (c, d2) \<Rightarrow>
        (c, u\<lparr>us_dev := d2\<rparr>))"

lemma usb_read_loop_waits:
  assumes "ud_now D (us_dev u) = (now, d)" and "usb_round D deadline u = (c, u2)" and "now < deadline"
  shows "usb_read_loop D (Suc k) len deadline u =
      (case uc_status c of
         XferOk \<Rightarrow>
           (case sbind (slift (slice (uc_buffer c) 0 (uc_actual_len c))) (absorb D) u2 of
              (Inl e, u3) \<Rightarrow> Some (Inl e, u3)
            | (Inr _, u3) \<Rightarrow> if us_rx u3 \<noteq> [] then Some (usb_take len u3) else usb_read_loop D k len deadline u3)
       | XferCancelled _ \<Rightarrow> usb_read_loop D k len deadline u2
       | XferError e \<Rightarrow> Some (Err (io_err e (ud_label D)), u2))"
proof -
  obtain d2 where i: "ud_in D (ud_max_packet D * 8) (min (deadline - now) (from_millis 200)) d = (c, d2)"
    "u2 = u\<lparr>us_dev := d2\<rparr>"
    using assms by (auto simp only: usb_round_def prod.case prod.inject split: prod.splits)
  have "deadline - now \<noteq> 0" "u\<lparr>us_dev := d, us_dev := d2\<rparr> = u2" using assms(3) i(2) by simp_all
  then show ?thesis
    unfolding usb_read_loop.simps(2) [of D k len deadline u, unfolded assms(1) prod.case Let_def] i(1) prod.case
    by (simp only: if_False)
qed

lemma usb_read_loop_round:
  assumes "ud_now D (us_dev u) = (now, d)" and "usb_round D deadline u = (c, u2)"
  shows "deadline \<le> now \<Longrightarrow> usb_read_loop D (Suc k) len deadline u = Some (Ok [], u\<lparr>us_dev := d\<rparr>)"
    and "now < deadline \<Longrightarrow> uc_status c = XferOk \<Longrightarrow>
      sbind (slift (slice (uc_buffer c) 0 (uc_actual_len c))) (absorb D) u2 = (Ok (), u3) \<Longrightarrow>
      usb_read_loop D (Suc k) len deadline u
        = (if us_rx u3 \<noteq> [] then Some (usb_take len u3) else usb_read_loop D k len deadline u3)"
    and "now < deadline \<Longrightarrow> uc_status c = XferCancelled e \<Longrightarrow>
      usb_read_loop D (Suc k) len deadline u = usb_read_loop D k len deadline u2"
    and "now < deadline \<Longrightarrow> uc_status c = XferError e \<Longrightarrow>
      usb_read_loop D (Suc k) len deadline u = Some (Err (io_err e (ud_label D)), u2)"
proof -
  show "usb_read_loop D (Suc k) len deadline u = Some (Ok [], u\<lparr>us_dev := d\<rparr>)" if "deadline \<le> now"
    using that usb_read_loop.simps(2) [of D k len deadline u, unfolded assms(1) prod.case Let_def] by simp
  note waits = usb_read_loop_waits [OF assms]
  show "usb_read_loop D (Suc k) len deadline u
      = (if us_rx u3 \<noteq> [] then Some (usb_take len u3) else usb_read_loop D k len deadline u3)"
    if "now < deadline" "uc_status c = XferOk"
      "sbind (slift (slice (uc_buffer c) 0 (uc_actual_len c))) (absorb D) u2 = (Ok (), u3)"
    unfolding waits [OF that(1)] that(2,3) by simp
  show "usb_read_loop D (Suc k) len deadline u = usb_read_loop D k len deadline u2"
    if "now < deadline" "uc_status c = XferCancelled e"
    unfolding waits [OF that(1)] that(2) by simp
  show "usb_read_loop D (Suc k) len deadline u = Some (Err (io_err e (ud_label D)), u2)"
    if "now < deadline" "uc_status c = XferError e"
    unfolding waits [OF that(1)] that(2) by simp
qed

lemma usb_read_loop_panic:
  assumes "ud_now D (us_dev u) = (now, d)" and "usb_round D deadline u = (c, u2)"
    and "now < deadline" and "uc_status c = XferOk"
    and "sbind (slift (slice (uc_buffer c) 0 (uc_actual_len c))) (absorb D) u2 = (Inl e, u3)"
  shows "usb_read_loop D (Suc k) len deadline u = Some (Inl e, u3)"
  unfolding usb_read_loop_waits [OF assms(1-3)] assms(4,5) by simp

section \<open>Packets\<close>

text \<open>What the chip sends: packets of two status bytes and a payload, all but the last one full.\<close>

definition ftdi_packets :: "nat \<Rightarrow> (bytes \<times> bytes) list \<Rightarrow> bool" where
  "ftdi_packets mp ps \<longleftrightarrow> (\<forall>(st, p) \<in> set ps. length st = 2 \<and> 2 + length p \<le> mp)
     \<and> (\<forall>(st, p) \<in> set (butlast ps). 2 + length p = mp)"

definition ftdi_data :: "(bytes \<times> bytes) list \<Rightarrow> bytes" where
  "ftdi_data ps = concat (map (\<lambda>(st, p). st @ p) ps)"

definition ftdi_payload :: "(bytes \<times> bytes) list \<Rightarrow> bytes" where
  "ftdi_payload ps = concat (map snd ps)"

lemma chunks_of_concat:
  assumes "\<forall>p \<in> set ps. p \<noteq> [] \<and> length p \<le> n" and "\<forall>p \<in> set (butlast ps). length p = n"
  shows "chunks_of n (concat ps) = ps"
  using assms
proof (induction ps)
  case (Cons p ps)
  have p: "p \<noteq> []" "length p \<le> n" using Cons.prems(1) by auto
  then have "0 < n" by (cases p) auto
  note p = p this
  show ?case
  proof (cases ps)
    case Nil
    with p show ?thesis by (simp add: chunks_of.simps [of n p] chunks_of.simps [of n "[]"])
  next
    case (Cons q qs)
    then have "length p = n" using Cons.prems(2) by simp
    with Cons.IH Cons.prems Cons p show ?thesis
      by (simp add: chunks_of.simps [of n "p @ q @ concat qs"])
  qed
qed (simp add: chunks_of.simps [of _ "[]"])

lemma absorb_packets:
  assumes "ftdi_packets (ud_max_packet D) ps" and "ps \<noteq> []"
  shows "absorb D (ftdi_data ps) u = (Ok (), u\<lparr>us_rx := us_rx u @ ftdi_payload ps\<rparr>)"
proof -
  let ?qs = "map (\<lambda>(st, p). st @ p) ps"
  have "chunks_of (ud_max_packet D) (concat ?qs) = ?qs"
    by (rule chunks_of_concat)
      (use assms(1) in \<open>fastforce simp: ftdi_packets_def map_butlast [symmetric] dest: in_set_butlastD\<close>)+
  moreover have "map (\<lambda>packet. if length packet > 2 then drop 2 packet else []) ?qs = map snd ps"
    using assms(1) by (auto simp: ftdi_packets_def)
  moreover have "ud_max_packet D \<noteq> 0"
    using assms by (cases ps) (auto simp: ftdi_packets_def)
  ultimately show ?thesis
    by (simp only: absorb_def ftdi_data_def ftdi_payload_def if_False)
qed

section \<open>The stream of an FT232R\<close>

text \<open>\<open>pending d\<close> are the bytes the chip has yet to deliver. A transfer that completes carries whole
  packets of them; one that is cancelled carries none, which the code relies on: it drops what a
  cancelled transfer may have brought.\<close>

locale ftdi =
  fixes D :: "'d usb_dev" and pending :: "'d \<Rightarrow> bytes"
  assumes packet_size: "2 < ud_max_packet D"
    and in_packets: "ud_in D n t d = (c, d') \<Longrightarrow> uc_status c = XferOk \<Longrightarrow>
      \<exists>ps. uc_actual_len c \<le> length (uc_buffer c) \<and> take (uc_actual_len c) (uc_buffer c) = ftdi_data ps
        \<and> ftdi_packets (ud_max_packet D) ps \<and> pending d = ftdi_payload ps @ pending d'"
    and in_cancelled: "ud_in D n t d = (c, d') \<Longrightarrow> uc_status c = XferCancelled e \<Longrightarrow> pending d' = pending d"
    and clock_keeps: "pending (snd (ud_now D d)) = pending d"
begin

definition usb_held :: "'d usb \<Rightarrow> bytes" where
  "usb_held u = us_rx u @ pending (us_dev u)"

lemma round_held:
  assumes "usb_round D deadline u = (c, u2)"
  shows "uc_status c = XferCancelled e \<Longrightarrow> usb_held u2 = usb_held u"
    and "uc_status c = XferOk \<Longrightarrow> \<exists>u3. sbind (slift (slice (uc_buffer c) 0 (uc_actual_len c))) (absorb D) u2 = (Ok (), u3)
      \<and> usb_held u3 = usb_held u"
proof -
  obtain now d d2 where i: "ud_now D (us_dev u) = (now, d)" "u2 = u\<lparr>us_dev := d2\<rparr>"
    "ud_in D (ud_max_packet D * 8) (min (deadline - now) (from_millis 200)) d = (c, d2)"
    using assms by (auto simp only: usb_round_def prod.case prod.inject split: prod.splits)
  have d: "pending d = pending (us_dev u)" using clock_keeps [of "us_dev u"] i(1) by simp
  show "usb_held u2 = usb_held u" if "uc_status c = XferCancelled e"
    using in_cancelled [OF i(3) that] d i(2) by (simp add: usb_held_def)
  assume "uc_status c = XferOk"
  from in_packets [OF i(3) this] obtain ps where ps: "uc_actual_len c \<le> length (uc_buffer c)"
    "take (uc_actual_len c) (uc_buffer c) = ftdi_data ps" "ftdi_packets (ud_max_packet D) ps"
    "pending d = ftdi_payload ps @ pending d2" by blast
  have "absorb D (ftdi_data ps) u2 = (Ok (), u2\<lparr>us_rx := us_rx u2 @ ftdi_payload ps\<rparr>)"
  proof (cases "ps = []")
    case True
    with packet_size show ?thesis by (simp add: absorb_def ftdi_data_def ftdi_payload_def chunks_of.simps [of _ "[]"])
  qed (rule absorb_packets [OF ps(3)])
  moreover have "slice (uc_buffer c) 0 (uc_actual_len c) = (Ok (ftdi_data ps) :: (bytes, transport_error) res)"
    using ps(1,2) by (simp add: slice_def)
  ultimately show "\<exists>u3. sbind (slift (slice (uc_buffer c) 0 (uc_actual_len c))) (absorb D) u2 = (Ok (), u3)
      \<and> usb_held u3 = usb_held u"
    using ps(4) d i(2) by (simp add: usb_held_def)
qed

lemma take_held: "usb_take len u = (Ok b, u') \<Longrightarrow> usb_held u = b @ usb_held u' \<and> length b \<le> len"
  by (auto simp: usb_take_def Let_def usb_held_def min_def)

lemma read_loop_held:
  assumes "usb_read_loop D k len deadline u = Some (Ok b, u')"
  shows "usb_held u = b @ usb_held u' \<and> length b \<le> len"
  using assms
proof (induction k arbitrary: u)
  case (Suc k)
  obtain now d where now: "ud_now D (us_dev u) = (now, d)" by fastforce
  obtain c u2 where c: "usb_round D deadline u = (c, u2)" by fastforce
  note round = usb_read_loop_round [OF now c, where k = k and len = len]
  show ?case
  proof (cases "now < deadline")
    case False
    then have "deadline \<le> now" by simp
    from trans [OF round(1) [OF this, symmetric] Suc.prems] have "b = []" "u' = u\<lparr>us_dev := d\<rparr>" by simp_all
    with clock_keeps [of "us_dev u"] now show ?thesis by (simp add: usb_held_def)
  next
    case True
    show ?thesis
    proof (cases "uc_status c")
      case XferOk
      from round_held(2) [OF c XferOk] obtain u3
        where u3: "sbind (slift (slice (uc_buffer c) 0 (uc_actual_len c))) (absorb D) u2 = (Ok (), u3)"
        "usb_held u3 = usb_held u" by blast
      note step = trans [OF round(2) [OF True XferOk u3(1), symmetric] Suc.prems]
      show ?thesis
      proof (cases "us_rx u3 = []")
        case True
        with step have "usb_read_loop D k len deadline u3 = Some (Ok b, u')" by simp
        from Suc.IH [OF this] u3(2) show ?thesis by simp
      next
        case False
        with step have "usb_take len u3 = (Ok b, u')" by simp
        from take_held [OF this] u3(2) show ?thesis by simp
      qed
    next
      case (XferCancelled e)
      from Suc.IH [OF trans [OF round(3) [OF True XferCancelled, symmetric] Suc.prems]] round_held(1) [OF c XferCancelled]
      show ?thesis by simp
    next
      case (XferError e)
      from trans [OF round(4) [OF True XferError, symmetric] Suc.prems] show ?thesis by simp
    qed
  qed
qed simp

lemma read_held:
  assumes "usb_read D k len t u = Some (Ok b, u')"
  shows "usb_held u = b @ usb_held u' \<and> length b \<le> len"
proof -
  obtain now d where now: "ud_now D (us_dev u) = (now, d)" by fastforce
  then have "usb_held (u\<lparr>us_dev := d\<rparr>) = usb_held u" using clock_keeps [of "us_dev u"] by (simp add: usb_held_def)
  with assms now read_loop_held [of k len "now + t" "u\<lparr>us_dev := d\<rparr>" b u'] take_held [of len u b u'] show ?thesis
    by (auto simp: usb_read_def split: if_splits)
qed

lemma usb_stream: "ordered_stream (usb_transport sh D) usb_held"
proof
  fix n d s b s'
  assume "t_read (usb_transport sh D) n d s = (Ok b, s')"
  then have "usb_read D (d + 1) n d s = Some (Ok b, s')" by (simp add: usb_transport_def split: option.splits)
  then show "usb_held s = b @ usb_held s' \<and> length b \<le> n" by (rule read_held)
next
  show "usb_held (snd (t_now (usb_transport sh D) s)) = usb_held s" for s
    using clock_keeps [of "us_dev s"] by (cases "ud_now D (us_dev s)") (simp add: usb_transport_def usb_held_def)
qed

end

section \<open>Waiting\<close>

text \<open>Time runs forward, and a transfer takes some.\<close>

locale usb_clock =
  fixes D :: "'d usb_dev" and time :: "'d \<Rightarrow> instant"
  assumes clock: "time d \<le> fst (ud_now D d)" "fst (ud_now D d) \<le> time (snd (ud_now D d))"
    and in_takes: "time d < time (snd (ud_in D n t d))"
    and out_forward: "time d \<le> time (snd (ud_out D b d))"
    and control_forward: "time d \<le> time (snd (ud_control D r v d))"
    and sleep_passes: "time d + t \<le> time (ud_sleep D t d)"
begin

definition utime :: "'d usb \<Rightarrow> instant" where
  "utime u = time (us_dev u)"

lemma absorb_time: "utime (snd (sbind (slift r) (absorb D) u)) = utime u"
  by (cases r) (simp_all add: absorb_def utime_def)

lemma take_time: "utime (snd (usb_take len u)) = utime u"
  by (simp add: usb_take_def utime_def Let_def)

lemma round_time:
  assumes "ud_now D (us_dev u) = (now, d)" and "usb_round D deadline u = (c, u2)"
  shows "utime u \<le> now" "now \<le> utime (u\<lparr>us_dev := d\<rparr>)" "now < utime u2"
proof -
  obtain d2 where "ud_in D (ud_max_packet D * 8) (min (deadline - now) (from_millis 200)) d = (c, d2)" "u2 = u\<lparr>us_dev := d2\<rparr>"
    using assms by (auto simp only: usb_round_def prod.case prod.inject split: prod.splits)
  with clock [of "us_dev u"] in_takes [of d "ud_max_packet D * 8" "min (deadline - now) (from_millis 200)"] assms(1)
  show "utime u \<le> now" "now \<le> utime (u\<lparr>us_dev := d\<rparr>)" "now < utime u2"
    by (simp_all add: utime_def)
qed

text \<open>The loop ends; it gives up empty-handed only when its deadline has passed.\<close>

lemma read_loop_ends:
  assumes "deadline - utime u < k"
  shows "\<exists>r u'. usb_read_loop D k len deadline u = Some (r, u') \<and> utime u \<le> utime u'
    \<and> (r = Ok [] \<longrightarrow> len = 0 \<or> deadline \<le> utime u')"
  using assms
proof (induction k arbitrary: u)
  case (Suc k)
  obtain now d where now: "ud_now D (us_dev u) = (now, d)" by fastforce
  obtain c u2 where c: "usb_round D deadline u = (c, u2)" by fastforce
  note round = usb_read_loop_round [OF now c, where k = k and len = len]
  note time = round_time [OF now c]
  show ?case
  proof (cases "now < deadline")
    case False
    with round(1) time show ?thesis by auto
  next
    case True
    have again: "\<exists>r u'. usb_read_loop D k len deadline u3 = Some (r, u') \<and> utime u \<le> utime u'
        \<and> (r = Ok [] \<longrightarrow> len = 0 \<or> deadline \<le> utime u')" if "utime u3 = utime u2" for u3
    proof -
      have "deadline - utime u3 < k" "utime u \<le> utime u3" using Suc.prems time True that by linarith+
      with Suc.IH [of u3] show ?thesis by force
    qed
    show ?thesis
    proof (cases "uc_status c")
      case XferOk
      let ?m = "sbind (slift (slice (uc_buffer c) 0 (uc_actual_len c))) (absorb D) u2"
      obtain r u3 where m: "?m = (r, u3)" by fastforce
      then have t3: "utime u3 = utime u2" using absorb_time [of "slice (uc_buffer c) 0 (uc_actual_len c)" u2] by simp
      show ?thesis
      proof (cases r)
        case (Inl e)
        have "usb_read_loop D (Suc k) len deadline u = Some (Inl e, u3)"
          using usb_read_loop_panic [OF now c True XferOk] m Inl by simp
        with t3 time show ?thesis by simp
      next
        case (Inr v)
        from round(2) [OF True XferOk] m Inr
        have step: "usb_read_loop D (Suc k) len deadline u
            = (if us_rx u3 \<noteq> [] then Some (usb_take len u3) else usb_read_loop D k len deadline u3)" by simp
        show ?thesis
        proof (cases "us_rx u3 = []")
          case True
          with step again [OF t3] show ?thesis by simp
        next
          case False
          have "fst (usb_take len u3) = Ok [] \<longrightarrow> len = 0" using False by (auto simp: usb_take_def Let_def)
          with step False take_time [of len u3] t3 time show ?thesis
            by (cases "usb_take len u3") simp
        qed
      qed
    next
      case (XferCancelled e)
      with round(3) [OF True XferCancelled] again [of u2] show ?thesis by simp
    next
      case (XferError e)
      with round(4) [OF True XferError] time show ?thesis by simp
    qed
  qed
qed simp

lemma usb_read_ends:
  "\<exists>r u'. usb_read D (timeout + 1) len timeout u = Some (r, u') \<and> utime u \<le> utime u'
    \<and> (r = Ok [] \<longrightarrow> len = 0 \<or> utime u + timeout \<le> utime u')"
proof (cases "us_rx u = []")
  case True
  obtain now d where now: "ud_now D (us_dev u) = (now, d)" by fastforce
  have t: "utime u \<le> now" "now \<le> utime (u\<lparr>us_dev := d\<rparr>)"
    using clock [of "us_dev u"] now by (simp_all add: utime_def)
  then have "now + timeout - utime (u\<lparr>us_dev := d\<rparr>) < timeout + 1" by simp
  from read_loop_ends [OF this, of len] obtain r u' where
    "usb_read_loop D (timeout + 1) len (now + timeout) (u\<lparr>us_dev := d\<rparr>) = Some (r, u')"
    "utime (u\<lparr>us_dev := d\<rparr>) \<le> utime u'" "r = Ok [] \<longrightarrow> len = 0 \<or> now + timeout \<le> utime u'" by blast
  with t True now show ?thesis by (auto simp: usb_read_def)
next
  case False
  then have "fst (usb_take len u) = Ok [] \<longrightarrow> len = 0" by (auto simp: usb_take_def Let_def)
  with False take_time [of len u] show ?thesis by (cases "usb_take len u") (simp add: usb_read_def)
qed

lemma usb_world: "world_clock (usb_transport sh D) utime"
proof
  fix s :: "'d usb" and b n t
  have ctl: "utime s \<le> utime (snd (usb_control D r v s))" for r v s
    using control_forward [of "us_dev s" r v] by (auto simp: usb_control_def utime_def split: prod.split option.split)
  show "utime s \<le> fst (t_now (usb_transport sh D) s)"
    "fst (t_now (usb_transport sh D) s) \<le> utime (snd (t_now (usb_transport sh D) s))"
    using clock [of "us_dev s"] by (cases "ud_now D (us_dev s)", simp add: usb_transport_def utime_def)+
  show "utime s \<le> utime (snd (t_write_all (usb_transport sh D) b s))"
    using out_forward [of "us_dev s" b]
    by (cases "ud_out D b (us_dev s)") (auto simp: usb_transport_def usb_write_all_def utime_def Let_def split: usb_status.split)
  show "utime s \<le> utime (snd (t_read (usb_transport sh D) n t s))"
    using usb_read_ends [of t n s] by (auto simp: usb_transport_def)
  show "utime s \<le> utime (snd (t_purge_rx (usb_transport sh D) s))"
    using ctl [of "s\<lparr>us_rx := []\<rparr>"] by (simp add: usb_transport_def usb_purge_rx_def utime_def)
  show "utime s \<le> utime (t_sleep (usb_transport sh D) t s)" "utime s + t \<le> utime (t_thread_sleep (usb_transport sh D) t s)"
    using sleep_passes [of "us_dev s" t] by (simp_all add: usb_transport_def utime_def)
qed

end

section \<open>A scripted device\<close>

text \<open>It delivers one transfer after the other, then status packets only; an ill-formed transfer is
  cancelled.\<close>

record mock_ftdi =
  mf_transfers :: "(bytes \<times> bytes) list list"
  mf_control :: "(u8 \<times> u16) list"
  mf_written :: "bytes list"
  mf_now :: instant

definition mock_ftdi_in :: "mock_ftdi \<Rightarrow> usb_completion \<times> mock_ftdi" where
  "mock_ftdi_in d =
     (let d1 = d\<lparr>mf_now := mf_now d + 1, mf_transfers := tl (mf_transfers d)\<rparr>;
          ps = (case mf_transfers d of [] \<Rightarrow> [([0x01, 0x60], [])] | ps # _ \<Rightarrow> ps) in
      if ftdi_packets 64 ps
      then (\<lparr>uc_status = XferOk, uc_actual_len = length (ftdi_data ps), uc_buffer = ftdi_data ps\<rparr>, d1)
      else (\<lparr>uc_status = XferCancelled [], uc_actual_len = 0, uc_buffer = []\<rparr>, d1))"

definition mock_ftdi_dev :: "mock_ftdi usb_dev" where
  "mock_ftdi_dev =
     \<lparr>ud_control = (\<lambda>r v d. (None, d\<lparr>mf_control := mf_control d @ [(r, v)]\<rparr>)),
      ud_out = (\<lambda>b d. (\<lparr>uc_status = XferOk, uc_actual_len = length b, uc_buffer = []\<rparr>,
                       d\<lparr>mf_written := mf_written d @ [b], mf_now := mf_now d + 1\<rparr>)),
      ud_in = (\<lambda>n t. mock_ftdi_in), ud_attach = (\<lambda>d. (None, d)), ud_max_packet = 64, ud_label = ''usb'',
      ud_now = (\<lambda>d. (mf_now d, d)), ud_sleep = (\<lambda>t d. d\<lparr>mf_now := mf_now d + t\<rparr>)\<rparr>"

definition mock_ftdi_pending :: "mock_ftdi \<Rightarrow> bytes" where
  "mock_ftdi_pending d = concat (map ftdi_payload (filter (ftdi_packets 64) (mf_transfers d)))"

interpretation mock_ftdi: ftdi mock_ftdi_dev mock_ftdi_pending
proof
  fix n t d c d' e
  show "2 < ud_max_packet mock_ftdi_dev" by (simp add: mock_ftdi_dev_def)
  show "mock_ftdi_pending (snd (ud_now mock_ftdi_dev d)) = mock_ftdi_pending d" by (simp add: mock_ftdi_dev_def)
  assume i: "ud_in mock_ftdi_dev n t d = (c, d')"
  have idle: "ftdi_packets 64 [([0x01, 0x60], [])]" "ftdi_payload [([0x01, 0x60], [])] = []"
    by (simp_all add: ftdi_packets_def ftdi_payload_def)
  show "mock_ftdi_pending d' = mock_ftdi_pending d" if "uc_status c = XferCancelled e"
    using i that idle
    by (cases "mf_transfers d") (auto simp: mock_ftdi_dev_def mock_ftdi_in_def mock_ftdi_pending_def Let_def split: if_splits)
  show "\<exists>ps. uc_actual_len c \<le> length (uc_buffer c) \<and> take (uc_actual_len c) (uc_buffer c) = ftdi_data ps
      \<and> ftdi_packets (ud_max_packet mock_ftdi_dev) ps \<and> mock_ftdi_pending d = ftdi_payload ps @ mock_ftdi_pending d'"
    if "uc_status c = XferOk"
    using i that idle
    by (intro exI [of _ "case mf_transfers d of [] \<Rightarrow> [([0x01, 0x60], [])] | ps # _ \<Rightarrow> ps"], cases "mf_transfers d")
      (auto simp: mock_ftdi_dev_def mock_ftdi_in_def mock_ftdi_pending_def Let_def split: if_splits)
qed

interpretation mock_ftdi_time: usb_clock mock_ftdi_dev mf_now
  by unfold_locales (simp_all add: mock_ftdi_dev_def mock_ftdi_in_def Let_def)

section \<open>Properties\<close>


definition split_frame :: "mock_ftdi usb" where
  "split_frame = \<lparr>us_dev = \<lparr>mf_transfers = [[([1, 96], [])], [([1, 96], [4, 0, 9, 13, 77])]], mf_control = [],
     mf_written = [], mf_now = 0\<rparr>, us_rx = []\<rparr>"

lemma split_frame_loop:
  "usb_read mock_ftdi_dev (Suc (Suc k)) 2 5 split_frame = Some (Ok [4, 0],
     \<lparr>us_dev = \<lparr>mf_transfers = [], mf_control = [], mf_written = [], mf_now = 2\<rparr>, us_rx = [9, 13, 77]\<rparr>)"
proof -
  have idle: "ftdi_packets 64 [([1, 96], [])]" "ftdi_data [([1, 96], [])] = [1, 96]"
    and last: "ftdi_packets 64 [([1, 96], [4, 0, 9, 13, 77])]" "ftdi_data [([1, 96], [4, 0, 9, 13, 77])] = [1, 96, 4, 0, 9, 13, 77]"
    by (simp_all add: ftdi_packets_def ftdi_data_def)
  have chunk: "chunks_of 64 xs = [xs]" if "xs \<noteq> []" "length xs \<le> 64" for xs :: bytes
    using that by (simp add: chunks_of.simps [of _ xs] chunks_of.simps [of _ "[]"])
  show ?thesis
    by (simp add: usb_read_def split_frame_def mock_ftdi_dev_def usb_read_loop.simps(2) mock_ftdi_in_def Let_def idle last
        slice_def absorb_def chunk usb_take_def)
qed


text \<open>C24: A read over USB always returns, whatever the chip answers, when transfers take time: each
  round starts a transfer, and an empty read means that the whole timeout has passed.\<close>
theorem usb_read_returns:
  assumes "usb_clock D time"
  shows "\<exists>r u'. usb_read D (timeout + 1) len timeout u = Some (r, u')
    \<and> (r = Ok [] \<longrightarrow> len = 0 \<or> time (us_dev u) + timeout \<le> time (us_dev u'))"
  using usb_clock.usb_read_ends [OF assms, of timeout len u] by (auto simp: usb_clock.utime_def [OF assms])

lemma usb_read_returns_witness:
  "\<exists>r u'. usb_read mock_ftdi_dev 4 9 3 (split_frame\<lparr>us_dev := (us_dev split_frame)\<lparr>mf_transfers := []\<rparr>\<rparr>) = Some (r, u')"
  using usb_read_returns [OF mock_ftdi_time.usb_clock_axioms, of 3 9] by force

text \<open>An opened cable is the first on the bus that matches, and has been reset and set to 115200 8N1,
  in this order.\<close>

theorem usb_open_configures:
  assumes "usb_open (Inr infos) claim serial = Ok (D, u)"
  shows "\<exists>i D0 d d1 d2. find (usb_matches serial) infos = Some i \<and> claim i = Inr (D0, d)
    \<and> D = D0\<lparr>ud_label := usb_label i\<rparr> \<and> us_rx u = []
    \<and> ud_control D0 0 0 d = (None, d1) \<and> ud_control D0 3 0x1a d1 = (None, d2) \<and> ud_control D0 4 8 d2 = (None, us_dev u)"
proof -
  from assms obtain i D0 d where i: "find (usb_matches serial) infos = Some i" "claim i = Inr (D0, d)"
    and D: "D = D0\<lparr>ud_label := usb_label i\<rparr>"
    and m: "sbind (usb_control D 0 0) (\<lambda>_. sbind (usb_control D 3 0x1a) (\<lambda>_. usb_control D 4 8))
      \<lparr>us_dev = d, us_rx = []\<rparr> = (Ok (), u)"
    by (auto simp: usb_open_def sio Let_def split: option.splits sum.splits prod.splits fault.splits)
  from m obtain u1 u2 where "usb_control D 0 0 \<lparr>us_dev = d, us_rx = []\<rparr> = (Ok (), u1)"
    "usb_control D 3 0x1a u1 = (Ok (), u2)" "usb_control D 4 8 u2 = (Ok (), u)"
    by (auto simp: sbind_eq_Ok)
  with i D show ?thesis
    by (auto simp: usb_control_def split: prod.splits option.splits)
qed

end
