(* ===== verification/Bridge.thy ===== *)
theory Bridge
  imports Net Serial Usb
begin

text \<open>
  The two ends of the network bridge beyond one connection: \<open>TcpTransport::connect\<close> and
  \<open>connect_timeout\<close> of \<open>rmvci-net/src/client.rs\<close>, the server's accept loop \<open>serve\<close> of
  \<open>server.rs\<close>, and the program \<open>rmvci-net/src/bin/rmvci-bridge.rs\<close> around it. What the socket calls
  answer is an argument: the outcome of each connect, of the bind, and the clients of a listener
  with the bytes each of them sends.
\<close>

section \<open>Connecting\<close>

text \<open>The stream of a connection that was made leads to the server of a cable; the client's hello goes
  through it and its answer comes back. The socket options' own errors are not in the model.\<close>

definition tcp_handshake :: "net_env \<Rightarrow> 's transport \<Rightarrow> 's \<Rightarrow> ('s bridge, transport_error) res" where
  "tcp_handshake N T cable =
     (case serve_connection N T hello cable of (out, _, cable1) \<Rightarrow>
        rbind (handshake out) (\<lambda>_. Ok \<lparr>br_cable = cable1, br_up = True\<rparr>))"

definition tcp_connect :: "net_env \<Rightarrow> 's transport \<Rightarrow> io_error_kind \<times> string + 's \<Rightarrow> ('s bridge, transport_error) res" where
  "tcp_connect N T dialled =
     (case dialled of Inl (k, e) \<Rightarrow> Err (Io k e) | Inr cable \<Rightarrow> tcp_handshake N T cable)"

fun connect_each :: "net_env \<Rightarrow> 's transport \<Rightarrow> string option \<Rightarrow> (string + 's) list \<Rightarrow> ('s bridge, transport_error) res" where
  "connect_each N T last_err [] =
     Err (net_err (case last_err of Some e \<Rightarrow> e | None \<Rightarrow> ''no socket addresses resolved''))"
| "connect_each N T last_err (Inr cable # addrs) = tcp_handshake N T cable"
| "connect_each N T last_err (Inl e # addrs) = connect_each N T (Some e) addrs"

definition tcp_connect_timeout :: "net_env \<Rightarrow> 's transport \<Rightarrow> io_error_kind \<times> string + (string + 's) list
    \<Rightarrow> ('s bridge, transport_error) res" where
  "tcp_connect_timeout N T resolved =
     (case resolved of Inl (k, e) \<Rightarrow> Err (Io k e) | Inr addrs \<Rightarrow> connect_each N T None addrs)"

section \<open>Serving\<close>

text \<open>The accept loop on what the listener gives, an error or a client: what each client was sent, how
  the loop ended, and the cable. The end of the list is the end of the observation; the listener of
  the standard library never ends.\<close>

fun serve :: "net_env \<Rightarrow> 's transport \<Rightarrow> (string + bytes) list \<Rightarrow> 's \<Rightarrow> bytes list \<times> (unit, transport_error) res \<times> 's" where
  "serve N T [] io = ([], Ok (), io)"
| "serve N T (Inl e # conns) io = serve N T conns io"
| "serve N T (Inr input # conns) io =
     (case serve_connection N T input io of (out, r, io1) \<Rightarrow>
        if r = panic then ([out], panic, io1)
        else case serve N T conns io1 of (outs, q, io2) \<Rightarrow> (out # outs, q, io2))"

section \<open>The program\<close>

datatype backend = UsbBackend "string option" | SerialBackend string

record bridge_args =
  ba_backend :: backend
  ba_listen :: string

definition BRIDGE_USAGE :: string where
  "BRIDGE_USAGE = ''usage: rmvci-bridge [--usb [SERIAL] | --serial PATH] [--listen ADDR:PORT]''"

definition bridge_args_default :: bridge_args where
  "bridge_args_default = \<lparr>ba_backend = UsbBackend None, ba_listen = ''0.0.0.0:6979''\<rparr>"

text \<open>\<open>q\<close> prints a string the way \<open>{:?}\<close> does.\<close>

fun bridge_args_from :: "(string \<Rightarrow> string) \<Rightarrow> bridge_args \<Rightarrow> string list \<Rightarrow> string + bridge_args" where
  "bridge_args_from q acc [] = Inr acc"
| "bridge_args_from q acc (a # rest) =
     (if a = ''--usb'' then
        (case rest of
           [] \<Rightarrow> bridge_args_from q (acc\<lparr>ba_backend := UsbBackend None\<rparr>) []
         | s # rest1 \<Rightarrow>
             if take 1 s = ''-'' then bridge_args_from q (acc\<lparr>ba_backend := UsbBackend None\<rparr>) rest
             else bridge_args_from q (acc\<lparr>ba_backend := UsbBackend (Some s)\<rparr>) rest1)
      else if a = ''--serial'' then
        (case rest of
           [] \<Rightarrow> Inl ''--serial needs a device path''
         | p # rest1 \<Rightarrow> bridge_args_from q (acc\<lparr>ba_backend := SerialBackend p\<rparr>) rest1)
      else if a = ''--listen'' then
        (case rest of
           [] \<Rightarrow> Inl ''--listen needs ADDR:PORT''
         | l # rest1 \<Rightarrow> bridge_args_from q (acc\<lparr>ba_listen := l\<rparr>) rest1)
      else if a = ''--help'' \<or> a = ''-h'' then Inl BRIDGE_USAGE
      else Inl (''unexpected argument '' @ q a @ [CHR 0x0A] @ BRIDGE_USAGE))"

definition bridge_parse_args :: "(string \<Rightarrow> string) \<Rightarrow> string list \<Rightarrow> string + bridge_args" where
  "bridge_parse_args q args = bridge_args_from q bridge_args_default args"

text \<open>What the program meets: the text of a failing bind, the opened backends, the clients.\<close>

record ('u, 's) bridge_world =
  bw_bind :: "string \<Rightarrow> string option"
  bw_open_usb :: "string option \<Rightarrow> ('u usb_dev \<times> 'u usb, transport_error) res"
  bw_open_serial :: "string \<Rightarrow> ('s serial_dev \<times> 's, transport_error) res"
  bw_clients :: "(string + bytes) list"

definition bridge_run :: "(string \<Rightarrow> string) \<Rightarrow> net_env \<Rightarrow> ('u, 's) bridge_world \<Rightarrow> string list
    \<Rightarrow> bytes list \<times> (unit, string) res" where
  "bridge_run q N W args =
     (case bridge_parse_args q args of
        Inl e \<Rightarrow> ([], Err e)
      | Inr a \<Rightarrow> (case bw_bind W (ba_listen a) of
          Some e \<Rightarrow> ([], Err (''bind '' @ ba_listen a @ '': '' @ e))
        | None \<Rightarrow> (case ba_backend a of
            UsbBackend serial \<Rightarrow> (case bw_open_usb W serial of
                Inl e \<Rightarrow> ([], map_err (\<lambda>e. ''open USB cable: '' @ ne_show N e) (Inl e))
              | Inr (D, u) \<Rightarrow> (case serve N (usb_transport (ne_show N) D) (bw_clients W) u of
                  (outs, r, _) \<Rightarrow> (outs, map_err (ne_show N) r)))
          | SerialBackend path \<Rightarrow> (case bw_open_serial W path of
                Inl e \<Rightarrow> ([], map_err (\<lambda>e. ''open serial '' @ path @ '': '' @ ne_show N e) (Inl e))
              | Inr (D, d) \<Rightarrow> (case serve N (serial_transport D) (bw_clients W) d of
                  (outs, r, _) \<Rightarrow> (outs, map_err (ne_show N) r))))))"

section \<open>Lemmas\<close>

text \<open>The first address that answers is the one used; only when none does is the last error told.\<close>

lemma connect_each_first:
  "connect_each N T l (map Inl es @ Inr cable # addrs) = tcp_handshake N T cable"
  "connect_each N T l (map Inl es) = Err (net_err (case es of [] \<Rightarrow> (case l of Some e \<Rightarrow> e | None \<Rightarrow> ''no socket addresses resolved'')
     | _ \<Rightarrow> last es))"
  by (induction es arbitrary: l) (auto split: list.split)

text \<open>A client and a server of this protocol version agree; the cable is not touched by connecting.\<close>

lemma tcp_handshake_ok: "tcp_handshake N T cable = Ok \<lparr>br_cable = cable, br_up = True\<rparr>"
  by (simp add: tcp_handshake_def serve_connection_def hello_def MAGIC_def VERSION_def handshake_def
      serve_loop.simps [of _ _ "[]"] net_read_frame_def)

text \<open>Failed accepts change nothing.\<close>

lemma serve_skips: "serve N T conns io = serve N T (filter (\<lambda>c. \<not> isl c) conns) io"
  by (induction N T conns io rule: serve.induct) (auto split: prod.split)

text \<open>Accepting one client after the other is accepting them in two batches.\<close>

lemma serve_append:
  "serve N T (xs @ ys) io =
     (case serve N T xs io of (outs, r, io1) \<Rightarrow>
        if r = panic then (outs, panic, io1)
        else case serve N T ys io1 of (outs', q, io2) \<Rightarrow> (outs @ outs', q, io2))"
  by (induction N T xs io rule: serve.induct) (auto split: prod.split)

text \<open>An optional USB serial is what follows \<open>--usb\<close> unless it looks like an option.\<close>

lemma bridge_args_examples:
  "bridge_parse_args q [] = Inr bridge_args_default"
  "bridge_parse_args q [''--usb'', ''A69QL5OE'', ''--listen'', ''[::]:7000'']
     = Inr \<lparr>ba_backend = UsbBackend (Some ''A69QL5OE''), ba_listen = ''[::]:7000''\<rparr>"
  "bridge_parse_args q [''--usb'', ''--serial'', ''/dev/ttyUSB0''] = Inr (bridge_args_default\<lparr>ba_backend := SerialBackend ''/dev/ttyUSB0''\<rparr>)"
  "bridge_parse_args q [''--listen''] = Inl ''--listen needs ADDR:PORT''"
  by (simp_all add: bridge_parse_args_def bridge_args_default_def)

end
