(* ===== verification/Android.thy ===== *)
theory Android
  imports Jni Handles Bridge
begin

text \<open>
  The library of the Android app, \<open>rmvci-android/src/lib.rs\<close>: the exported entry points over a
  table of boxes. \<open>'d session\<close> is what a handle points at, a device over its Java port and the one
  cached ISO-TP channel with the identifiers it was opened for; \<open>'d android\<close> holds the boxes by
  address, the stop flags of the bridges and the last error. An entry point gives a \<open>native\<close>
  outcome: a value for Java, an abort (a panic in an \<open>extern\<close> function), or undefined behaviour (a
  h that points at no box). The calls of the JNI environment, the allocator's next address
  and the socket calls are parameters, as are the error texts.
\<close>

type_synonym jint = "32 word"

record 'd session =
  se_java :: "'d java"
  se_device :: "'d jni device"
  se_tp :: "((jint \<times> jint \<times> jint) \<times> isotp) option"

record 'd android =
  al_sessions :: "int \<rightharpoonup> 'd session"
  al_bridges :: "int \<rightharpoonup> nat"
  al_flags :: "bool list"
  al_last_error :: string

text \<open>The build, the cipher and the texts of errors, and one call's view of the JNI environment.\<close>

record android_env =
  an_dbg :: bool
  an_enc :: "bytes \<Rightarrow> bytes \<Rightarrow> bytes"
  an_dec :: "bytes \<Rightarrow> bytes \<Rightarrow> bytes"
  an_io_text :: "transport_error \<Rightarrow> string"
  an_text :: "error \<Rightarrow> string"
  an_lossy :: "bytes \<Rightarrow> string"

record jni_call =
  jc_vm :: "string option"
  jc_port_ref :: "string option"
  jc_connection_ref :: bool
  jc_convert :: "string + bytes"
  jc_new_string :: "string option"
  jc_new_array :: "string option"

datatype 'a native = Returned 'a | Aborted | Undefined

definition session_env :: "android_env \<Rightarrow> 'd java \<Rightarrow> 'd jni env" where
  "session_env A D =
     \<lparr>ev_dbg = an_dbg A, ev_enc = an_enc A, ev_dec = an_dec A, ev_io = jni_transport (an_io_text A) D\<rparr>"

definition set_err :: "string \<Rightarrow> 'd android \<Rightarrow> 'd android" where
  "set_err msg st = st\<lparr>al_last_error := msg\<rparr>"

definition android_can_id :: "jint \<Rightarrow> can_id" where
  "android_can_id raw =
     (if raw AND 0x80000000 \<noteq> 0 then Ext (raw AND 0x1fffffff) else Std (ucast (raw AND 0x7ff)))"

section \<open>Sessions\<close>

text \<open>The Java side of a transport without a reference to the connection makes no control transfer.\<close>

definition java_of :: "jni_call \<Rightarrow> 'd java \<Rightarrow> 'd java" where
  "java_of J D = (if jc_connection_ref J then D else D\<lparr>jv_control_transfer := None\<rparr>)"

definition android_open :: "android_env \<Rightarrow> jni_call \<Rightarrow> int \<Rightarrow> 'd java \<Rightarrow> 'd \<Rightarrow> 'd android \<Rightarrow> int native \<times> 'd android" where
  "android_open A J addr D vm st =
     (case jc_vm J of
        Some e \<Rightarrow> (Returned 0, set_err (''get_java_vm: '' @ e) st)
      | None \<Rightarrow> (case jc_port_ref J of
          Some e \<Rightarrow> (Returned 0, set_err (''global ref for port: '' @ e) st)
        | None \<Rightarrow> (case fst (open_transport (session_env A (java_of J D)) None (jni_new vm)) of
            Inl Panic \<Rightarrow> (Aborted, st)
          | Inl (Fail e) \<Rightarrow> (Returned 0, set_err (''open: '' @ an_text A e) st)
          | Inr d \<Rightarrow>
              (Returned addr, st\<lparr>al_sessions := (al_sessions st)(addr \<mapsto>
                 \<lparr>se_java = java_of J D, se_device = d, se_tp = None\<rparr>)\<rparr>))))"

text \<open>\<open>session\<close>: null is refused, anything else is dereferenced.\<close>

definition session_at :: "int \<Rightarrow> 'd android \<Rightarrow> 'a option native \<times> 'd android + 'd session" where
  "session_at h st =
     (if h = 0 then Inl (Returned None, set_err ''null handle'' st)
      else case al_sessions st h of
        None \<Rightarrow> Inl (Undefined, st)
      | Some s \<Rightarrow> Inr s)"

definition put_session :: "int \<Rightarrow> 'd session \<Rightarrow> 'd android \<Rightarrow> 'd android" where
  "put_session h s st = st\<lparr>al_sessions := (al_sessions st)(h \<mapsto> s)\<rparr>"

definition android_firmware_version :: "android_env \<Rightarrow> jni_call \<Rightarrow> int \<Rightarrow> 'd android \<Rightarrow> string option native \<times> 'd android" where
  "android_firmware_version A J h st =
     (case session_at h st of
        Inl refused \<Rightarrow> refused
      | Inr s \<Rightarrow> (case firmware_version (session_env A (se_java s)) (se_device s) of (r, d) \<Rightarrow>
         let st = put_session h (s\<lparr>se_device := d\<rparr>) st in
         (case r of
            Inr v \<Rightarrow> (case jc_new_string J of
                None \<Rightarrow> (Returned (Some (an_lossy A v)), st)
              | Some e \<Rightarrow> (Returned None, set_err (''new_string: '' @ e) st))
          | Inl (Fail e) \<Rightarrow> (Returned None, set_err (''firmware_version: '' @ an_text A e) st)
          | Inl Panic \<Rightarrow> (Aborted, st))))"

section \<open>Requests\<close>

definition request_config :: "jint \<Rightarrow> jint \<Rightarrow> jint \<Rightarrow> isotp_config" where
  "request_config tx_id rx_id ext_addr =
     (let cfg = isotp_config_new (android_can_id tx_id) (android_can_id rx_id) in
      if 0 \<le> sint ext_addr \<and> sint ext_addr \<le> 255 then config_ext_addr (ucast ext_addr) cfg else cfg)"

text \<open>The device without the cached channel, and the channel a request runs on: the cached one when
  it is for the same identifiers; otherwise that one goes first and a new one is opened.\<close>

definition drop_cached :: "android_env \<Rightarrow> 'd session \<Rightarrow> 'd jni device" where
  "drop_cached A s =
     (case se_tp s of
        None \<Rightarrow> se_device s
      | Some (_, tp) \<Rightarrow> raw_drop (session_env A (se_java s)) (se_device s) (chan_of tp))"

definition open_channel :: "android_env \<Rightarrow> jint \<times> jint \<times> jint \<Rightarrow> 'd session \<Rightarrow> (isotp, error) res \<times> 'd session" where
  "open_channel A key s =
     (case key of (tx_id, rx_id, ext_addr) \<Rightarrow>
      case isotp_new (session_env A (se_java s)) (request_config tx_id rx_id ext_addr) FirmwarePath (drop_cached A s) of
        (r, d) \<Rightarrow> (r, s\<lparr>se_device := d, se_tp := (case r of Inr tp \<Rightarrow> Some (key, tp) | Inl _ \<Rightarrow> None)\<rparr>))"

definition request_channel :: "android_env \<Rightarrow> jint \<times> jint \<times> jint \<Rightarrow> 'd session \<Rightarrow> (isotp, error) res \<times> 'd session" where
  "request_channel A key s =
     (case se_tp s of
        Some (k, tp) \<Rightarrow> if k = key then (Ok tp, s) else open_channel A key s
      | None \<Rightarrow> open_channel A key s)"

definition request_timeout :: "jint \<Rightarrow> duration" where
  "request_timeout timeout_ms = from_millis (nat (max 1 (sint timeout_ms)))"

text \<open>\<open>k\<close> is the fuel of the ISO-TP request; the outer \<open>None\<close> is fuel exhausted.\<close>

definition android_request :: "android_env \<Rightarrow> jni_call \<Rightarrow> nat \<Rightarrow> int \<Rightarrow> jint \<times> jint \<times> jint \<Rightarrow> jint \<Rightarrow> 'd android
    \<Rightarrow> (bytes option native \<times> 'd android) option" where
  "android_request A J k h key timeout_ms st =
     (case session_at h st of
        Inl refused \<Rightarrow> Some refused
      | Inr s \<Rightarrow> (case jc_convert J of
          Inl e \<Rightarrow> Some (Returned None, set_err (''convert request bytes: '' @ e) st)
        | Inr request \<Rightarrow> (case request_channel A key s of
            (Inl Panic, s1) \<Rightarrow> Some (Aborted, put_session h s1 st)
          | (Inl (Fail e), s1) \<Rightarrow>
              Some (Returned None, set_err (''open ISO15765 channel: '' @ an_text A e) (put_session h s1 st))
          | (Inr tp, s1) \<Rightarrow>
              (case isotp_request (session_env A (se_java s1)) k request (request_timeout timeout_ms) (se_device s1, tp) of
                 None \<Rightarrow> None
               | Some (r, (d, tp1)) \<Rightarrow>
                   let st = put_session h (s1\<lparr>se_device := d, se_tp := Some (key, tp1)\<rparr>) st in
                   (case r of
                      Inr resp \<Rightarrow> (case jc_new_array J of
                          None \<Rightarrow> Some (Returned (Some resp), st)
                        | Some e \<Rightarrow> Some (Returned None, set_err (''reply bytes: '' @ e) st))
                    | Inl (Fail e) \<Rightarrow> Some (Returned None, set_err (''request: '' @ an_text A e) st)
                    | Inl Panic \<Rightarrow> Some (Aborted, st))))))"

section \<open>Closing\<close>

text \<open>The value carries the device as it was left: the channel goes first, then the device is closed.\<close>

definition close_session :: "android_env \<Rightarrow> 'd session \<Rightarrow> 'd jni device" where
  "close_session A s = snd (dev_close (session_env A (se_java s)) (drop_cached A s))"

definition android_close :: "android_env \<Rightarrow> int \<Rightarrow> 'd android \<Rightarrow> 'd jni device option native \<times> 'd android" where
  "android_close A h st =
     (if h = 0 then (Returned None, st)
      else case al_sessions st h of
        None \<Rightarrow> (Undefined, st)
      | Some s \<Rightarrow> (Returned (Some (close_session A s)), st\<lparr>al_sessions := (al_sessions st)(h := None)\<rparr>))"

definition android_last_error :: "jni_call \<Rightarrow> 'd android \<Rightarrow> string option native" where
  "android_last_error J st = Returned (if jc_new_string J = None then Some (al_last_error st) else None)"

section \<open>The bridge\<close>

text \<open>The socket calls: binding a port, and switching a listener to polling.\<close>

record net_calls =
  nc_bind :: "u16 \<Rightarrow> string option"
  nc_nonblocking :: "string option"

text \<open>Starting a bridge spawns the accept loop with a fresh flag, which \<open>stopBridge\<close> sets.\<close>

definition start_bridge :: "jni_call \<Rightarrow> net_calls \<Rightarrow> int \<Rightarrow> jint \<Rightarrow> 'd android \<Rightarrow> int native \<times> 'd android" where
  "start_bridge J C addr tcp_port st =
     (case jc_vm J of
        Some e \<Rightarrow> (Returned 0, set_err (''get_java_vm: '' @ e) st)
      | None \<Rightarrow> (case jc_port_ref J of
          Some e \<Rightarrow> (Returned 0, set_err (''global ref for port: '' @ e) st)
        | None \<Rightarrow> (case nc_bind C (ucast tcp_port) of
            Some e \<Rightarrow> (Returned 0, set_err (''bind 0.0.0.0:'' @ show_int (sint tcp_port) @ '': '' @ e
                        @ '' (is INTERNET permission set?)'') st)
          | None \<Rightarrow> (case nc_nonblocking C of
              Some e \<Rightarrow> (Returned 0, set_err (''set_nonblocking: '' @ e) st)
            | None \<Rightarrow> (Returned addr, st\<lparr>al_bridges := (al_bridges st)(addr \<mapsto> length (al_flags st)),
                                       al_flags := al_flags st @ [False]\<rparr>)))))"

definition stop_bridge :: "int \<Rightarrow> 'd android \<Rightarrow> unit native \<times> 'd android" where
  "stop_bridge h st =
     (if h = 0 then (Returned (), st)
      else case al_bridges st h of
        None \<Rightarrow> (Undefined, st)
      | Some i \<Rightarrow> (Returned (), st\<lparr>al_bridges := (al_bridges st)(h := None), al_flags := (al_flags st)[i := True]\<rparr>))"

text \<open>The accept loop on what each of its rounds meets: the flag, then the listener. A client is given
  by the error of making its stream blocking and the bytes it sends. The result tells whether the
  loop ended, what each served client was sent, and the transport.\<close>

datatype accepted = Client "string option" bytes | NoClient | AcceptFailed string

fun bridge_loop :: "net_env \<Rightarrow> 's transport \<Rightarrow> (bool \<times> accepted) list \<Rightarrow> 's \<Rightarrow> bool \<times> bytes list \<times> 's" where
  "bridge_loop N T [] io = (False, [], io)"
| "bridge_loop N T ((told, acc) # rounds) io =
     (if told then (True, [], io)
      else case acc of
        Client (Some e) input \<Rightarrow> bridge_loop N T rounds io
      | Client None input \<Rightarrow>
          (case serve_connection N T input io of (out, r, io1) \<Rightarrow>
             if r = panic then (True, [out], io1)
             else case bridge_loop N T rounds io1 of (ended, outs, io2) \<Rightarrow> (ended, out # outs, io2))
      | NoClient \<Rightarrow> bridge_loop N T rounds (t_thread_sleep T (from_millis 100) io)
      | AcceptFailed e \<Rightarrow> (True, [], io))"

section \<open>The boxes\<close>

text \<open>A box holds its device's handle and, where a channel is cached, that channel's.\<close>

definition session_ok :: "'d session \<Rightarrow> bool" where
  "session_ok s \<longleftrightarrow> dv_handles (se_device s) = 1 + (if se_tp s = None then 0 else 1)"

definition android_ok :: "'d android \<Rightarrow> bool" where
  "android_ok st \<longleftrightarrow> (\<forall>h s. al_sessions st h = Some s \<longrightarrow> h \<noteq> 0 \<and> session_ok s)"

text \<open>Any sequence of calls; the allocator never gives null or an address in use.\<close>

inductive android_run :: "android_env \<Rightarrow> 'd android \<Rightarrow> bool" for A :: android_env where
  init: "android_run A \<lparr>al_sessions = Map.empty, al_bridges = Map.empty, al_flags = [], al_last_error = []\<rparr>"
| opened: "android_run A st \<Longrightarrow> addr \<noteq> 0 \<Longrightarrow> al_sessions st addr = None
    \<Longrightarrow> android_open A J addr D vm st = (Returned v, st') \<Longrightarrow> android_run A st'"
| version: "android_run A st \<Longrightarrow> android_firmware_version A J h st = (Returned u, st') \<Longrightarrow> android_run A st'"
| request: "android_run A st \<Longrightarrow> android_request A J k h key ms st = Some (Returned w, st') \<Longrightarrow> android_run A st'"
| close: "android_run A st \<Longrightarrow> android_close A h st = (Returned x, st') \<Longrightarrow> android_run A st'"
| bridge: "android_run A st \<Longrightarrow> start_bridge J C addr port st = (Returned v, st') \<Longrightarrow> android_run A st'"
| stopped: "android_run A st \<Longrightarrow> stop_bridge h st = (Returned y, st') \<Longrightarrow> android_run A st'"

lemma drop_cached_handles: "session_ok s \<Longrightarrow> dv_handles (drop_cached A s) = 1"
  by (auto simp: session_ok_def drop_cached_def raw_drop_handles split: option.splits)

lemma open_channel_ok:
  assumes "session_ok s" and "open_channel A key s = (r, s')" and "r \<noteq> panic"
  shows "session_ok s'"
proof -
  obtain tx rx ext where key: "key = (tx, rx, ext)" by (cases key)
  obtain q d where q: "isotp_new (session_env A (se_java s)) (request_config tx rx ext) FirmwarePath (drop_cached A s) = (q, d)"
    by fastforce
  with assms(2) key have s': "r = q" "s' = s\<lparr>se_device := d, se_tp := (case q of Inr tp \<Rightarrow> Some (key, tp) | Inl _ \<Rightarrow> None)\<rparr>"
    by (auto simp: open_channel_def)
  from isotp_new_handles [OF q] s'(1) assms(3) drop_cached_handles [OF assms(1)]
  have "dv_handles d = 1 + (case q of Inr _ \<Rightarrow> 1 | Inl _ \<Rightarrow> 0)" by simp
  with s'(2) show ?thesis by (cases q) (simp_all add: session_ok_def)
qed

lemma request_channel_ok:
  assumes "session_ok s" and "request_channel A key s = (r, s')" and "r \<noteq> panic"
  shows "session_ok s' \<and> (\<forall>tp. r = Ok tp \<longrightarrow> se_tp s' \<noteq> None)"
proof (cases "\<exists>tp. se_tp s = Some (key, tp)")
  case True
  with assms show ?thesis by (cases key) (auto simp: request_channel_def)
next
  case False
  then have o: "open_channel A key s = (r, s')" using assms(2)
    by (auto simp: request_channel_def split: option.splits if_splits)
  moreover from o have "\<forall>tp. r = Ok tp \<longrightarrow> se_tp s' \<noteq> None"
    by (auto simp: open_channel_def split: prod.splits)
  ultimately show ?thesis using open_channel_ok [OF assms(1) o assms(3)] by blast
qed

lemma put_session_ok: "android_ok st \<Longrightarrow> h \<noteq> 0 \<Longrightarrow> session_ok s \<Longrightarrow> android_ok (put_session h s st)"
  by (auto simp: android_ok_def put_session_def)

lemma set_err_sessions [simp]: "al_sessions (set_err m st) = al_sessions st"
  by (simp add: set_err_def)

lemma put_session_sessions [simp]: "al_sessions (put_session h s st) = (al_sessions st)(h \<mapsto> s)"
  by (simp add: put_session_def)

lemma android_ok_cong: "al_sessions st' = al_sessions st \<Longrightarrow> android_ok st' = android_ok st"
  by (simp add: android_ok_def)

lemma set_err_ok [simp]: "android_ok (set_err m st) = android_ok st"
  by (rule android_ok_cong) simp

text \<open>What a request that returns leaves in the boxes: the session it ran on, and a channel for its key
  when it has a reply.\<close>

lemma android_request_box:
  assumes "android_ok st" and "android_request A J k h key ms st = Some (Returned w, st')"
  shows "android_ok st' \<and> (\<forall>g. g \<noteq> h \<longrightarrow> al_sessions st' g = al_sessions st g)
    \<and> (w \<noteq> None \<longrightarrow> (\<exists>s tp. al_sessions st' h = Some s \<and> se_tp s = Some (key, tp)))"
proof (cases "h \<noteq> 0 \<and> al_sessions st h \<noteq> None")
  case False
  with assms show ?thesis by (auto simp: android_request_def session_at_def split: if_splits)
next
  case True
  then obtain s where box: "h \<noteq> 0" "al_sessions st h = Some s" by auto
  then have Inr: "session_at h st = (Inr s :: bytes option native \<times> 'a android + 'a session)" by (simp add: session_at_def)
  from box assms(1) have ok: "session_ok s" by (simp add: android_ok_def)
  show ?thesis
  proof (cases "jc_convert J")
    case (Inl e)
    with assms Inr show ?thesis by (auto simp: android_request_def)
  next
    case req: (Inr req)
    obtain r s1 where c: "request_channel A key s = (r, s1)" by fastforce
    note run = assms(2) [unfolded android_request_def Inr req c sum.case prod.case]
    show ?thesis
    proof (cases r)
      case (Inl f)
      with run have f: "r \<noteq> panic" "w = None" "\<exists>m. st' = set_err m (put_session h s1 st)"
        by (auto split: fault.splits)
      moreover have "android_ok (put_session h s1 st)"
        using request_channel_ok [OF ok c f(1)] put_session_ok [OF assms(1) box(1)] by blast
      ultimately show ?thesis by auto
    next
      case tp: (Inr tp)
      with run obtain y d tp1 where y: "isotp_request (session_env A (se_java s1)) k req (request_timeout ms) (se_device s1, tp)
          = Some (y, (d, tp1))"
        by (auto split: option.splits)
      define s2 where "s2 = s1\<lparr>se_device := d, se_tp := Some (key, tp1)\<rparr>"
      have "dv_handles d = dv_handles (se_device s1)" using isotp_request_handles [OF y] by simp
      with request_channel_ok [OF ok c] tp have s2: "session_ok s2" by (auto simp: session_ok_def s2_def)
      from run y tp have "st' = put_session h s2 st \<or> (\<exists>m. st' = set_err m (put_session h s2 st))"
        by (auto simp: s2_def Let_def split: sum.splits fault.splits option.splits)
      moreover have "android_ok (put_session h s2 st)" by (rule put_session_ok [OF assms(1) box(1) s2])
      ultimately show ?thesis by (auto simp: s2_def)
    qed
  qed
qed

lemma open_handles: "open_transport E ka s = (Ok d, s') \<Longrightarrow> dv_handles d = 1"
  by (auto simp: open_transport_def split: prod.splits sum.splits fault.splits)

lemma android_run_ok: "android_run A st \<Longrightarrow> android_ok st"
proof (induction rule: android_run.induct)
  case init
  show ?case by (simp add: android_ok_def)
next
  case (opened st addr J D vm v st')
  obtain r s where r: "open_transport (session_env A (java_of J D)) None (jni_new vm) = (r, s)" by fastforce
  have ok: "session_ok \<lparr>se_java = java_of J D, se_device = d, se_tp = None\<rparr>" if "r = Ok d" for d
    using open_handles r that by (simp add: session_ok_def)
  from opened(4) r ok have "(\<exists>m. st' = set_err m st) \<or> (\<exists>s. session_ok s \<and> st' = put_session addr s st)"
    by (auto simp: android_open_def put_session_def split: option.splits sum.splits fault.splits)
  with put_session_ok [OF opened(5) opened(2)] opened(5) show ?case by auto
next
  case (version st J h u st')
  show ?case
  proof (cases "h \<noteq> 0 \<and> al_sessions st h \<noteq> None")
    case False
    with version show ?thesis by (auto simp: android_firmware_version_def session_at_def split: if_splits)
  next
    case True
    then obtain s where box: "h \<noteq> 0" "al_sessions st h = Some s" by auto
    then have Inr: "session_at h st = (Inr s :: string option native \<times> 'a android + 'a session)" by (simp add: session_at_def)
    obtain r d where r: "firmware_version (session_env A (se_java s)) (se_device s) = (r, d)" by fastforce
    have "session_ok (s\<lparr>se_device := d\<rparr>)"
      using version(3) box keepsD [OF version_handles r] by (simp add: android_ok_def session_ok_def)
    with put_session_ok [OF version(3) box(1)] version(2) Inr r show ?thesis
      by (auto simp: android_firmware_version_def Let_def split: sum.splits fault.splits option.splits)
  qed
next
  case (request st J k h key ms w st')
  with android_request_box show ?case by blast
next
  case (close st h x st')
  then have "st' = st \<or> al_sessions st' = (al_sessions st)(h := None)"
    by (auto simp: android_close_def split: if_splits option.splits)
  with close(3) show ?case unfolding android_ok_def by (metis fun_upd_apply option.distinct(1))
next
  case (bridge st J C addr port v st')
  then have "al_sessions st' = al_sessions st" by (auto simp: start_bridge_def split: option.splits)
  with bridge(3) show ?case by (simp add: android_ok_def)
next
  case (stopped st h y st')
  then have "al_sessions st' = al_sessions st" by (auto simp: stop_bridge_def split: if_splits option.splits)
  with stopped(3) show ?case by (simp add: android_ok_def)
qed

section \<open>An open session\<close>

text \<open>The scripted port with an adapter's challenge on it: opening a session over it succeeds.\<close>

definition quiet_call :: jni_call where
  "quiet_call = \<lparr>jc_vm = None, jc_port_ref = None, jc_connection_ref = False, jc_convert = Inr [0x21, 0x43],
     jc_new_string = None, jc_new_array = None\<rparr>"

definition plain_android :: android_env where
  "plain_android = \<lparr>an_dbg = False, an_enc = (\<lambda>k b. b), an_dec = (\<lambda>k b. b), an_io_text = (\<lambda>e. []), an_text = (\<lambda>e. []),
     an_lossy = (\<lambda>b. [])\<rparr>"

definition no_sessions :: "mock_java android" where
  "no_sessions = \<lparr>al_sessions = Map.empty, al_bridges = Map.empty, al_flags = [], al_last_error = []\<rparr>"

definition challenge_port :: "bytes \<Rightarrow> mock_java" where
  "challenge_port ch = \<lparr>mj_unread = ch, mj_open = True, mj_thrown = False, mj_now = 0\<rparr>"

lemma quiet_java [simp]: "java_of quiet_call mock_java_port = mock_java_port"
  by (simp add: java_of_def quiet_call_def mock_java_port_def)

lemma mock_port_call:
  "jni_env mock_java_port t = (Ok (), t)"
  "jni_purge_rx mock_java_port t = (Ok (), t\<lparr>jt_rxbuf := [], jt_java := (jt_java t)\<lparr>mj_thrown := False\<rparr>\<rparr>)"
  "jni_set_modem mock_java_port dtr rts t = (Ok (), t)"
  "jni_optimize_latency sh mock_java_port t = (Unavailable, t)"
  "mj_open (jt_java t) \<Longrightarrow> jni_write_all mock_java_port b t = (Ok (), t\<lparr>jt_java := (jt_java t)\<lparr>mj_now := mj_now (jt_java t) + 1\<rparr>\<rparr>)"
  by (simp_all add: jni_env_def jcall_def jcall_clear_def jni_purge_rx_def jni_set_modem_def jni_optimize_latency_def
      jni_write_all_def sbind_def throwing_def mock_java_port_def)

lemma mock_open_session:
  assumes "encode_plain (challenge_payload 0 7 [1, 2, 3, 4, 5, 6, 7, 8]) = Ok ch"
  shows "\<exists>t. open_session (jni_transport sh mock_java_port) (jni_new (challenge_port ch)) = (Ok [1, 2, 3, 4, 5, 6, 7, 8], t)"
proof -
  let ?T = "jni_transport sh mock_java_port"
  let ?t = "jni_new (challenge_port ch\<lparr>mj_now := 1125000002\<rparr>)"
  have "well_framed ch" using plain_well_framed [OF assms] by (simp add: challenge_payload_def MAX_INNER_def)
  then obtain t where rd: "read_frame ?T (from_millis 2000) ?t = (Ok ch, t)"
    using mock_port_bytes.read_frame_whole [of ?t ch "[]" sh "from_millis 2000"] by (auto simp: jni_new_def challenge_port_def)
  have "t_purge_rx ?T = jni_purge_rx mock_java_port" "t_write_all ?T = jni_write_all mock_java_port"
    "t_set_modem ?T = jni_set_modem mock_java_port" "t_optimize_latency ?T = jni_optimize_latency sh mock_java_port"
    "t_sleep ?T d t = t\<lparr>jt_java := (jt_java t)\<lparr>mj_now := mj_now (jt_java t) + d\<rparr>\<rparr>" for d t
    by (simp_all add: jni_transport_def mock_java_port_def)
  then show ?thesis
    unfolding open_session_def establish_def handshake_frames codec_Ok sbind_slift_Ok
    using rd decode_plain_encode [OF assms] parse_challenge_payload [of "[1, 2, 3, 4, 5, 6, 7, 8]" 0 7]
    by (simp add: io_op_def pause_def mock_port_call jni_new_def challenge_port_def)
qed

lemma mock_android_open:
  assumes ch: "encode_plain (challenge_payload 0 7 [1, 2, 3, 4, 5, 6, 7, 8]) = Ok ch"
  shows "\<exists>st s. android_open plain_android quiet_call 1 mock_java_port (challenge_port ch) no_sessions = (Returned 1, st)
    \<and> android_run plain_android st \<and> al_sessions st 1 = Some s \<and> se_tp s = None"
proof -
  let ?E = "session_env plain_android mock_java_port"
  have "ev_io ?E = jni_transport (\<lambda>e. []) mock_java_port" by (simp add: session_env_def plain_android_def)
  then obtain d t where d: "open_transport ?E None (jni_new (challenge_port ch)) = (Ok d, t)"
    using mock_open_session [OF ch, of "\<lambda>e. []"] by (auto simp: open_transport_def spawn_def)
  define s where "s = \<lparr>se_java = mock_java_port, se_device = d, se_tp = None\<rparr>"
  have o: "android_open plain_android quiet_call 1 mock_java_port (challenge_port ch) no_sessions
      = (Returned 1, put_session 1 s no_sessions)"
    using d by (simp add: android_open_def quiet_call_def [THEN arg_cong [where f = jc_vm]]
        quiet_call_def [THEN arg_cong [where f = jc_port_ref]] put_session_def s_def)
  have "android_run plain_android (put_session 1 s no_sessions)"
    by (rule android_run.opened [OF _ _ _ o]) (simp_all add: no_sessions_def android_run.init)
  with o show ?thesis by (auto simp: s_def)
qed

text \<open>Identifiers in the SocketCAN convention come back as they were encoded.\<close>

lemma android_can_id_ext: "android_can_id ((v AND 0x1fffffff) OR 0x80000000) = Ext (v AND 0x1fffffff)"
proof -
  have flag: "bit (((v AND 0x1fffffff) OR 0x80000000) AND (0x80000000 :: u32)) 31" by (simp add: bit_simps)
  have "((v AND 0x1fffffff) OR 0x80000000) AND (0x80000000 :: u32) \<noteq> 0"
  proof
    assume "((v AND 0x1fffffff) OR 0x80000000) AND (0x80000000 :: u32) = 0"
    with flag show False by simp
  qed
  moreover have "((v AND 0x1fffffff) OR 0x80000000) AND 0x1fffffff = (v AND 0x1fffffff :: u32)"
    by (simp add: bit.conj_disj_distrib2 and.assoc)
  ultimately show ?thesis by (simp add: android_can_id_def)
qed

lemma android_can_id_std: "android_can_id (v AND 0x7ff) = Std (ucast (v AND 0x7ff))"
  by (simp add: android_can_id_def and.assoc)

text \<open>While nobody stops it and no round is idle, the app's loop serves as the bridge program does.\<close>

lemma bridge_as_server:
  "bridge_loop N T (map (\<lambda>i. (False, Client None i)) inputs) io =
     (case serve N T (map Inr inputs) io of (outs, r, io1) \<Rightarrow> (r = panic, outs, io1))"
  by (induction inputs arbitrary: io) (auto split: prod.split)

section \<open>Properties\<close>

text \<open>C35: In every state the app can bring the library to, closing a handle it holds tears the session
  down promptly: the cached channel goes first, so the handle dropped last is the device's own. The
  thread serving the port is then at its end, none of its state is kept, and the close signal has
  come unless the thread had died before. No other handle is touched, and a second close of the
  same handle would be undefined.\<close>
theorem android_close_releases:
  assumes "android_run A st" and "al_sessions st h = Some s"
  shows "\<exists>d st'. android_close A h st = (Returned (Some d), st')
    \<and> dv_handles d = 0 \<and> \<not> dv_alive d
    \<and> (dv_alive (drop_cached A s) \<longrightarrow>
        (let (r, a) = teardown (session_env A (se_java s)) (dv_actor (drop_cached A s)) in
          dv_actor d = a \<and> (dv_closed d \<longleftrightarrow> r \<noteq> panic)))
    \<and> (\<forall>g. g \<noteq> h \<longrightarrow> al_sessions st' g = al_sessions st g) \<and> android_close A h st' = (Undefined, st')"
proof -
  have ok: "h \<noteq> 0" "session_ok s" using android_run_ok [OF assms(1)] assms(2) by (auto simp: android_ok_def)
  let ?E = "session_env A (se_java s)"
  have one: "dv_handles (drop_cached A s) = 1" by (rule drop_cached_handles [OF ok(2)])
  have d: "close_session A s = dev_drop ?E (drop_cached A s)" by (simp add: close_session_def dev_close_def Let_def)
  show ?thesis
    using ok(1) assms(2) dev_drop_last(1,3) [OF one] one
    by (auto simp: android_close_def d dev_drop_def Let_def split: prod.split)
qed

lemma android_close_releases_witness:
  "\<exists>ch st d st'. android_open plain_android quiet_call 1 mock_java_port (challenge_port ch) no_sessions = (Returned 1, st)
    \<and> android_close plain_android 1 st = (Returned (Some d), st') \<and> \<not> dv_alive d"
proof -
  obtain ch where "encode_plain (challenge_payload 0 7 [1, 2, 3, 4, 5, 6, 7, 8]) = Ok ch"
    by (simp add: encode_plain_Ok challenge_payload_def)
  from mock_android_open [OF this] obtain st s where o: "android_open plain_android quiet_call 1 mock_java_port
      (challenge_port ch) no_sessions = (Returned 1, st)" and run: "android_run plain_android st" "al_sessions st 1 = Some s"
    by blast
  from android_close_releases [OF run] o show ?thesis by blast
qed

text \<open>C36: However a request ends, its handle is left with at most one open channel: none, or one for
  which it holds a second handle of the session; when there is a reply it is the channel for the
  identifiers of this request, whatever was cached before. The adapter keeps one filter per
  identifier width. No other handle is touched.\<close>
theorem android_one_channel:
  assumes "android_run A st" and "android_request A J k h key ms st = Some (Returned w, st')"
  shows "(case al_sessions st' h of None \<Rightarrow> w = None
     | Some s \<Rightarrow> dv_handles (se_device s) = (if se_tp s = None then 1 else 2) \<and> (w = None \<or> (\<exists>tp. se_tp s = Some (key, tp))))
    \<and> (\<forall>g. g \<noteq> h \<longrightarrow> al_sessions st' g = al_sessions st g)"
proof -
  note box = android_request_box [OF android_run_ok [OF assms(1)] assms(2)]
  then have "session_ok s" if "al_sessions st' h = Some s" for s
    using that by (auto simp: android_ok_def)
  with box show ?thesis by (auto simp: session_ok_def split: option.splits)
qed

lemma android_one_channel_witness:
  "\<exists>ch st s. android_open plain_android quiet_call 1 mock_java_port (challenge_port ch) no_sessions = (Returned 1, st)
    \<and> al_sessions (set_err ''convert request bytes: null array'' st) 1 = Some s
    \<and> dv_handles (se_device s) = (if se_tp s = None then 1 else 2)"
proof -
  obtain ch where "encode_plain (challenge_payload 0 7 [1, 2, 3, 4, 5, 6, 7, 8]) = Ok ch"
    by (simp add: encode_plain_Ok challenge_payload_def)
  from mock_android_open [OF this] obtain st s where o: "android_open plain_android quiet_call 1 mock_java_port
      (challenge_port ch) no_sessions = (Returned 1, st)" and run: "android_run plain_android st" "al_sessions st 1 = Some s"
    by blast
  have "android_request plain_android (quiet_call\<lparr>jc_convert := Inl ''null array''\<rparr>) 0 1 (0x7e0, 0x7e8, -1) 1000 st
      = Some (Returned None, set_err ''convert request bytes: null array'' st)"
    using run(2) by (simp add: android_request_def session_at_def)
  from android_one_channel [OF run(1) this] run(2)
  have "dv_handles (se_device s) = (if se_tp s = None then 1 else 2)" by simp
  with run(2) o show ?thesis by (intro exI [of _ ch] exI [of _ st] exI [of _ s]) simp
qed

text \<open>A text names the step that failed.\<close>

definition names_step :: "string list \<Rightarrow> string \<Rightarrow> bool" where
  "names_step steps msg \<longleftrightarrow> (\<exists>s\<in>set steps. take (length s) msg = s)"

definition reports :: "string list \<Rightarrow> ('a \<Rightarrow> bool) \<Rightarrow> 'd android \<Rightarrow> 'a native \<times> 'd android \<Rightarrow> bool" where
  "reports steps failed st out =
     (case fst out of
        Returned v \<Rightarrow> if failed v then names_step steps (al_last_error (snd out)) else al_last_error (snd out) = al_last_error st
      | _ \<Rightarrow> al_last_error (snd out) = al_last_error st)"

lemma set_err_error [simp]: "al_last_error (set_err m st) = m" "al_last_error (put_session h s st) = al_last_error st"
  by (simp_all add: set_err_def put_session_def)



text \<open>A round ends the loop when the flag is set, the listener fails, or the cable panics under a client.\<close>

definition ends_loop :: "net_env \<Rightarrow> 's transport \<Rightarrow> bool \<times> accepted \<Rightarrow> 's \<Rightarrow> bool" where
  "ends_loop N T r io \<longleftrightarrow> fst r \<or> (\<exists>e. snd r = AcceptFailed e)
     \<or> (\<exists>input. snd r = Client None input \<and> fst (snd (serve_connection N T input io)) = panic)"

lemma bridge_round:
  obtains (ends) outs io1 where "ends_loop N T r io" "\<And>rounds. bridge_loop N T (r # rounds) io = (True, outs, io1)"
    | (goes_on) outs io1 where "\<not> ends_loop N T r io"
      "\<And>rounds. bridge_loop N T (r # rounds) io =
        (case bridge_loop N T rounds io1 of (ended, outs', io2) \<Rightarrow> (ended, outs @ outs', io2))"
proof -
  obtain told acc where r: "r = (told, acc)" by fastforce
  show thesis
  proof (cases told)
    case True
    with r show ?thesis by (intro ends [of "[]" io]) (auto simp: ends_loop_def)
  next
    case told: False
    show ?thesis
    proof (cases acc)
      case (Client blocking input)
      obtain out q io1 where served: "serve_connection N T input io = (out, q, io1)" by (metis surj_pair)
      show ?thesis
      proof (cases "blocking = None \<and> q = panic")
        case True
        with r told Client served show ?thesis by (intro ends [of "[out]" io1]) (auto simp: ends_loop_def)
      next
        case False
        with r told Client served show ?thesis
          by (intro goes_on [of "if blocking = None then [out] else []" "if blocking = None then io1 else io"])
            (auto simp: ends_loop_def split: option.split prod.split)
      qed
    next
      case NoClient
      with r told show ?thesis
        by (intro goes_on [of "[]" "t_thread_sleep T (from_millis 100) io"]) (auto simp: ends_loop_def split: prod.split)
    next
      case (AcceptFailed e)
      with r told show ?thesis by (intro ends [of "[]" io]) (auto simp: ends_loop_def)
    qed
  qed
qed

text \<open>The bridge answers to its stop flag: in the round in which the accept loop sees it set, it
  has ended, serving no further client and leaving the cable as the rounds before had left it. A
  client whose session ends in an error, or whose stream cannot be used, ends nothing: without the
  flag, only a listener that fails or a panic of the cable ends the loop.\<close>
theorem bridge_ends_when_told:
  "bridge_loop N T (rounds @ (True, acc) # after) io = (True, snd (bridge_loop N T rounds io))
   \<and> (fst (bridge_loop N T rounds io) = (\<exists>pre r post. rounds = pre @ r # post
       \<and> ends_loop N T r (snd (snd (bridge_loop N T pre io)))))"
proof (induction rounds arbitrary: io)
  case (Cons r rounds)
  show ?case
  proof (cases rule: bridge_round [of N T r io])
    case (ends outs io1)
    then have "\<exists>pre r' post. r # rounds = pre @ r' # post \<and> ends_loop N T r' (snd (snd (bridge_loop N T pre io)))"
      by (intro exI [of _ "[]"] exI [of _ r] exI [of _ rounds]) simp
    with ends(2) show ?thesis by simp
  next
    case (goes_on outs io1)
    have cable: "snd (snd (bridge_loop N T (r # pre) io)) = snd (snd (bridge_loop N T pre io1))" for pre
      by (simp add: goes_on(2) split: prod.split)
    have "(\<exists>pre r' post. r # rounds = pre @ r' # post \<and> ends_loop N T r' (snd (snd (bridge_loop N T pre io))))
       = (\<exists>pre r' post. rounds = pre @ r' # post \<and> ends_loop N T r' (snd (snd (bridge_loop N T pre io1))))" (is "?l = ?r")
    proof
      assume ?l
      then obtain pre r' post where l: "r # rounds = pre @ r' # post" "ends_loop N T r' (snd (snd (bridge_loop N T pre io)))"
        by blast
      with goes_on(1) obtain pre' where "pre = r # pre'" by (cases pre) auto
      with l cable show ?r by (intro exI [of _ pre'] exI [of _ r'] exI [of _ post]) simp
    next
      assume ?r
      then obtain pre r' post where "rounds = pre @ r' # post" "ends_loop N T r' (snd (snd (bridge_loop N T pre io1)))"
        by blast
      with cable show ?l by (intro exI [of _ "r # pre"] exI [of _ r'] exI [of _ post]) simp
    qed
    moreover have "fst (bridge_loop N T (r # rounds) io) = fst (bridge_loop N T rounds io1)"
      by (simp add: goes_on(2) split: prod.split)
    moreover have "bridge_loop N T ((r # rounds) @ (True, acc) # after) io = (True, snd (bridge_loop N T (r # rounds) io))"
      using Cons.IH [of io1] by (simp add: goes_on(2) split: prod.splits)
    ultimately show ?thesis using Cons.IH [of io1] by simp
  qed
qed simp

end
