(* ===== verification/Remote_Session.thy ===== *)
theory Remote_Session
  imports Bridge Device Jni
begin

text \<open>
  A session over the network bridge against the same session at the cable. \<open>cable_view\<close> is the
  cable as the wire format of \<open>rmvci-net\<close> lets the client see it: errors as their text, read times in
  whole microseconds. Every operation of the session over a standing connection is then the
  operation of a session on that view, step by step, from opening to closing; the proof carries the
  equality from the transport's primitives up through the frame reader, the handshake, an exchange,
  the actor's requests and the device.
\<close>

section \<open>Following\<close>

text \<open>\<open>m\<close> follows \<open>m'\<close> along \<open>f\<close>: started in the image of a state it has the same result and ends in the
  image of the other's end.\<close>

definition follows :: "('s \<Rightarrow> 't) \<Rightarrow> ('a, 'e, 't) op \<Rightarrow> ('a, 'e, 's) op \<Rightarrow> bool" where
  "follows f m m' \<longleftrightarrow> (\<forall>s. m (f s) = apsnd f (m' s))"

named_theorems following

lemma followsD: "follows f m m' \<Longrightarrow> m (f s) = apsnd f (m' s)"
  by (simp add: follows_def)

lemma follows_sbind [following]:
  "follows f m m' \<Longrightarrow> (\<And>v. follows f (k v) (k' v)) \<Longrightarrow> follows f (sbind m k) (sbind m' k')"
  by (auto simp: follows_def sbind_def split: prod.split sum.split)

lemma follows_pure [following]:
  "follows f (slift r) (slift r)" "follows f (sreturn v) (sreturn v)" "follows f (sthrow e) (sthrow e)"
  by (simp_all add: follows_def)

lemma follows_if [following]:
  "follows f m m' \<Longrightarrow> follows f n n' \<Longrightarrow> follows f (if b then m else n) (if b then m' else n')"
  by simp

lemma follows_io_op [following]: "follows f m m' \<Longrightarrow> follows f (io_op m) (io_op m')"
  by (auto simp: follows_def io_op_def split: prod.split)

lemma follows_slift_bind:
  "(\<And>v. r = Ok v \<Longrightarrow> follows f (k v) (k' v)) \<Longrightarrow> follows f (sbind (slift r) k) (sbind (slift r) k')"
  by (cases r) (auto simp: follows_def)

lemma follows_at:
  "(\<And>x. follows f (m x) (m' x)) \<Longrightarrow> (\<And>s. g (f s) = g' s) \<Longrightarrow> follows f (\<lambda>s. m (g s) s) (\<lambda>s. m' (g' s) s)"
  by (simp add: follows_def)

section \<open>The cable behind the wire\<close>

definition whole_us :: "duration \<Rightarrow> duration" where
  "whole_us d = min (d div 1000) (2 ^ 64 - 1) * 1000"

definition viewed :: "net_env \<Rightarrow> ('a \<Rightarrow> 'b) \<Rightarrow> ('a, transport_error, 's) op \<Rightarrow> ('b, transport_error, 's) op" where
  "viewed N g m s = (case m s of (r, s') \<Rightarrow> (remote_result N g r, s'))"

definition cable_view :: "net_env \<Rightarrow> 's transport \<Rightarrow> 's transport" where
  "cable_view N T = T\<lparr>t_write_all := (\<lambda>b. viewed N (\<lambda>_. ()) (t_write_all T b)),
     t_read := (\<lambda>n d. viewed N (take n) (t_read T n (whole_us d))),
     t_purge_rx := viewed N (\<lambda>_. ()) (t_purge_rx T),
     t_set_modem := (\<lambda>dtr rts. viewed N (\<lambda>_. ()) (t_set_modem T dtr rts)),
     t_optimize_latency := (\<lambda>s. case t_optimize_latency T s of (l, s') \<Rightarrow> (decode_latency N (encode_latency l), s'))\<rparr>"

definition up_state :: "'s \<Rightarrow> 's bridge" where
  "up_state s = \<lparr>br_cable = s, br_up = True\<rparr>"

definition up_actor :: "'s actor \<Rightarrow> 's bridge actor" where
  "up_actor a = \<lparr>ac_io = up_state (ac_io a), ac_key = ac_key a, ac_keepalive = ac_keepalive a, ac_queues = ac_queues a,
     ac_connected = ac_connected a, ac_silent = ac_silent a, ac_wedged = ac_wedged a, ac_last_wire = ac_last_wire a\<rparr>"

definition up_device :: "'s device \<Rightarrow> 's bridge device" where
  "up_device d = \<lparr>dv_actor = up_actor (dv_actor d), dv_alive = dv_alive d, dv_handles = dv_handles d, dv_closed = dv_closed d\<rparr>"

lemma up_actor_simps [simp]:
  "ac_key (up_actor a) = ac_key a" "ac_keepalive (up_actor a) = ac_keepalive a" "ac_queues (up_actor a) = ac_queues a"
  "ac_connected (up_actor a) = ac_connected a" "ac_silent (up_actor a) = ac_silent a"
  "ac_wedged (up_actor a) = ac_wedged a" "ac_io (up_actor a) = up_state (ac_io a)"
  "(up_actor a)\<lparr>ac_io := up_state s\<rparr> = up_actor (a\<lparr>ac_io := s\<rparr>)"
  "(up_actor a)\<lparr>ac_key := k\<rparr> = up_actor (a\<lparr>ac_key := k\<rparr>)"
  "(up_actor a)\<lparr>ac_queues := q\<rparr> = up_actor (a\<lparr>ac_queues := q\<rparr>)"
  "(up_actor a)\<lparr>ac_connected := c\<rparr> = up_actor (a\<lparr>ac_connected := c\<rparr>)"
  "(up_actor a)\<lparr>ac_silent := n\<rparr> = up_actor (a\<lparr>ac_silent := n\<rparr>)"
  "(up_actor a)\<lparr>ac_wedged := w\<rparr> = up_actor (a\<lparr>ac_wedged := w\<rparr>)"
  "(up_actor a)\<lparr>ac_last_wire := t\<rparr> = up_actor (a\<lparr>ac_last_wire := t\<rparr>)"
  by (simp_all add: up_actor_def)

lemma up_device_simps [simp]:
  "dv_actor (up_device d) = up_actor (dv_actor d)" "dv_alive (up_device d) = dv_alive d"
  "dv_handles (up_device d) = dv_handles d" "dv_closed (up_device d) = dv_closed d"
  "(up_device d)\<lparr>dv_actor := up_actor a\<rparr> = up_device (d\<lparr>dv_actor := a\<rparr>)"
  "(up_device d)\<lparr>dv_alive := b\<rparr> = up_device (d\<lparr>dv_alive := b\<rparr>)"
  "(up_device d)\<lparr>dv_handles := n\<rparr> = up_device (d\<lparr>dv_handles := n\<rparr>)"
  "(up_device d)\<lparr>dv_closed := b\<rparr> = up_device (d\<lparr>dv_closed := b\<rparr>)"
  by (simp_all add: up_device_def)

text \<open>A cable whose calls do not panic, and whose texts fit into a frame.\<close>

locale viewed_cable =
  fixes N :: net_env and T :: "'s transport"
  assumes texts: "short_texts N"
    and calls_return: "fst (t_write_all T b s) \<noteq> panic" "fst (t_read T n d s) \<noteq> panic" "fst (t_purge_rx T s) \<noteq> panic"
      "fst (t_set_modem T dtr rts s) \<noteq> panic"
    and latency_fits: "length (encode_latency (fst (t_optimize_latency T s))) < NET_MAX_FRAME"
begin

abbreviation "R \<equiv> remote_transport N T"
abbreviation "V \<equiv> cable_view N T"

lemma remote_follows:
  assumes "\<And>s. fst (m s) \<noteq> panic" and "\<And>s. m' (up_state s) = remote_of N g m (up_state s)"
  shows "follows up_state m' (viewed N g m)"
  using assms by (auto simp: follows_def remote_of_def viewed_def up_state_def split: prod.split) (metis fst_conv)

lemma calls_follow:
  "length b < NET_MAX_FRAME \<Longrightarrow> follows up_state (t_write_all R b) (t_write_all V b)"
  "n \<le> MAX_READ \<Longrightarrow> follows up_state (t_read R n d) (t_read V n d)"
  "follows up_state (t_purge_rx R) (t_purge_rx V)"
  "follows up_state (t_set_modem R dtr rts) (t_set_modem V dtr rts)"
proof -
  have up: "br_up (up_state s)" for s :: 's by (simp add: up_state_def)
  note call = remote_calls [OF up texts]
  show "length b < NET_MAX_FRAME \<Longrightarrow> follows up_state (t_write_all R b) (t_write_all V b)"
    using remote_follows [where m = "t_write_all T b" and m' = "tcp_write_all N T b" and g = "\<lambda>_. ()", OF calls_return(1)] call
    by (simp add: remote_transport_def cable_view_def)
  show "follows up_state (t_purge_rx R) (t_purge_rx V)"
    using remote_follows [where m = "t_purge_rx T" and m' = "tcp_purge_rx N T" and g = "\<lambda>_. ()", OF calls_return(3)] call
    by (simp add: remote_transport_def cable_view_def)
  show "follows up_state (t_set_modem R dtr rts) (t_set_modem V dtr rts)"
    using remote_follows [where m = "t_set_modem T dtr rts" and m' = "tcp_set_modem N T dtr rts" and g = "\<lambda>_. ()", OF calls_return(4)] call
    by (simp add: remote_transport_def cable_view_def)
  show "n \<le> MAX_READ \<Longrightarrow> follows up_state (t_read R n d) (t_read V n d)"
  proof -
    assume n: "n \<le> MAX_READ"
    define u where "u = min (d div 1000) (2 ^ 64 - 1)"
    have "u < 2 ^ 64" by (simp add: u_def min_def)
    have "tcp_read N T n d = tcp_read N T n (u * 1000)"
      by (simp add: tcp_read_def u_def min.assoc)
    with remote_follows [where m = "t_read T n (u * 1000)" and m' = "tcp_read N T n d" and g = "take n", OF calls_return(2)] call n \<open>u < 2 ^ 64\<close>
    show ?thesis by (simp add: remote_transport_def cable_view_def whole_us_def u_def)
  qed
qed

lemma clock_follows:
  "t_now R (up_state s) = apsnd up_state (t_now V s)"
  "t_sleep R d (up_state s) = up_state (t_sleep V d s)"
  by (simp_all add: remote_transport_def cable_view_def up_state_def split: prod.split)

section \<open>Reading frames, the handshake\<close>

lemma latency_follows: "follows up_state (\<lambda>s. (Ok (), snd (t_optimize_latency R s))) (\<lambda>s. (Ok (), snd (t_optimize_latency V s)))"
  unfolding follows_def
proof
  fix s :: 's
  obtain l s' where l: "t_optimize_latency T s = (l, s')" by fastforce
  have up: "br_up (up_state s)" by (simp add: up_state_def)
  have "length (encode_latency l) < NET_MAX_FRAME" using latency_fits [of s] l by simp
  with remote_calls [OF up texts] l
  have "tcp_optimize_latency N T (up_state s) = (decode_latency N (encode_latency l), up_state s')"
    by (simp add: up_state_def)
  with l show "(Ok (), snd (t_optimize_latency R (up_state s))) = apsnd up_state (Ok (), snd (t_optimize_latency V s))"
    by (simp add: remote_transport_def cable_view_def)
qed

lemma pause_follows: "follows up_state (pause R d) (pause V d)"
  by (simp add: follows_def pause_def clock_follows)

lemma read_exact_follows:
  "need \<le> MAX_READ \<Longrightarrow> read_exact R need deadline timeout acc (up_state s) = apsnd up_state (read_exact V need deadline timeout acc s)"
proof (induction need arbitrary: acc s rule: less_induct)
  case (less need)
  show ?case
  proof (cases "need = 0")
    case True
    then show ?thesis by (simp add: read_exact.simps)
  next
    case False
    obtain now s1 where now: "t_now V s = (now, s1)" by fastforce
    obtain r s2 where r: "t_read V need (deadline - now) s1 = (r, s2)" by fastforce
    have r': "t_read R need (deadline - now) (up_state s1) = (r, up_state s2)"
      using followsD [OF calls_follow(2) [OF less.prems], of "deadline - now" s1] r by simp
    have shorter: "need - length b < need" "need - length b \<le> MAX_READ" if "b \<noteq> []" for b :: bytes
      using that False less.prems by auto
    show ?thesis
    proof (cases r)
      case (Inl e)
      with False now r r' show ?thesis by (simp add: read_exact.simps [of _ need] clock_follows)
    next
      case (Inr b)
      with False now r r' less.IH [OF shorter] show ?thesis
        by (simp add: read_exact.simps [of _ need] clock_follows)
    qed
  qed
qed

lemma read_within_follows:
  "need \<le> MAX_READ \<Longrightarrow> follows up_state (read_exact_within R need timeout) (read_exact_within V need timeout)"
  by (simp add: follows_def read_exact_within_def clock_follows read_exact_follows split: prod.split)

lemma read_frame_follows: "follows up_state (read_frame R timeout) (read_frame V timeout)"
proof -
  have small: "2 \<le> MAX_READ" "len \<le> MAX_FRAME \<Longrightarrow> len - 2 \<le> MAX_READ" for len
    by (simp_all add: MAX_READ_def MAX_FRAME_def MAX_INNER_def)
  have body: "follows up_state
      (if len < 3 then sthrow (Codec (TooShort len))
       else if MAX_FRAME < len then sthrow (Codec (TooLong len))
       else sbind (read_exact_within R (len - 2) t) (\<lambda>body. sreturn (hdr @ body)))
      (if len < 3 then sthrow (Codec (TooShort len))
       else if MAX_FRAME < len then sthrow (Codec (TooLong len))
       else sbind (read_exact_within V (len - 2) t) (\<lambda>body. sreturn (hdr @ body)))" for len t and hdr :: bytes
    using small(2) [of len] by (simp add: following read_within_follows)
  show ?thesis
    unfolding read_frame_def by (intro following read_within_follows small body)
qed

lemma handshake_short: "length reset_frame < NET_MAX_FRAME" "length ident_frame < NET_MAX_FRAME"
  by (simp_all add: reset_frame_def ident_frame_def NET_MAX_FRAME_def)

lemma establish_follows: "follows up_state (establish R) (establish V)"
  unfolding establish_def handshake_frames codec_Ok sbind_slift_Ok
  by (intro following calls_follow pause_follows read_frame_follows handshake_short)

lemma open_follows: "follows up_state (open_session R) (open_session V)"
  unfolding open_session_def
  by (intro follows_sbind following calls_follow pause_follows latency_follows establish_follows)

end

section \<open>The actor\<close>

definition env_over :: "bool \<Rightarrow> (bytes \<Rightarrow> bytes \<Rightarrow> bytes) \<Rightarrow> (bytes \<Rightarrow> bytes \<Rightarrow> bytes) \<Rightarrow> 's transport \<Rightarrow> 's env" where
  "env_over dbg enc dec T = \<lparr>ev_dbg = dbg, ev_enc = enc, ev_dec = dec, ev_io = T\<rparr>"

lemma env_over_simps [simp]:
  "ev_dbg (env_over dbg enc dec T) = dbg" "ev_enc (env_over dbg enc dec T) = enc"
  "ev_dec (env_over dbg enc dec T) = dec" "ev_io (env_over dbg enc dec T) = T"
  by (simp_all add: env_over_def)

lemma follows_on_io: "follows up_state m m' \<Longrightarrow> follows up_actor (on_io m) (on_io m')"
  by (simp add: follows_def on_io_def split: prod.split)

lemma follows_note: "follows up_actor (note_connected p) (note_connected p)"
  by (simp add: follows_def note_connected_def)

locale remote_session = viewed_cable N T for N :: net_env and T :: "'s transport" +
  fixes dbg :: bool and enc dec :: "bytes \<Rightarrow> bytes \<Rightarrow> bytes"
  assumes cipher: "block_cipher enc dec"
begin

abbreviation "RE \<equiv> env_over dbg enc dec R"
abbreviation "VE \<equiv> env_over dbg enc dec V"

lemma encrypted_short: "encode_encrypted dbg enc key inner = Ok w \<Longrightarrow> length w < NET_MAX_FRAME"
  using pad8_props(2) [of "length inner"]
  by (auto simp: encode_encrypted_eq Let_def NET_MAX_FRAME_def block_cipher_length [OF cipher] padded_def split: if_splits)

lemma stamp_follows: "follows up_actor (stamp R) (stamp V)"
  by (simp add: follows_def stamp_def clock_follows split: prod.split)

lemma transact_inner_follows: "follows up_actor (transact_inner RE i t) (transact_inner VE i t)"
  unfolding transact_inner_def env_over_simps
proof (rule follows_at [where g = ac_key and g' = ac_key])
  fix key
  have fits: "length w < NET_MAX_FRAME" if "codec (encode_encrypted dbg enc key i) = Ok w" for w
    using that encrypted_short by (simp add: codec_def)
  show "follows up_actor
      (sbind (slift (codec (encode_encrypted dbg enc key i))) (\<lambda>wire_frame.
       sbind (on_io (io_op (t_purge_rx R))) (\<lambda>_. sbind (on_io (io_op (t_write_all R wire_frame))) (\<lambda>_.
       sbind (stamp R) (\<lambda>_. sbind (on_io (read_frame R t)) (\<lambda>raw. sbind (stamp R) (\<lambda>_.
         slift (codec (decode_encrypted dbg dec key raw)))))))))
      (sbind (slift (codec (encode_encrypted dbg enc key i))) (\<lambda>wire_frame.
       sbind (on_io (io_op (t_purge_rx V))) (\<lambda>_. sbind (on_io (io_op (t_write_all V wire_frame))) (\<lambda>_.
       sbind (stamp V) (\<lambda>_. sbind (on_io (read_frame V t)) (\<lambda>raw. sbind (stamp V) (\<lambda>_.
         slift (codec (decode_encrypted dbg dec key raw)))))))))"
    by (rule follows_slift_bind)
      (intro following follows_on_io calls_follow read_frame_follows stamp_follows fits)
qed simp

lemma transact_follows: "follows up_actor (transact RE i t) (transact VE i t)"
  unfolding follows_def
proof
  fix a :: "'s actor"
  obtain r a1 where t: "transact_inner VE i t a = (r, a1)" by fastforce
  with followsD [OF transact_inner_follows [of i t], of a]
  show "transact RE i t (up_actor a) = apsnd up_actor (transact VE i t a)"
    by (simp add: transact_def note_silence_def Let_def)
qed

lemma transact_status_follows:
  "follows up_actor (transact_status RE i c t) (transact_status VE i c t)"
  unfolding transact_status_def by (intro following transact_follows)

lemma reestablish_follows: "follows up_actor (reestablish RE) (reestablish VE)"
  unfolding follows_def
proof
  fix a :: "'s actor"
  obtain r a1 where t: "on_io (establish V) a = (r, a1)" by fastforce
  with followsD [OF follows_on_io [OF establish_follows], of a]
  show "reestablish RE (up_actor a) = apsnd up_actor (reestablish VE a)"
    by (cases r) (simp_all add: reestablish_def)
qed

lemma actor_connect_follows:
  "follows up_actor (actor_connect RE p fl b) (actor_connect VE p fl b)"
proof -
  let ?again = "\<lambda>E. sbind (reestablish E) (\<lambda>_. sbind (transact_status E (connect p fl b) CmdConnect (from_millis 2000)) (\<lambda>_. note_connected p))"
  have again: "follows up_actor (?again RE) (?again VE)"
    by (intro following reestablish_follows transact_status_follows follows_note)
  show ?thesis
    unfolding follows_def
  proof
    fix a
    obtain r a1 where t: "transact_status VE (connect p fl b) CmdConnect (from_millis 2000) a = (r, a1)" by fastforce
    with followsD [OF transact_status_follows [of "connect p fl b" CmdConnect "from_millis 2000"], of a]
      followsD [OF again, of a1] followsD [OF follows_note, of p a1]
    show "actor_connect RE p fl b (up_actor a) = apsnd up_actor (actor_connect VE p fl b a)"
      by (simp add: actor_connect_def Let_def split: sum.split fault.split)
  qed
qed

lemma actor_disconnect_follows:
  "follows up_actor (actor_disconnect RE p) (actor_disconnect VE p)"
  unfolding follows_def
proof
  fix a :: "'s actor"
  obtain r a1 where t: "transact_status VE (disconnect p) CmdDisconnect (from_millis 1000) a = (r, a1)"
    by fastforce
  with followsD [OF transact_status_follows [of "disconnect p" CmdDisconnect "from_millis 1000"], of a]
  show "actor_disconnect RE p (up_actor a) = apsnd up_actor (actor_disconnect VE p a)"
    by (simp add: actor_disconnect_def)
qed

lemma actor_poll_follows: "follows up_actor (actor_poll RE p t) (actor_poll VE p t)"
proof -
  let ?ask = "\<lambda>E. sbind (transact E (read_poll p) t) (\<lambda>resp. sbind (slift (codec (parse_read_reply resp))) (\<lambda>parsed. sreturn (msg_of_reply parsed)))"
  have "follows up_actor (?ask RE) (?ask VE)"
    by (intro following transact_follows)
  then show ?thesis
    by (simp add: follows_def actor_poll_def split: option.split list.split)
qed

lemma handle_follows: "follows up_actor (handle RE req) (handle VE req)"
proof -
  have served: "follows up_actor (sbind (transact RE i t) (\<lambda>v. sreturn (ABytes v))) (sbind (transact VE i t) (\<lambda>v. sreturn (ABytes v)))"
    "follows up_actor (sbind (actor_connect RE p fl b) (\<lambda>_. sreturn AUnit)) (sbind (actor_connect VE p fl b) (\<lambda>_. sreturn AUnit))"
    "follows up_actor (sbind (actor_disconnect RE p) (\<lambda>_. sreturn AUnit)) (sbind (actor_disconnect VE p) (\<lambda>_. sreturn AUnit))"
    "follows up_actor (sbind (actor_poll RE p t) (\<lambda>m. sreturn (AMsg m))) (sbind (actor_poll VE p t) (\<lambda>m. sreturn (AMsg m)))"
    for i t p fl b
    by (intro following transact_follows actor_connect_follows actor_disconnect_follows actor_poll_follows)+
  then show ?thesis
    by (simp add: follows_def handle_def split: request.split)
qed

lemma idle_follows: "follows up_actor (idle_poll RE) (idle_poll VE)"
  unfolding follows_def
proof
  fix a :: "'s actor"
  obtain r a1 where t: "transact VE (read_poll (poll_proto_of a)) (from_millis 500) a = (r, a1)" by fastforce
  have p: "poll_proto_of (up_actor a) = poll_proto_of a" by (simp add: poll_proto_of_def)
  have q: "enqueue p m (up_actor a1) = up_actor (enqueue p m a1)" for p m by (simp add: enqueue_def)
  from t p q followsD [OF transact_follows [of "read_poll (poll_proto_of a)" "from_millis 500"], of a]
    followsD [OF stamp_follows, of a] followsD [OF stamp_follows, of a1]
  show "idle_poll RE (up_actor a) = apsnd up_actor (idle_poll VE a)"
    by (simp add: idle_poll_def Let_def split: sum.split fault.split option.split)
qed

lemma disconnect_all_follows:
  "disconnect_all RE ps (up_actor a) = apsnd up_actor (disconnect_all VE ps a)"
proof (induction ps arbitrary: a)
  case (Cons p ps)
  obtain r a1 where t: "transact_status VE (disconnect p) CmdDisconnect (from_millis 500) a = (r, a1)" by fastforce
  with followsD [OF transact_status_follows [of "disconnect p" CmdDisconnect "from_millis 500"], of a] Cons.IH
  show ?case by (simp split: sum.split fault.split)
qed simp

lemma teardown_follows: "follows up_actor (teardown RE) (teardown VE)"
  unfolding follows_def
proof
  fix a :: "'s actor"
  obtain r a1 where d: "disconnect_all VE (ac_connected a) (a\<lparr>ac_connected := []\<rparr>) = (r, a1)" by fastforce
  obtain q a2 where t: "transact VE session_close (from_millis 500) a1 = (q, a2)" by fastforce
  from d t disconnect_all_follows [of "ac_connected a" "a\<lparr>ac_connected := []\<rparr>"]
    followsD [OF transact_follows [of session_close "from_millis 500"], of a1]
  show "teardown RE (up_actor a) = apsnd up_actor (teardown VE a)"
    by (simp add: teardown_def split: sum.split fault.split)
qed

section \<open>The device\<close>

lemma dev_request_follows: "follows up_device (dev_request RE req) (dev_request VE req)"
  unfolding follows_def
proof
  fix d :: "'s device"
  obtain r a where h: "handle VE req (dv_actor d) = (r, a)" by fastforce
  with followsD [OF handle_follows [of req], of "dv_actor d"]
  show "dev_request RE req (up_device d) = apsnd up_device (dev_request VE req d)"
    by (simp add: dev_request_def split: sum.split fault.split)
qed

lemma open_transport_follows:
  "open_transport RE ka (up_state s) = map_prod (map_sum id up_device) up_state (open_transport VE ka s)"
proof -
  obtain r s1 where o: "open_session V s = (r, s1)" by fastforce
  have "open_session R (up_state s) = (r, up_state s1)" using followsD [OF open_follows, of s] o by simp
  moreover have "actor_new R ka key (up_state s1) = up_actor (actor_new V ka key s1)" for key
    by (simp add: actor_new_def clock_follows up_actor_def split: prod.split)
  ultimately show ?thesis
    using o by (cases r) (auto simp: open_transport_def spawn_def up_device_def split: fault.split)
qed

lemma dev_drop_follows: "dev_drop RE (up_device d) = up_device (dev_drop VE d)"
proof -
  let ?d = "d\<lparr>dv_handles := dv_handles d - 1\<rparr>"
  obtain r a where t: "teardown VE (dv_actor d) = (r, a)" by fastforce
  with followsD [OF teardown_follows, of "dv_actor d"] show ?thesis
    by (simp add: dev_drop_def Let_def)
qed

end

section \<open>Using a session\<close>

text \<open>What happens to an opened session: a request, or an expiry of the idle poll that its configuration
  may ask for. \<open>use_session\<close> opens, serves, and closes; it gives the answers and whether the close
  signal came, and the transport as it was left.\<close>

datatype session_event = Asked request | Idle

definition dev_idle :: "'s env \<Rightarrow> 's device \<Rightarrow> 's device" where
  "dev_idle E d =
     (if dv_alive d \<and> ac_keepalive (dv_actor d) \<noteq> None
      then (case idle_poll E (dv_actor d) of (r, a) \<Rightarrow> d\<lparr>dv_actor := a, dv_alive := (r \<noteq> panic)\<rparr>)
      else d)"

fun dev_serve :: "'s env \<Rightarrow> session_event list \<Rightarrow> 's device \<Rightarrow> (answer, error) res list \<times> 's device" where
  "dev_serve E [] d = ([], d)"
| "dev_serve E (Asked req # evs) d =
     (case dev_request E req d of (r, d1) \<Rightarrow> case dev_serve E evs d1 of (rs, d2) \<Rightarrow> (r # rs, d2))"
| "dev_serve E (Idle # evs) d = dev_serve E evs (dev_idle E d)"

definition use_session :: "'s env \<Rightarrow> duration option \<Rightarrow> session_event list \<Rightarrow> 's
    \<Rightarrow> ((answer, error) res list \<times> bool, error) res \<times> 's" where
  "use_session E ka evs s =
     (case open_transport E ka s of
        (Inl e, s1) \<Rightarrow> (Inl e, s1)
      | (Inr d, _) \<Rightarrow> (case dev_serve E evs d of (rs, d1) \<Rightarrow>
          case dev_close E d1 of (closed, d2) \<Rightarrow> (Ok (rs, closed), ac_io (dv_actor d2))))"

context remote_session
begin

lemma dev_idle_follows: "dev_idle RE (up_device d) = up_device (dev_idle VE d)"
proof -
  obtain r a where "idle_poll VE (dv_actor d) = (r, a)" by fastforce
  with followsD [OF idle_follows, of "dv_actor d"] show ?thesis
    by (cases "ac_keepalive (dv_actor d)") (simp_all add: dev_idle_def)
qed

lemma dev_serve_follows: "dev_serve RE evs (up_device d) = apsnd up_device (dev_serve VE evs d)"
proof (induction evs arbitrary: d)
  case (Cons ev evs)
  show ?case
  proof (cases ev)
    case (Asked req)
    obtain r d1 where "dev_request VE req d = (r, d1)" by fastforce
    moreover obtain rs d2 where "dev_serve VE evs d1 = (rs, d2)" by fastforce
    ultimately show ?thesis
      using Asked followsD [OF dev_request_follows [of req], of d] Cons.IH [of d1] by simp
  next
    case Idle
    with Cons.IH show ?thesis by (simp add: dev_idle_follows)
  qed
qed simp

lemma use_session_follows: "follows up_state (use_session RE ka evs) (use_session VE ka evs)"
  unfolding follows_def
proof
  fix s
  obtain r s1 where o: "open_transport VE ka s = (r, s1)" by fastforce
  show "use_session RE ka evs (up_state s) = apsnd up_state (use_session VE ka evs s)"
  proof (cases r)
    case (Inl e)
    with o show ?thesis by (simp add: use_session_def open_transport_follows)
  next
    case (Inr d)
    obtain rs d1 where v: "dev_serve VE evs d = (rs, d1)" by fastforce
    with o Inr show ?thesis
      by (simp add: use_session_def open_transport_follows dev_serve_follows dev_close_def Let_def dev_drop_follows)
  qed
qed

end

section \<open>Cables behind a bridge\<close>

lemma serial_viewed:
  assumes "short_texts N" and "\<And>d. length (encode_latency (fst (serial_optimize_latency D d))) < NET_MAX_FRAME"
  shows "viewed_cable N (serial_transport D)"
  using assms
  by unfold_locales (auto simp: serial_transport_def serial_write_all_def serial_read_def serial_set_modem_def or_open_def
      sbind_def split: prod.split sum.split option.split)

lemma jni_viewed:
  assumes "short_texts N" and "\<And>t. length (encode_latency (fst (jni_optimize_latency sh D t))) < NET_MAX_FRAME"
  shows "viewed_cable N (jni_transport sh D)"
proof -
  have call: "fst (jcall w m t) \<noteq> panic" "fst (jcall_clear D w m t) \<noteq> panic" for w m and t :: "'a jni"
    by (simp_all add: jcall_def jcall_clear_def split: prod.split option.split)
  have bind: "fst (sbind m k t) \<noteq> panic" if "fst (m t) \<noteq> panic" "\<And>v t. fst (k v t) \<noteq> panic"
    for m :: "('x, transport_error, 'a jni) op" and k :: "'x \<Rightarrow> ('y, transport_error, 'a jni) op" and t
    using that by (cases "m t"; cases "fst (m t)") (auto simp: sbind_def)
  have fetch: "fst (jni_fetch D c d t) \<noteq> panic" for c d t
    by (simp add: jni_fetch_def split: prod.split sum.split)
  have ok: "fst (jni_write_all D b t) \<noteq> panic" "fst (jni_purge_rx D t) \<noteq> panic" "fst (jni_set_modem D dtr rts t) \<noteq> panic"
    for b t dtr rts
    unfolding jni_write_all_def jni_purge_rx_def jni_set_modem_def jni_env_def
    by (intro bind call | simp)+
  have rest: "fst (sbind (jni_env D) (\<lambda>_. sbind (jcall ''read: alloc'' a) (\<lambda>_. sbind (jni_fetch D c d) (\<lambda>got t. (Ok (f got), g got t)))) t)
      \<noteq> panic" for a c d t and f :: "bytes \<Rightarrow> bytes" and g
    unfolding jni_env_def by (intro bind call fetch) simp
  have read: "fst (jni_read D n d t) \<noteq> panic" for n d t
    using rest by (simp add: jni_read_def Let_def)
  show ?thesis
    using assms ok read by unfold_locales (simp_all add: jni_transport_def)
qed

lemma plain_texts: "short_texts plain_net"
  by (simp add: short_texts_def plain_net_def NET_MAX_FRAME_def)

text \<open>The scripted Java port behind the app's bridge.\<close>

interpretation java_behind_bridge: remote_session plain_net "jni_transport (\<lambda>e. []) mock_java_port" dbg xor_cipher xor_cipher for dbg
proof -
  have "viewed_cable plain_net (jni_transport (\<lambda>e. []) mock_java_port)"
    by (rule jni_viewed [OF plain_texts]) (simp add: jni_optimize_latency_def mock_java_port_def NET_MAX_FRAME_def)
  then show "remote_session plain_net (jni_transport (\<lambda>e. []) mock_java_port) xor_cipher xor_cipher"
    by (simp add: remote_session_def remote_session_axioms_def xor_cipher_block)
qed

section \<open>Property\<close>

text \<open>C10: The driver cannot tell that its cable is on another machine: over a standing connection a whole
  use of a session, from the reset and the handshake through any sequence of requests and idle polls
  to the teardown and the close, gives the same answers, the same errors and the same state of the
  cable as at the cable itself, seen as the wire shows it (an error as its text, a read's time in
  microseconds). This holds for every cable whose calls do not panic.\<close>
theorem bridge_is_transparent:
  assumes "remote_session N T enc dec"
  shows "use_session (env_over dbg enc dec (remote_transport N T)) ka evs (up_state s)
    = apsnd up_state (use_session (env_over dbg enc dec (cable_view N T)) ka evs s)"
  by (rule followsD [OF remote_session.use_session_follows [OF assms]])

definition port_behind_bridge :: "mock_java jni" where
  "port_behind_bridge = \<lparr>jt_java = \<lparr>mj_unread = [4, 0, 9, 13], mj_open = True, mj_thrown = False, mj_now = 0\<rparr>, jt_rxbuf = []\<rparr>"

lemma bridge_is_transparent_witness:
  "use_session (env_over True xor_cipher xor_cipher (remote_transport plain_net (jni_transport (\<lambda>e. []) mock_java_port)))
     None [Asked (ReqTransact read_version 5)] (up_state port_behind_bridge)
   = apsnd up_state (use_session (env_over True xor_cipher xor_cipher (cable_view plain_net (jni_transport (\<lambda>e. []) mock_java_port)))
     None [Asked (ReqTransact read_version 5)] port_behind_bridge)"
  by (rule bridge_is_transparent [OF java_behind_bridge.remote_session_axioms])

end
