(* ===== verification/Remote_Calls.thy ===== *)
theory Remote_Calls
  imports Remote_Session KLine
begin

text \<open>
  The layers above the session over a bridge: channels, the ISO-TP client on both paths and the
  K-line ECU run on a device and a state of their own, which the network does not reach. Each of
  their calls over the bridge follows the call at the cable, and loops with fuel take the same
  number of rounds.
\<close>

definition up_pair :: "'s device \<times> 'x \<Rightarrow> 's bridge device \<times> 'x" where
  "up_pair s = (up_device (fst s), snd s)"

lemma up_pair_simps [simp]:
  "fst (up_pair s) = up_device (fst s)" "snd (up_pair s) = snd s" "(up_device d, x) = up_pair (d, x)"
  by (simp_all add: up_pair_def)

text \<open>Following for a call with fuel.\<close>

definition follows_fuel :: "('s \<Rightarrow> 't) \<Rightarrow> ('t \<Rightarrow> (('a, 'e) res \<times> 't) option) \<Rightarrow> ('s \<Rightarrow> (('a, 'e) res \<times> 's) option) \<Rightarrow> bool" where
  "follows_fuel f m m' \<longleftrightarrow> (\<forall>s. m (f s) = map_option (apsnd f) (m' s))"

lemma follows_fuelD: "follows_fuel f m m' \<Longrightarrow> m (f s) = map_option (apsnd f) (m' s)"
  by (simp add: follows_fuel_def)

lemma follows_pairI: "(\<And>d x. m (up_pair (d, x)) = apsnd up_pair (m' (d, x))) \<Longrightarrow> follows up_pair m m'"
  by (auto simp: follows_def)

lemma follows_on_dev: "follows up_device m m' \<Longrightarrow> follows up_pair (on_dev m) (on_dev m')"
  by (simp add: follows_def on_dev_def split_beta)

lemma follows_bump: "follows up_pair (bump_filters f) (bump_filters f)"
  "follows up_pair (set_current c) (set_current c)"
  by (simp_all add: follows_def bump_filters_def set_current_def)

lemma follows_take_id: "follows up_pair (take_filter_id dbg) (take_filter_id dbg)"
  by (simp add: follows_def take_filter_id_def Let_def split: sum.split)

context remote_session
begin

section \<open>Device and raw channel\<close>

lemma dev_calls_follow:
  "follows up_device (dev_transact RE i t) (dev_transact VE i t)"
  "follows up_device (connect_proto RE p fl b) (connect_proto VE p fl b)"
  "follows up_device (disconnect_proto RE p) (disconnect_proto VE p)"
  "follows up_device (poll_proto RE p t) (poll_proto VE p t)"
  unfolding dev_transact_def connect_proto_def disconnect_proto_def poll_proto_def
  by (intro following dev_request_follows)+

lemma raw_status_follows: "follows up_pair (raw_status RE i c t) (raw_status VE i c t)"
  unfolding raw_status_def by (intro following follows_on_dev dev_calls_follow)

lemma raw_follow:
  "follows up_pair (raw_start_filter RE fid ft msk pat fl w) (raw_start_filter VE fid ft msk pat fl w)"
  "follows up_pair (raw_stop_filter RE fid) (raw_stop_filter VE fid)"
  "follows up_pair (raw_set_config RE p v) (raw_set_config VE p v)"
  "follows up_pair (raw_clear_periodic RE) (raw_clear_periodic VE)"
  "follows up_pair (raw_poll RE t) (raw_poll VE t)"
  "follows up_pair (raw_fast_init RE b) (raw_fast_init VE b)"
  by (rule follows_pairI, simp only: raw_start_filter_def raw_stop_filter_def raw_set_config_def raw_clear_periodic_def
        raw_poll_def raw_fast_init_def up_pair_simps snd_conv, rule followsD,
      intro following raw_status_follows follows_bump follows_on_dev dev_calls_follow)+

lemma raw_write_follows:
  "follows up_pair (raw_write RE fl msg) (raw_write VE fl msg :: (unit, 's, 'z) chan_op)"
proof -
  have "follows up_pair (sbind (slift (codec (write_msg p fl msg))) (\<lambda>c. raw_status RE c WriteMsg (from_millis 1000)))
      (sbind (slift (codec (write_msg p fl msg))) (\<lambda>c. raw_status VE c WriteMsg (from_millis 1000)))" for p
    by (intro following raw_status_follows)
  note core = followsD [OF this]
  show ?thesis
    unfolding follows_def
  proof
    fix s :: "'s device \<times> 'z raw_channel_scheme"
    obtain lo hi where "write_bounds (rc_proto (snd s)) = (lo, hi)" by fastforce
    with core [of "rc_proto (snd s)" s] show "raw_write RE fl msg (up_pair s) = apsnd up_pair (raw_write VE fl msg s)"
      by (simp only: raw_write_def up_pair_simps prod.case) (simp add: sthrow_def)
  qed
qed

lemma chan_clock_follows:
  "follows up_pair (chan_now RE) (chan_now VE)" "follows up_pair (chan_sleep RE d) (chan_sleep VE d)"
proof -
  have sleep: "t_thread_sleep R d (up_state s) = up_state (t_thread_sleep V d s)" for s
    by (simp add: remote_transport_def cable_view_def up_state_def)
  show "follows up_pair (chan_now RE) (chan_now VE)"
    by (simp add: follows_def chan_now_def clock_follows split_beta)
  show "follows up_pair (chan_sleep RE d) (chan_sleep VE d)"
    by (simp add: follows_def chan_sleep_def sleep)
qed

lemma raw_read_loop_follows:
  "raw_read_loop RE k deadline timeout (up_pair s) = map_option (apsnd up_pair) (raw_read_loop VE k deadline timeout s)"
proof (induction k arbitrary: s)
  case (Suc k)
  obtain n s1 where n: "chan_now VE s = (n, s1)" by (metis surj_pair)
  have n': "chan_now RE (up_pair s) = (n, up_pair s1)" using followsD [OF chan_clock_follows(1), of s] n by simp
  show ?case
  proof (cases n)
    case (Inl e)
    with n n' show ?thesis by simp
  next
    case (Inr now)
    obtain r s2 where p: "raw_poll VE (min (deadline - now) (from_millis 500)) s1 = (r, s2)" by (metis surj_pair)
    with followsD [OF raw_follow(5), of "min (deadline - now) (from_millis 500)" s1]
    have p': "raw_poll RE (min (deadline - now) (from_millis 500)) (up_pair s1) = (r, up_pair s2)" by simp
    obtain u s3 where z: "chan_sleep VE (from_millis 2) s2 = (u, s3)" by (metis surj_pair)
    with followsD [OF chan_clock_follows(2), of "from_millis 2" s2]
    have z': "chan_sleep RE (from_millis 2) (up_pair s2) = (u, up_pair s3)" by simp
    show ?thesis
      using n n' Inr p p' z z' Suc.IH [of s3] by (simp add: Let_def split: sum.split option.split)
  qed
qed simp

lemma raw_read_follows: "follows_fuel up_pair (raw_read RE k timeout) (raw_read VE k timeout)"
  unfolding follows_fuel_def
proof
  fix s
  obtain n s1 where n: "chan_now VE s = (n, s1)" by (metis surj_pair)
  with followsD [OF chan_clock_follows(1), of s] raw_read_loop_follows
  show "raw_read RE k timeout (up_pair s) = map_option (apsnd up_pair) (raw_read VE k timeout s)"
    by (cases n) (simp_all add: raw_read_def)
qed

section \<open>Channels\<close>

lemma retire_follows: "follows up_pair (retire_current RE) (retire_current VE)"
  unfolding follows_def
proof
  fix s :: "'s device \<times> channel"
  show "retire_current RE (up_pair s) = apsnd up_pair (retire_current VE s)"
  proof (cases "ch_current_filter (snd s)")
    case (Some old)
    obtain r s1 where r: "raw_stop_filter VE old (fst s, (snd s)\<lparr>ch_current_filter := None\<rparr>) = (r, s1)" by (metis surj_pair)
    with Some followsD [OF raw_follow(2), of old "(fst s, (snd s)\<lparr>ch_current_filter := None\<rparr>)"]
    show ?thesis by (simp add: retire_current_def split: sum.split fault.split)
  qed (simp add: retire_current_def)
qed

lemma channel_follow:
  "follows up_pair (set_filter RE e) (set_filter VE e)"
  "follows up_pair (send_flags RE i b fl) (send_flags VE i b fl)"
  "follows up_pair (can_send RE i b) (can_send VE i b)"
  "follows up_pair (chan_poll RE t) (chan_poll VE t)"
  "follows up_pair (kline_clear_periodic RE) (kline_clear_periodic VE)"
  "follows up_pair (kline_write RE b) (kline_write VE b)"
  "follows up_pair (kline_fast_init RE b) (kline_fast_init VE b)"
proof -
  show "follows up_pair (set_filter RE e) (set_filter VE e)"
    unfolding set_filter_def env_over_simps by (intro following retire_follows follows_take_id raw_follow follows_bump)
  show flags: "follows up_pair (send_flags RE i b fl) (send_flags VE i b fl)" for fl
    unfolding send_flags_def Let_def by (rule raw_write_follows)
  show "follows up_pair (can_send RE i b) (can_send VE i b)"
    unfolding can_send_def by (rule flags)
  show "follows up_pair (chan_poll RE t) (chan_poll VE t)" "follows up_pair (kline_clear_periodic RE) (kline_clear_periodic VE)"
    "follows up_pair (kline_write RE b) (kline_write VE b)" "follows up_pair (kline_fast_init RE b) (kline_fast_init VE b)"
    unfolding chan_poll_def kline_clear_periodic_def kline_write_def kline_fast_init_def
    by (rule raw_follow raw_write_follows)+
qed

section \<open>ISO-TP\<close>

lemma on_firmware_follows: "follows up_pair m m' \<Longrightarrow> on_firmware m c (up_pair s) = apsnd up_pair (on_firmware m' c s)"
  by (simp add: follows_def on_firmware_def split_beta)

lemma on_host_follows: "follows up_pair m m' \<Longrightarrow> follows up_pair (on_host m) (on_host m')"
  by (simp add: follows_def on_host_def split_beta split: path_channel.split)

lemma tp_clock_follows:
  "tp_now RE (up_pair s) = apsnd up_pair (tp_now VE s)" "tp_sleep RE d (up_pair s) = up_pair (tp_sleep VE d s)"
proof -
  have sleep: "t_thread_sleep R d (up_state s) = up_state (t_thread_sleep V d s)" for s
    by (simp add: remote_transport_def cable_view_def up_state_def)
  show "tp_now RE (up_pair s) = apsnd up_pair (tp_now VE s)" "tp_sleep RE d (up_pair s) = up_pair (tp_sleep VE d s)"
    by (simp_all add: tp_now_def tp_sleep_def clock_follows sleep split_beta)
qed

lemma host_frames_follow:
  "poll_frame RE b (up_pair s) = apsnd up_pair (poll_frame VE b s)" "host_tx RE f (up_pair s) = apsnd up_pair (host_tx VE f s)"
proof -
  have "follows up_pair (sbind (on_host (chan_poll RE b)) (\<lambda>r. sreturn (g r))) (sbind (on_host (chan_poll VE b)) (\<lambda>r. sreturn (g r)))"
    for g :: "rx_msg option \<Rightarrow> rx_msg option"
    by (intro following on_host_follows channel_follow)
  from followsD [OF this] show "poll_frame RE b (up_pair s) = apsnd up_pair (poll_frame VE b s)"
    unfolding poll_frame_def up_pair_simps .
  show "host_tx RE f (up_pair s) = apsnd up_pair (host_tx VE f s)"
    using followsD [OF on_host_follows [OF channel_follow(3)]] by (simp add: host_tx_def)
qed

lemma host_send_loop_follows:
  "host_send_loop RE k tx (up_pair s) = map_option (apsnd up_pair) (host_send_loop VE k tx s)"
proof (induction k arbitrary: tx s)
  case (Suc k)
  obtain now s1 where n: "tp_now VE s = (now, s1)" by (metis surj_pair)
  obtain a tx1 where x: "tx_next dbg now tx = (a, tx1)" by fastforce
  obtain now2 s2 where n2: "tp_now VE s1 = (now2, s2)" by (metis surj_pair)
  note known = n x n2 tp_clock_follows host_frames_follow Suc.IH
  show ?case
  proof (cases a)
    case (Inl e)
    with known show ?thesis by simp
  next
    case a: (Inr act)
    show ?thesis
    proof (cases act)
      case (Send f)
      obtain q s3 where "host_tx VE f s1 = (q, s3)" by (metis surj_pair)
      with known a Send show ?thesis by (cases q) simp_all
    next
      case (WaitFc deadline)
      obtain q s3 where p: "poll_frame VE (min (deadline - now2) (from_millis 100)) s2 = (q, s3)" by (metis surj_pair)
      obtain now3 s4 where "tp_now VE s3 = (now3, s4)" by (metis surj_pair)
      with known a WaitFc p show ?thesis
        by (simp split: sum.split option.split prod.split)
    next
      case (WaitUntil t)
      with known a show ?thesis by simp
    qed (use known a in simp)
  qed
qed simp

lemma host_recv_loop_follows:
  "host_recv_loop RE k deadline timeout rx (up_pair s) = map_option (apsnd up_pair) (host_recv_loop VE k deadline timeout rx s)"
proof (induction k arbitrary: rx s)
  case (Suc k)
  obtain now s1 where n: "tp_now VE s = (now, s1)" by (metis surj_pair)
  obtain q s2 where p: "poll_frame VE (min (deadline - now) (from_millis 200)) s1 = (q, s2)" by (metis surj_pair)
  obtain now2 s3 where n2: "tp_now VE s2 = (now2, s3)" by (metis surj_pair)
  note known = n p tp_clock_follows host_frames_follow Suc.IH
  show ?case
  proof (cases "q")
    case (Inl e)
    with known show ?thesis by (simp split: sum.split)
  next
    case q: (Inr r)
    show ?thesis
    proof (cases r)
      case None
      with known q show ?thesis by (simp split: sum.split)
    next
      case (Some m)
      obtain e rx1 where ev: "rx_on_frame dbg (drop 4 (rx_data m)) now2 rx = (e, rx1)" by fastforce
      note known = known n2 q Some ev
      show ?thesis
      proof (cases e)
        case (Inl x)
        with known show ?thesis by (simp split: sum.split)
      next
        case e: (Inr act)
        show ?thesis
        proof (cases act)
          case (SendFc fc)
          obtain w s4 where "host_tx VE fc s3 = (w, s4)" by (metis surj_pair)
          with known e SendFc show ?thesis by (cases w) (simp_all split: sum.split)
        qed (use known e in \<open>simp_all split: sum.split\<close>)
      qed
    qed
  qed
qed simp

lemma host_send_follows: "follows_fuel up_pair (host_send RE k p) (host_send VE k p)"
  by (simp add: follows_fuel_def host_send_def Let_def host_send_loop_follows split: sum.split)

lemma host_recv_follows: "follows_fuel up_pair (host_recv RE k t) (host_recv VE k t)"
  unfolding follows_fuel_def
proof
  fix s
  obtain now s1 where "tp_now VE s = (now, s1)" by (metis surj_pair)
  with tp_clock_follows host_recv_loop_follows
  show "host_recv RE k t (up_pair s) = map_option (apsnd up_pair) (host_recv VE k t s)"
    by (simp add: host_recv_def Let_def)
qed

lemma chan_read_follows: "follows_fuel up_pair (chan_read RE k t) (chan_read VE k t)"
  unfolding chan_read_def by (rule raw_read_follows)

lemma firmware_recv_follows:
  "firmware_recv RE n k timeout cfg (up_pair s) = map_option (apsnd up_pair) (firmware_recv VE n k timeout cfg s)"
proof (induction k arbitrary: s)
  case (Suc k)
  note read = follows_fuelD [OF chan_read_follows, of n timeout s]
  show ?case
  proof (cases "chan_read VE n timeout s")
    case None
    with read show ?thesis by simp
  next
    case (Some p)
    obtain r s1 where "p = (r, s1)" by (metis surj_pair)
    with Some read Suc.IH show ?thesis by (cases r) simp_all
  qed
qed simp

lemma isotp_send_follows: "follows_fuel up_pair (isotp_send RE k p) (isotp_send VE k p)"
  by (auto simp: follows_fuel_def isotp_send_def host_send_follows [THEN follows_fuelD]
      on_firmware_follows [OF channel_follow(2)] split: path_channel.split prod.split)

lemma isotp_recv_follows: "follows_fuel up_pair (isotp_recv RE k t) (isotp_recv VE k t)"
  unfolding follows_fuel_def
proof
  fix s :: "'s device \<times> isotp"
  show "isotp_recv RE k t (up_pair s) = map_option (apsnd up_pair) (isotp_recv VE k t s)"
  proof (cases "tp_chan (snd s)")
    case (Firmware c)
    with firmware_recv_follows [of k k t "tp_cfg (snd s)" "(fst s, c)"] show ?thesis
      by (simp add: isotp_recv_def option.map_comp comp_def split_beta)
  qed (simp add: isotp_recv_def follows_fuelD [OF host_recv_follows])
qed

lemma drain_from_follows:
  assumes "follows_fuel f recv recv'"
  shows "drain_from recv n (f s) = map_option (apsnd f) (drain_from recv' n s)"
  using assms
proof (induction recv' n s rule: drain_from.induct)
  case (1 recv' n s)
  show ?case
  proof (cases "recv' s")
    case None
    with follows_fuelD [OF 1(2), of s] show ?thesis by (simp add: drain_from.simps)
  next
    case (Some p)
    obtain r s1 where p: "p = (r, s1)" by (metis surj_pair)
    with Some follows_fuelD [OF 1(2), of s] 1 show ?thesis
      by (cases r) (simp_all add: drain_from.simps [of _ n])
  qed
qed

lemma isotp_request_follows: "follows_fuel up_pair (isotp_request RE k req t) (isotp_request VE k req t)"
  unfolding follows_fuel_def
proof
  fix s
  note send = follows_fuelD [OF isotp_send_follows, of k req s]
  show "isotp_request RE k req t (up_pair s) = map_option (apsnd up_pair) (isotp_request VE k req t s)"
  proof (cases "isotp_send VE k req s")
    case None
    with send show ?thesis by (simp add: isotp_request_def)
  next
    case (Some p)
    obtain r s1 where "p = (r, s1)" by (metis surj_pair)
    with Some send drain_from_follows [OF isotp_recv_follows] show ?thesis
      by (cases r) (simp_all add: isotp_request_def drain_pending_def)
  qed
qed

section \<open>K-line\<close>

lemma on_ecu_follows: "follows up_pair m m' \<Longrightarrow> follows up_pair (on_ecu m) (on_ecu m')"
  by (simp add: follows_def on_ecu_def split_beta)

lemma ecu_now_follows: "ecu_now RE (up_pair s) = apsnd up_pair (ecu_now VE s)"
  by (simp add: ecu_now_def clock_follows split_beta)

lemma ecu_read_follows: "ecu_read RE k t (up_pair s) = map_option (apsnd up_pair) (ecu_read VE k t s)"
  using follows_fuelD [OF chan_read_follows, of k t "(fst s, ke_chan (snd s))"]
  by (simp add: ecu_read_def option.map_comp comp_def split_beta)

lemma flush_from_follows: "flush_from RE k n (up_pair s) = apsnd up_pair (flush_from VE k n s)"
proof (induction k arbitrary: n s)
  case (Suc k)
  obtain r s1 where "on_ecu (chan_poll VE FLUSH_POLL) s = (r, s1)" by (metis surj_pair)
  with followsD [OF on_ecu_follows [OF channel_follow(4)], of FLUSH_POLL s] Suc.IH show ?case
    by (simp split: sum.split fault.split option.split)
qed simp

lemma fast_init_follows: "follows up_pair (ecu_fast_init RE) (ecu_fast_init VE)"
  by (simp add: follows_def ecu_fast_init_def followsD [OF on_ecu_follows [OF channel_follow(7)]])

lemma reinit_follows: "follows up_pair (reinit RE) (reinit VE)"
  unfolding reinit_def
proof (intro follows_sbind)
  show "follows up_pair (flush_ring RE) (flush_ring VE)"
    by (simp add: follows_def flush_ring_def flush_from_follows)
  show "follows up_pair (\<lambda>s. case ecu_fast_init RE s of (Inl Panic, s1) \<Rightarrow> (panic, s1) | (_, s1) \<Rightarrow> (Ok (), s1))
      (\<lambda>s. case ecu_fast_init VE s of (Inl Panic, s1) \<Rightarrow> (panic, s1) | (_, s1) \<Rightarrow> (Ok (), s1))"
    unfolding follows_def
  proof
    fix s
    obtain r s1 where "ecu_fast_init VE s = (r, s1)" by (metis surj_pair)
    with followsD [OF fast_init_follows, of s]
    show "(case ecu_fast_init RE (up_pair s) of (Inl Panic, s1) \<Rightarrow> (panic, s1) | (_, s1) \<Rightarrow> (Ok (), s1))
      = apsnd up_pair (case ecu_fast_init VE s of (Inl Panic, s1) \<Rightarrow> (panic, s1) | (_, s1) \<Rightarrow> (Ok (), s1))"
      by (simp split: sum.split fault.split)
  qed
qed

lemma recover_follows:
  "follows up_pair (recover_from_storm RE nrc) (recover_from_storm VE nrc)"
  "follows up_pair (sbind (reinit RE) (\<lambda>_. sthrow e)) (sbind (reinit VE) (\<lambda>_. sthrow e))"
  unfolding recover_from_storm_def by (intro following reinit_follows)+

lemma request_loop_follows:
  "request_loop RE n k start timeout nrc (up_pair s) = map_option (apsnd up_pair) (request_loop VE n k start timeout nrc s)"
proof (induction k arbitrary: nrc s)
  case (Suc k)
  let ?t = "case nrc of Some _ \<Rightarrow> max timeout PENDING_READ_TIMEOUT | None \<Rightarrow> timeout"
  note read = ecu_read_follows [of n ?t s]
  show ?case
  proof (cases "ecu_read VE n ?t s")
    case None
    with read show ?thesis by (simp add: Let_def)
  next
    case (Some p)
    obtain r s1 where p: "p = (r, s1)" by (metis surj_pair)
    obtain now s2 where "ecu_now VE s1 = (now, s2)" by (metis surj_pair)
    with Some p read ecu_now_follows [of s1] Suc.IH show ?thesis
      by (simp add: Let_def recover_follows [THEN followsD] split: sum.split fault.split error.split option.split)
  qed
qed simp

lemma ecu_request_follows: "follows_fuel up_pair (ecu_request RE n k req t) (ecu_request VE n k req t)"
  unfolding follows_fuel_def
proof
  fix s
  obtain r s1 where c: "on_ecu (kline_clear_periodic VE) s = (r, s1)" by (metis surj_pair)
  obtain q s2 where w: "on_ecu (kline_write VE (ecu_frame (snd s1) req)) s1 = (q, s2)" by (metis surj_pair)
  obtain now s3 where n: "ecu_now VE s2 = (now, s3)" by (metis surj_pair)
  from c w n followsD [OF on_ecu_follows [OF channel_follow(5)], of s]
    followsD [OF on_ecu_follows [OF channel_follow(6)], of "ecu_frame (snd s1) req" s1]
    ecu_now_follows [of s2] request_loop_follows
  show "ecu_request RE n k req t (up_pair s) = map_option (apsnd up_pair) (ecu_request VE n k req t s)"
    by (simp add: ecu_request_def split: sum.split)
qed

section \<open>Connecting\<close>

lemma raw_drop_follows: "raw_drop RE (up_device d) r = up_device (raw_drop VE d r)"
  by (simp add: raw_drop_def followsD [OF dev_calls_follow(3)] dev_drop_follows)

lemma dev_connect_follows: "follows up_device (dev_connect RE p cfg) (dev_connect VE p cfg)"
proof -
  have clone: "dev_clone (up_device d) = up_device (dev_clone d)" for d :: "'s device" by (simp add: dev_clone_def)
  have raw: "follows up_device (raw_connect RE p fl b) (raw_connect VE p fl b)" for fl b
    unfolding follows_def
  proof
    fix d
    obtain r d1 where "connect_proto VE p fl b d = (r, d1)" by fastforce
    with followsD [OF dev_calls_follow(2), of p fl b d]
    show "raw_connect RE p fl b (up_device d) = apsnd up_device (raw_connect VE p fl b d)"
      by (cases r) (simp_all add: raw_connect_def dev_drop_follows)
  qed
  have "follows up_device (sbind (raw_connect RE p fl b) (\<lambda>r. sreturn (channel_new r)))
      (sbind (raw_connect VE p fl b) (\<lambda>r. sreturn (channel_new r)))" for fl b
    by (intro following raw)
  from followsD [OF this] show ?thesis by (simp add: follows_def dev_connect_def clone split: prod.split)
qed

lemma install_filter_follows: "install_filter RE (up_pair s) = apsnd up_pair (install_filter VE s)"
  by (simp add: install_filter_def Let_def followsD [OF on_host_follows [OF channel_follow(1)]]
      on_firmware_follows [OF channel_follow(1)] split: path_channel.split)

lemma isotp_new_follows: "follows up_device (isotp_new RE cfg path) (isotp_new VE cfg path)"
proof -
  have conn: "follows up_device (isotp_connect RE cfg path) (isotp_connect VE cfg path)"
    unfolding isotp_connect_def connect_deferred_def
    by (cases path) (simp_all only: isotp_path.case, (intro following dev_connect_follows)+)
  have inst: "follows up_device
      (\<lambda>d. case install_filter RE (d, tp) of (Inl Panic, (d', tp')) \<Rightarrow> (panic, d')
         | (Inl (Fail e), (d', tp')) \<Rightarrow> (Err e, raw_drop RE d' (chan_of tp')) | (Inr _, (d', tp')) \<Rightarrow> (Ok tp', d'))
      (\<lambda>d. case install_filter VE (d, tp) of (Inl Panic, (d', tp')) \<Rightarrow> (panic, d')
         | (Inl (Fail e), (d', tp')) \<Rightarrow> (Err e, raw_drop VE d' (chan_of tp')) | (Inr _, (d', tp')) \<Rightarrow> (Ok tp', d'))" for tp
    unfolding follows_def
  proof
    fix d
    obtain r d1 tp1 where "install_filter VE (d, tp) = (r, (d1, tp1))" by (metis surj_pair)
    then show "(case install_filter RE (up_device d, tp) of (Inl Panic, (d', tp')) \<Rightarrow> (panic, d')
         | (Inl (Fail e), (d', tp')) \<Rightarrow> (Err e, raw_drop RE d' (chan_of tp')) | (Inr _, (d', tp')) \<Rightarrow> (Ok tp', d'))
      = apsnd up_device (case install_filter VE (d, tp) of (Inl Panic, (d', tp')) \<Rightarrow> (panic, d')
         | (Inl (Fail e), (d', tp')) \<Rightarrow> (Err e, raw_drop VE d' (chan_of tp')) | (Inr _, (d', tp')) \<Rightarrow> (Ok tp', d'))"
      by (simp add: install_filter_follows raw_drop_follows split_beta split: sum.split fault.split)
  qed
  show ?thesis
    unfolding isotp_new_def by (intro follows_sbind conn inst)
qed

lemma kline_setup_follows: "follows up_pair (kline_setup RE timing) (kline_setup VE timing)"
proof -
  have "follows up_pair (set_timing RE ps) (set_timing VE ps)" for ps
  proof (induction ps)
    case (Cons p ps)
    then show ?case
      by (cases p) (simp only: set_timing.simps chan_set_config_def, intro following raw_follow)
  qed (simp only: set_timing.simps following)
  then show ?thesis
    unfolding kline_setup_def by (intro following channel_follow)
qed

lemma connect_with_follows: "follows up_device (connect_with RE ecu timing) (connect_with VE ecu timing)"
proof -
  have "follows up_device
      (\<lambda>d. case kline_setup RE timing (d, c) of (Inl Panic, (d', c')) \<Rightarrow> (panic, d')
         | (Inl (Fail e), (d', c')) \<Rightarrow> (Err e, raw_drop RE d' c') | (Inr _, (d', c')) \<Rightarrow> (Ok (kline_new c' ecu), d'))
      (\<lambda>d. case kline_setup VE timing (d, c) of (Inl Panic, (d', c')) \<Rightarrow> (panic, d')
         | (Inl (Fail e), (d', c')) \<Rightarrow> (Err e, raw_drop VE d' c') | (Inr _, (d', c')) \<Rightarrow> (Ok (kline_new c' ecu), d'))" for c
    unfolding follows_def
  proof
    fix d
    obtain r d1 c1 where "kline_setup VE timing (d, c) = (r, (d1, c1))" by (metis surj_pair)
    then show "(case kline_setup RE timing (up_device d, c) of (Inl Panic, (d', c')) \<Rightarrow> (panic, d')
         | (Inl (Fail e), (d', c')) \<Rightarrow> (Err e, raw_drop RE d' c') | (Inr _, (d', c')) \<Rightarrow> (Ok (kline_new c' ecu), d'))
      = apsnd up_device (case kline_setup VE timing (d, c) of (Inl Panic, (d', c')) \<Rightarrow> (panic, d')
         | (Inl (Fail e), (d', c')) \<Rightarrow> (Err e, raw_drop VE d' c') | (Inr _, (d', c')) \<Rightarrow> (Ok (kline_new c' ecu), d'))"
      by (simp add: followsD [OF kline_setup_follows] raw_drop_follows split_beta split: sum.split fault.split)
  qed
  then show ?thesis
    unfolding connect_with_def by (intro follows_sbind dev_connect_follows)
qed

end

end
