(* ===== verification/Tools.thy ===== *)
theory Tools
  imports Bridge KLine Handles
begin

text \<open>
  The programs over the driver: opening a device (\<open>Device::open_with\<close>, \<open>open_usb\<close> of
  \<open>rmvci-core/src/session/device.rs\<close>), the demo client \<open>rmvci-net/src/bin/rmvci-remote.rs\<close>, the
  K-line observer \<open>rmvci-net/src/bin/kraw.rs\<close> and \<open>examples/prius-hvac/src/main.rs\<close>. A program is
  its argument parser, its decoder of replies and its run on an opened session; a line it prints is
  a value of a datatype, \<open>q\<close> prints a string the way \<open>{:?}\<close> does, and a loop that polls for ever
  has the number of its rounds as an argument.
\<close>

section \<open>Texts\<close>

definition hex_list :: "bytes \<Rightarrow> string" where
  "hex_list bs = ''['' @ concat (case map (\<lambda>b. hex_digits 2 (unat b)) bs of [] \<Rightarrow> [] | x # xs \<Rightarrow> x # map (\<lambda>y. '', '' @ y) xs) @ '']''"

definition nrc_text :: "u8 \<Rightarrow> string" where
  "nrc_text nrc = ''NRC 0x'' @ hex_digits 2 (unat nrc)"

definition unexpected :: "(string \<Rightarrow> string) \<Rightarrow> string \<Rightarrow> string \<Rightarrow> string" where
  "unexpected q usage a = ''unexpected argument '' @ q a @ [CHR 0x0A] @ usage"

section \<open>Opening a device\<close>

text \<open>The state behind a device is its port's; \<open>env\<close> gives the environment of a transport.\<close>

definition device_open_with :: "('d serial_dev \<Rightarrow> 'd env) \<Rightarrow> (string \<Rightarrow> nat \<Rightarrow> duration \<Rightarrow> string + 'd serial_dev \<times> 'd)
    \<Rightarrow> string option \<Rightarrow> string option \<Rightarrow> duration option \<Rightarrow> ('d serial_dev \<times> 'd device, error) res" where
  "device_open_with env opener mvci_port port keepalive =
     rbind (map_err Transport (serial_open opener (resolve_port port mvci_port))) (\<lambda>(D, d).
       rbind (fst (open_transport (env D) keepalive d)) (\<lambda>dev. Ok (D, dev)))"

definition device_open :: "('d serial_dev \<Rightarrow> 'd env) \<Rightarrow> (string \<Rightarrow> nat \<Rightarrow> duration \<Rightarrow> string + 'd serial_dev \<times> 'd)
    \<Rightarrow> string \<Rightarrow> ('d serial_dev \<times> 'd device, error) res" where
  "device_open env opener port = device_open_with env opener None (Some port) None"

definition device_open_usb :: "('d usb_dev \<Rightarrow> 'd usb env) \<Rightarrow> string + usb_info list \<Rightarrow> (usb_info \<Rightarrow> string + 'd usb_dev \<times> 'd)
    \<Rightarrow> string option \<Rightarrow> duration option \<Rightarrow> ('d usb_dev \<times> 'd usb device, error) res" where
  "device_open_usb env listing claim serial keepalive =
     rbind (map_err (\<lambda>(e, _). Transport e) (usb_open listing claim serial)) (\<lambda>(D, u).
       rbind (fst (open_transport (env D) keepalive u)) (\<lambda>dev. Ok (D, dev)))"

section \<open>The demo client\<close>

definition ECU_TX :: u16 where "ECU_TX = 0x7c4"
definition ECU_RX :: u16 where "ECU_RX = 0x7cc"
definition LID_AIR_OUTLET_SERVO :: u8 where "LID_AIR_OUTLET_SERVO = 0x43"

record remote_args =
  ra_addr :: string
  ra_hvac :: bool
  ra_isotp :: isotp_path
  ra_watch :: bool

definition REMOTE_USAGE :: string where
  "REMOTE_USAGE = ''usage: rmvci-remote ADDR:PORT [--hvac] [--isotp firmware|host] [--watch]''"

fun remote_args_from :: "(string \<Rightarrow> string) \<Rightarrow> string option \<Rightarrow> bool \<Rightarrow> isotp_path \<Rightarrow> bool \<Rightarrow> string list \<Rightarrow> string + remote_args" where
  "remote_args_from q addr hvac isotp watch [] =
     (case addr of
        None \<Rightarrow> Inl REMOTE_USAGE
      | Some a \<Rightarrow> Inr \<lparr>ra_addr = a, ra_hvac = hvac, ra_isotp = isotp, ra_watch = watch\<rparr>)"
| "remote_args_from q addr hvac isotp watch (a # rest) =
     (if a = ''--hvac'' then remote_args_from q addr True isotp watch rest
      else if a = ''--watch'' then remote_args_from q addr hvac isotp True rest
      else if a = ''--isotp'' then
        (case rest of
           [] \<Rightarrow> Inl ''--isotp expects firmware|host, got None''
         | p # rest1 \<Rightarrow>
             if p = ''firmware'' then remote_args_from q addr hvac FirmwarePath watch rest1
             else if p = ''host'' then remote_args_from q addr hvac HostPath watch rest1
             else Inl (''--isotp expects firmware|host, got Some('' @ q p @ '')''))
      else if a = ''--help'' \<or> a = ''-h'' then Inl REMOTE_USAGE
      else if addr = None then remote_args_from q (Some a) hvac isotp watch rest
      else Inl (unexpected q REMOTE_USAGE a))"

definition remote_parse_args :: "(string \<Rightarrow> string) \<Rightarrow> string list \<Rightarrow> string + remote_args" where
  "remote_parse_args q args = remote_args_from q None False FirmwarePath False args"

definition decode_servo :: "bytes \<Rightarrow> string + u8 \<times> u8" where
  "decode_servo resp =
     (case resp of
        a # b # c # rest \<Rightarrow>
          if a = 0x61 \<and> b = LID_AIR_OUTLET_SERVO \<and> rest \<noteq> [] then Inr (c, hd rest)
          else if a = 0x7f \<and> b = 0x21 then Inl (''ECU refused service 21: '' @ nrc_text c)
          else Inl (''unexpected reply '' @ hex_list resp)
      | _ \<Rightarrow> Inl (''unexpected reply '' @ hex_list resp))"

datatype remote_line = ConnectingTo string | FirmwareLine bytes | RawLine bytes
  | ServoLine u8 u8 int | TextLine string | NoReplyLine

text \<open>What is printed of one request; the other errors end the program.\<close>

definition hvac_lines :: "(bytes, error) res \<Rightarrow> (remote_line list, error) res" where
  "hvac_lines r =
     (case r of
        Inr resp \<Rightarrow> Ok [RawLine resp, case decode_servo resp of
            Inr (c, a) \<Rightarrow> ServoLine c a (uint a - uint c)
          | Inl e \<Rightarrow> TextLine e]
      | Inl (Fail (NoFilterInstalled _)) \<Rightarrow> Ok [NoReplyLine]
      | Inl (Fail (Timeout _)) \<Rightarrow> Ok [NoReplyLine]
      | Inl e \<Rightarrow> Inl e)"

text \<open>\<open>k\<close> is the fuel of a request, then the rounds watched; no result is a program still running.\<close>

fun hvac_rounds :: "'s env \<Rightarrow> nat \<Rightarrow> nat \<Rightarrow> bool \<Rightarrow> 's device \<times> isotp
    \<Rightarrow> (remote_line list \<times> (unit, error) res option \<times> 's device \<times> isotp) option" where
  "hvac_rounds E k 0 watch s = Some ([], None, s)"
| "hvac_rounds E k (Suc n) watch s =
     (case isotp_request E k [0x21, LID_AIR_OUTLET_SERVO] (from_secs 2) s of
        None \<Rightarrow> None
      | Some (r, s1) \<Rightarrow> (case hvac_lines r of
          Inl e \<Rightarrow> Some ([], Some (Inl e), s1)
        | Inr ls \<Rightarrow>
            if \<not> watch then Some (ls, Some (Ok ()), s1)
            else map_option (\<lambda>(ls', q, s2). (ls @ ls', q, s2)) (hvac_rounds E k n watch (tp_sleep E (from_millis 500) s1))))"

definition read_hvac :: "'s env \<Rightarrow> nat \<Rightarrow> nat \<Rightarrow> isotp_path \<Rightarrow> bool \<Rightarrow> 's device
    \<Rightarrow> (remote_line list \<times> (unit, error) res option \<times> 's device) option" where
  "read_hvac E k n path watch d =
     (case isotp_new E (isotp_config_new (Std ECU_TX) (Std ECU_RX)) path d of
        (Inl e, d1) \<Rightarrow> Some ([], Some (Inl e), d1)
      | (Inr tp, d1) \<Rightarrow> map_option (\<lambda>(ls, r, s).
          (ls, r, case r of None \<Rightarrow> fst s | Some _ \<Rightarrow> raw_drop E (fst s) (chan_of (snd s))))
          (hvac_rounds E k n watch (d1, tp)))"

text \<open>\<open>run\<close> after the arguments; \<open>opened\<close> is the device over the bridge connected to, its port given.\<close>

definition remote_client :: "'s env \<Rightarrow> nat \<Rightarrow> nat \<Rightarrow> remote_args \<Rightarrow> 's device
    \<Rightarrow> (remote_line list \<times> (unit, error) res option \<times> 's device) option" where
  "remote_client E k n a d =
     (case firmware_version E d of
        (Inl e, d1) \<Rightarrow> Some ([], Some (Inl e), dev_drop E d1)
      | (Inr v, d1) \<Rightarrow>
          if \<not> ra_hvac a then Some ([FirmwareLine v], Some (Ok ()), dev_drop E d1)
          else map_option (\<lambda>(ls, r, d2). (FirmwareLine v # ls, r, case r of None \<Rightarrow> d2 | Some _ \<Rightarrow> dev_drop E d2))
                 (read_hvac E k n (ra_isotp a) (ra_watch a) d1))"

definition remote_run :: "net_env \<Rightarrow> ('s transport \<Rightarrow> 's bridge env) \<Rightarrow> 's transport \<Rightarrow> nat \<Rightarrow> nat \<Rightarrow> remote_args
    \<Rightarrow> io_error_kind \<times> string + 's \<Rightarrow> (remote_line list \<times> (unit, error) res option \<times> 's bridge device option) option" where
  "remote_run N env T k n a dialled =
     (case map_err Transport (tcp_connect N T dialled) of
        Inl e \<Rightarrow> Some ([ConnectingTo (ra_addr a)], Some (Inl e), None)
      | Inr c \<Rightarrow> (case fst (open_transport (env T) None c) of
          Inl e \<Rightarrow> Some ([ConnectingTo (ra_addr a)], Some (Inl e), None)
        | Inr d \<Rightarrow> map_option (\<lambda>(ls, r, d1). (ConnectingTo (ra_addr a) # ls, r, Some d1)) (remote_client (env T) k n a d)))"

section \<open>The Prius damper reader\<close>

definition AC_AMP :: u8 where "AC_AMP = 0x98"
definition LID_DAMPER_ACTUAL :: u8 where "LID_DAMPER_ACTUAL = 0x0d"
definition LID_DAMPER_TARGET :: u8 where "LID_DAMPER_TARGET = 0x13"

definition PRIUS_USAGE :: string where
  "PRIUS_USAGE = ''usage: prius-hvac [--watch] [PORT]''"

text \<open>The port and whether to watch.\<close>

fun prius_args_from :: "(string \<Rightarrow> string) \<Rightarrow> string option \<Rightarrow> bool \<Rightarrow> string list \<Rightarrow> string + string option \<times> bool" where
  "prius_args_from q port watch [] = Inr (port, watch)"
| "prius_args_from q port watch (a # rest) =
     (if a = ''--watch'' then prius_args_from q port True rest
      else if a = ''--help'' \<or> a = ''-h'' then Inl PRIUS_USAGE
      else if port = None then prius_args_from q (Some a) watch rest
      else Inl (unexpected q PRIUS_USAGE a))"

definition prius_parse_args :: "(string \<Rightarrow> string) \<Rightarrow> string list \<Rightarrow> string + string option \<times> bool" where
  "prius_parse_args q args = prius_args_from q None False args"

definition hex_upper :: "u8 \<Rightarrow> string" where
  "hex_upper b = map (\<lambda>i. ''0123456789ABCDEF'' ! (unat b div 16 ^ i mod 16)) [1, 0]"

text \<open>In halves of a percent, which \<open>f32\<close> holds exactly: \<open>b0 * 0.5 - 14.0\<close>.\<close>

definition decode_damper :: "u8 \<Rightarrow> bytes \<Rightarrow> string + int" where
  "decode_damper lid resp =
     (let other = Inl (''unexpected reply to 21 '' @ hex_upper lid @ '': '' @ hex_list resp) in
      case resp of
        a # l # b # _ \<Rightarrow>
          if a = 0x61 \<and> l = lid then Inr (uint b - 28)
          else if a = 0x7f \<and> l = 0x21 then Inl (''ECU refused 21 '' @ hex_upper lid @ '': '' @ nrc_text b)
          else other
      | _ \<Rightarrow> other)"

definition read_damper :: "'s env \<Rightarrow> nat \<Rightarrow> nat \<Rightarrow> u8 \<Rightarrow> 's device \<times> kline_ecu
    \<Rightarrow> ((string + int, error) res \<times> ('s device \<times> kline_ecu)) option" where
  "read_damper E n k lid s =
     (case ecu_request E n k [0x21, lid] (from_secs 2) s of
        None \<Rightarrow> None
      | Some (Inl e, s1) \<Rightarrow> Some (Inl e, s1)
      | Some (Inr resp, s1) \<Rightarrow> Some (Ok (decode_damper lid resp), s1))"

text \<open>The positions printed, actual and target.\<close>

type_synonym damper_line = "(string + int) \<times> (string + int)"

fun damper_rounds :: "'s env \<Rightarrow> nat \<Rightarrow> nat \<Rightarrow> nat \<Rightarrow> bool \<Rightarrow> 's device \<times> kline_ecu
    \<Rightarrow> (damper_line list \<times> (unit, error) res option \<times> 's device \<times> kline_ecu) option" where
  "damper_rounds E n k 0 watch s = Some ([], None, s)"
| "damper_rounds E n k (Suc m) watch s =
     (case read_damper E n k LID_DAMPER_ACTUAL s of
        None \<Rightarrow> None
      | Some (Inl e, s1) \<Rightarrow> Some ([], Some (Inl e), s1)
      | Some (Inr actual, s1) \<Rightarrow> (case read_damper E n k LID_DAMPER_TARGET s1 of
          None \<Rightarrow> None
        | Some (Inl e, s2) \<Rightarrow> Some ([], Some (Inl e), s2)
        | Some (Inr target, s2) \<Rightarrow>
            if \<not> watch then Some ([(actual, target)], Some (Ok ()), s2)
            else map_option (\<lambda>(ls, r, s3). ((actual, target) # ls, r, s3))
                   (damper_rounds E n k m watch
                     ((fst s2)\<lparr>dv_actor := (dv_actor (fst s2))\<lparr>ac_io :=
                        t_thread_sleep (ev_io E) (from_millis 500) (ac_io (dv_actor (fst s2)))\<rparr>\<rparr>, snd s2))))"

text \<open>\<open>run\<close> on the opened device. However it ends, the channel goes first and the device after it; at
  the regular end that is \<open>close\<close>, whose wait is over at once.\<close>

datatype prius_line = OpeningLine string | PriusFirmwareLine bytes | KeyBytesLine bytes | DamperLine damper_line

definition prius_session :: "'s env \<Rightarrow> nat \<Rightarrow> nat \<Rightarrow> nat \<Rightarrow> bool \<Rightarrow> 's device
    \<Rightarrow> (prius_line list \<times> (unit, error) res option \<times> 's device) option" where
  "prius_session E n k m watch d =
     (case firmware_version E d of
        (Inl e, d1) \<Rightarrow> Some ([], Some (Inl e), dev_drop E d1)
      | (Inr v, d1) \<Rightarrow> (case kline_connect E AC_AMP d1 of
          (Inl e, d2) \<Rightarrow> Some ([PriusFirmwareLine v], Some (Inl e), dev_drop E d2)
        | (Inr ecu, d2) \<Rightarrow> (case ecu_fast_init E (d2, ecu) of
            (Inl e, (d3, ecu3)) \<Rightarrow> Some ([PriusFirmwareLine v], Some (Inl e), dev_drop E (raw_drop E d3 (ke_chan ecu3)))
          | (Inr kb, s) \<Rightarrow> map_option (\<lambda>(ls, r, (d4, ecu4)).
              (PriusFirmwareLine v # KeyBytesLine kb # map DamperLine ls, r, if r = None then d4
                      else if r = Some (Ok ()) then snd (dev_close E (raw_drop E d4 (ke_chan ecu4)))
                      else dev_drop E (raw_drop E d4 (ke_chan ecu4))))
              (damper_rounds E n k m watch s))))"

section \<open>The K-line observer\<close>

text \<open>\<open>parse::<u32>\<close>, \<open>from_str_radix(_, 16)\<close> for a byte, and \<open>trim_start_matches("0x")\<close>.\<close>

definition unsigned_digits :: "string \<Rightarrow> string" where
  "unsigned_digits s = (case s of c # cs \<Rightarrow> if c = CHR ''+'' then cs else s | [] \<Rightarrow> [])"

definition parse_u32 :: "string \<Rightarrow> u32 option" where
  "parse_u32 s =
     (let ds = unsigned_digits s in
      if ds = [] then None
      else case digits_value 0 ds of Some v \<Rightarrow> if v < 2 ^ 32 then Some (of_nat v) else None | None \<Rightarrow> None)"

definition hex_digit_of :: "char \<Rightarrow> nat option" where
  "hex_digit_of c =
     (let n = of_char c in
      if 48 \<le> n \<and> n \<le> 57 then Some (n - 48)
      else if 97 \<le> n \<and> n \<le> 102 then Some (n - 87)
      else if 65 \<le> n \<and> n \<le> 70 then Some (n - 55) else None)"

fun hex_value :: "nat \<Rightarrow> string \<Rightarrow> nat option" where
  "hex_value v [] = Some v"
| "hex_value v (c # cs) = (case hex_digit_of c of None \<Rightarrow> None | Some k \<Rightarrow> hex_value (16 * v + k) cs)"

definition hex_byte :: "string \<Rightarrow> u8 option" where
  "hex_byte s =
     (let ds = unsigned_digits s in
      if ds = [] then None
      else case hex_value 0 ds of Some v \<Rightarrow> if v < 256 then Some (of_nat v) else None | None \<Rightarrow> None)"

fun trim_0x :: "string \<Rightarrow> string" where
  "trim_0x (a # b # cs) = (if a = CHR ''0'' \<and> b = CHR ''x'' then trim_0x cs else a # b # cs)"
| "trim_0x s = s"

text \<open>The index of the first \<open>--rate\<close>, and the arguments without it and its value.\<close>

fun position :: "('a \<Rightarrow> bool) \<Rightarrow> 'a list \<Rightarrow> nat option" where
  "position p [] = None"
| "position p (x # xs) = (if p x then Some 0 else map_option Suc (position p xs))"

definition kraw_rate :: "string list \<Rightarrow> u32 option \<times> string list" where
  "kraw_rate args =
     (case position (\<lambda>a. a = ''--rate'') args of
        None \<Rightarrow> (None, args)
      | Some i \<Rightarrow>
          (if i + 1 < length args then parse_u32 (args ! (i + 1)) else None,
           take i args @ drop (min (i + 1) (length args - 1) + 1) args))"

fun split_then :: "string list \<Rightarrow> string list list" where
  "split_then [] = [[]]"
| "split_then (a # rest) =
     (if a = ''then'' then [] # split_then rest
      else case split_then rest of g # gs \<Rightarrow> (a # g) # gs | [] \<Rightarrow> [[a]])"

text \<open>\<open>expect\<close>: a text that is no byte is a panic.\<close>

fun hex_bytes :: "string list \<Rightarrow> (bytes, 'e) res" where
  "hex_bytes [] = Ok []"
| "hex_bytes (a # rest) =
     (case hex_byte (trim_0x a) of
        None \<Rightarrow> panic
      | Some b \<Rightarrow> rbind (hex_bytes rest) (\<lambda>bs. Ok (b # bs)))"

fun hex_groups :: "string list list \<Rightarrow> (bytes list, 'e) res" where
  "hex_groups [] = Ok []"
| "hex_groups (g # gs) = rbind (hex_bytes g) (\<lambda>b. rbind (hex_groups gs) (\<lambda>bs. Ok (b # bs)))"

record kraw_args =
  ka_rate :: "u32 option"
  ka_addr :: string
  ka_ecu :: u8
  ka_reqs :: "bytes list"

text \<open>Fewer than three arguments print the usage and exit.\<close>

definition kraw_parse :: "string list \<Rightarrow> (kraw_args, unit) res" where
  "kraw_parse args0 =
     (case kraw_rate args0 of (rate, args) \<Rightarrow>
        if length args < 3 then Err ()
        else (case hex_byte (trim_0x (args ! 1)) of
            None \<Rightarrow> panic
          | Some ecu \<Rightarrow> rbind (hex_groups (split_then (drop 2 args))) (\<lambda>reqs.
              Ok \<lparr>ka_rate = rate, ka_addr = args ! 0, ka_ecu = ecu, ka_reqs = filter (\<lambda>r. r \<noteq> []) reqs\<rparr>)))"

definition kraw_timing :: "u32 option \<Rightarrow> (u32 \<times> u32) list" where
  "kraw_timing rate =
     (case rate of
        Some baud \<Rightarrow> map (\<lambda>(p, v). (p, if p = 0x01 then baud else v)) KLINE_TIMING
      | None \<Rightarrow> KLINE_TIMING)"

definition kraw_frame :: "u8 \<Rightarrow> bytes \<Rightarrow> bytes" where
  "kraw_frame ecu req = [0x80 OR of_nat (length req), ecu, 0xf0] @ req"

definition KRAW_CAP :: nat where "KRAW_CAP = 60"

datatype kraw_end = Capped | Quiet nat | ReadError error | Crashed

text \<open>The frames read after a request, until the ECU is quiet, a read fails or the cap is reached; \<open>n\<close> is
  the fuel of a read.\<close>

function kraw_listen :: "'s env \<Rightarrow> nat \<Rightarrow> bytes list \<Rightarrow> 's device \<times> kline_ecu
    \<Rightarrow> ((bytes list \<times> kraw_end) \<times> 's device \<times> kline_ecu) option" where
  "kraw_listen E n got s =
     (case ecu_read E n (from_millis 2000) s of
        None \<Rightarrow> None
      | Some (Inr msg, s1) \<Rightarrow>
          let got1 = got @ [rx_data msg] in
          if length got1 \<ge> KRAW_CAP then Some ((got1, Capped), s1) else kraw_listen E n got1 s1
      | Some (Inl (Fail (Timeout _)), s1) \<Rightarrow> Some ((got, Quiet (length got)), s1)
      | Some (Inl (Fail e), s1) \<Rightarrow> Some ((got, ReadError e), s1)
      | Some (Inl Panic, s1) \<Rightarrow> Some ((got, Crashed), s1))"
  by pat_completeness auto
termination
  by (relation "measure (\<lambda>(E, n, got, s). KRAW_CAP - length got)") auto

declare kraw_listen.simps [simp del]

text \<open>The requests in turn; \<open>unwrap\<close> makes every failure before the reading a panic.\<close>

fun kraw_requests :: "'s env \<Rightarrow> nat \<Rightarrow> bytes list \<Rightarrow> 's device \<times> kline_ecu
    \<Rightarrow> ((bytes \<times> bytes list \<times> kraw_end) list \<times> bool \<times> 's device \<times> kline_ecu) option" where
  "kraw_requests E n [] s = Some ([], True, s)"
| "kraw_requests E n (req # reqs) s =
     (case on_ecu (kline_clear_periodic E) s of
        (Inl _, s1) \<Rightarrow> Some ([], False, s1)
      | (Inr _, s1) \<Rightarrow> (case on_ecu (kline_write E (kraw_frame (ke_ecu (snd s)) req)) s1 of
          (Inl _, s2) \<Rightarrow> Some ([], False, s2)
        | (Inr _, s2) \<Rightarrow> (case kraw_listen E n [] s2 of
            None \<Rightarrow> None
          | Some ((got, ending), s3) \<Rightarrow>
              map_option (\<lambda>(logs, ok, s4). ((kraw_frame (ke_ecu (snd s)) req, got, ending) # logs, ok, s4))
                (kraw_requests E n reqs s3))))"

definition kraw_session :: "'s env \<Rightarrow> nat \<Rightarrow> kraw_args \<Rightarrow> 's device
    \<Rightarrow> ((bytes \<times> bytes list \<times> kraw_end) list \<times> bool) option" where
  "kraw_session E n a d =
     (case firmware_version E d of
        (Inl _, d1) \<Rightarrow> Some ([], False)
      | (Inr _, d1) \<Rightarrow> (case connect_with E (ka_ecu a) (kraw_timing (ka_rate a)) d1 of
          (Inl _, d2) \<Rightarrow> Some ([], False)
        | (Inr ecu, d2) \<Rightarrow> (case ecu_fast_init E (d2, ecu) of
            (Inl _, s) \<Rightarrow> Some ([], False)
          | (Inr _, s) \<Rightarrow> map_option (\<lambda>(logs, ok, _). (logs, ok)) (kraw_requests E n (ka_reqs a) s))))"

section \<open>Decoders and arguments\<close>

text \<open>A position comes only from a positive reply for the same identifier, and is a byte's value.\<close>

lemma u8_le: "uint (b :: u8) \<le> 255"
  using uint_lt2p [of b] by simp

lemma decode_damper_range:
  "decode_damper lid resp = Inr v \<Longrightarrow> take 2 resp = [0x61, lid] \<and> -28 \<le> v \<and> v \<le> 227"
  by (auto simp: decode_damper_def Let_def u8_le split: list.splits if_splits)

lemma decode_damper_examples:
  "decode_damper 0x0d [0x61, 0x0d, 0x09] = Inr (-19)"
  "isl (decode_damper 0x0d [0x61, 0x13, 0x08])"
  "decode_damper 0x0d [0x7f, 0x21, 0x12] = Inl ''ECU refused 21 0D: NRC 0x12''"
  by (simp_all add: decode_damper_def Let_def hex_upper_def nrc_text_def hex_digits_def upt_rec)

lemma decode_servo_examples:
  "decode_servo [0x61, 0x43, 0x7b, 0x79] = Inr (0x7b, 0x79)"
  "decode_servo [0x7f, 0x21, 0x11] = Inl ''ECU refused service 21: NRC 0x11''"
  "decode_servo [0x61] = Inl ''unexpected reply [61]''"
  by (simp_all add: decode_servo_def LID_AIR_OUTLET_SERVO_def nrc_text_def hex_list_def hex_digits_def upt_rec)

text \<open>A misspelt option in the place of the address is taken for the address.\<close>

lemma remote_args_examples:
  "remote_parse_args q [''h:1'', ''--hvac'', ''--isotp'', ''host''] = Inr \<lparr>ra_addr = ''h:1'', ra_hvac = True, ra_isotp = HostPath, ra_watch = False\<rparr>"
  "remote_parse_args q [] = Inl REMOTE_USAGE"
  "remote_parse_args q [''--hvca''] = Inr \<lparr>ra_addr = ''--hvca'', ra_hvac = False, ra_isotp = FirmwarePath, ra_watch = False\<rparr>"
  "prius_parse_args q [''--wacth''] = Inr (Some ''--wacth'', False)"
  by (simp_all add: remote_parse_args_def prius_parse_args_def)

lemma kraw_parse_example:
  "kraw_parse [''--rate'', ''10400'', ''h:1'', ''0x98'', ''21'', ''0d'', ''then'', ''21'', ''13'']
     = Ok \<lparr>ka_rate = Some 10400, ka_addr = ''h:1'', ka_ecu = 0x98, ka_reqs = [[0x21, 0x0d], [0x21, 0x13]]\<rparr>"
  by (simp add: kraw_parse_def kraw_rate_def parse_u32_def unsigned_digits_def digit_of_def hex_byte_def hex_digit_of_def Let_def)

text \<open>The observer's frame is the driver's, for every request whose length fits the format byte.\<close>

lemma kraw_frame_as_driver: "length req < 0x40 \<Longrightarrow> kraw_frame ecu req = build_frame ecu TESTER_DEFAULT req"
  by (simp add: kraw_frame_def build_frame_def TESTER_DEFAULT_def)

section \<open>The handles of a program\<close>

lemma on_ecu_handles: "keeps handles m \<Longrightarrow> keeps handles (on_ecu m)"
  by (simp add: keeps_def on_ecu_def split_beta)

lemma kline_handles:
  "keeps handles (kline_clear_periodic E)" "keeps handles (kline_write E b)" "keeps handles (kline_fast_init E b)"
  "keeps handles (chan_poll E t)" "keeps handles (set_timing E ps)" "keeps handles (kline_setup E ps)"
proof -
  show c: "keeps handles (kline_clear_periodic E)" "keeps handles (kline_write E b)" "keeps handles (kline_fast_init E b)"
    "keeps handles (chan_poll E t)"
    unfolding kline_clear_periodic_def kline_write_def kline_fast_init_def chan_poll_def
    by (rule raw_handles raw_write_handles raw_transact_handles)+
  show timing: "keeps handles (set_timing E ps)" for ps
    by (induction E ps rule: set_timing.induct)
      (simp_all only: set_timing.simps chan_set_config_def keeps_pure keeps_sbind raw_handles)
  show "keeps handles (kline_setup E ps)"
    unfolding kline_setup_def by (intro keeps_sbind channel_handles timing c)
qed

lemma connect_with_handles:
  assumes "connect_with E ecu timing d = (r, d')" and "r \<noteq> panic"
  shows "dv_handles d' = dv_handles d + (case r of Inr _ \<Rightarrow> 1 | Inl _ \<Rightarrow> 0)"
proof -
  obtain q d1 where q: "dev_connect E Iso14230 (kline_wire kline_config_default) d = (q, d1)" by fastforce
  note h = dev_connect_handles [OF q]
  show ?thesis
  proof (cases q)
    case (Inl e)
    with assms q h show ?thesis by (auto simp: connect_with_def)
  next
    case (Inr c)
    obtain y d2 c' where i: "kline_setup E timing (d1, c) = (y, (d2, c'))" by (metis surj_pair)
    have "dv_handles d2 = dv_handles d1" using keepsD [OF kline_handles(6) i] by simp
    with assms q Inr i h show ?thesis
      by (auto simp: connect_with_def raw_drop_handles split: sum.splits fault.splits)
  qed
qed

lemma ecu_fast_init_handles: "keeps handles (ecu_fast_init E)"
  by (simp add: keeps_def ecu_fast_init_def keeps_apply [OF on_ecu_handles [OF kline_handles(3)]])

lemma flush_handles: "handles (snd (flush_from E k n s)) = handles s"
proof (induction E k n s rule: flush_from.induct)
  case (2 E k n s)
  obtain r s1 where p: "on_ecu (chan_poll E FLUSH_POLL) s = (r, s1)" by (metis surj_pair)
  with 2 keepsD [OF on_ecu_handles [OF kline_handles(4)] p] show ?case
    by (auto split: sum.split fault.split option.split)
qed simp

lemma reinit_handles: "keeps handles (reinit E)"
proof -
  have "keeps handles (flush_ring E)" by (simp add: keeps_def flush_ring_def flush_handles)
  moreover have "keeps handles (\<lambda>s. case ecu_fast_init E s of (Inl Panic, s1) \<Rightarrow> (panic, s1) | (_, s1) \<Rightarrow> (Ok (), s1))"
    unfolding keeps_def
  proof
    fix s :: "'a device \<times> kline_ecu"
    obtain r s1 where f: "ecu_fast_init E s = (r, s1)" by (metis surj_pair)
    from keepsD [OF ecu_fast_init_handles f]
    show "handles (snd (case ecu_fast_init E s of (Inl Panic, s1) \<Rightarrow> (panic, s1) | (_, s1) \<Rightarrow> (Ok (), s1))) = handles s"
      by (simp add: f split: sum.split fault.split)
  qed
  ultimately show ?thesis unfolding reinit_def by (intro keeps_sbind)
qed

lemma ecu_read_handles: "ecu_read E n t s = Some (r, s') \<Longrightarrow> handles s' = handles s"
  by (auto simp: ecu_read_def chan_read_def dest: raw_read_handles)

lemma ecu_now_handles: "handles (snd (ecu_now E s)) = handles s"
  by (simp add: ecu_now_def split: prod.split)

lemma request_loop_handles:
  "request_loop E n k start timeout last_pending s = Some (r, s') \<Longrightarrow> handles s' = handles s"
proof (induction k arbitrary: last_pending s)
  case (Suc k)
  have recover: "handles s' = handles s1" if "recover_from_storm E nrc s1 = (r, s')" for nrc s1
  proof -
    have "keeps handles (recover_from_storm E nrc)"
      unfolding recover_from_storm_def by (intro keeps_sbind reinit_handles keeps_pure)
    from keepsD [OF this that] show ?thesis .
  qed
  have give_up: "handles s' = handles s1" if "sbind (reinit E) (\<lambda>_. sthrow e) s1 = (r, s')" for e s1
  proof -
    have "keeps handles (sbind (reinit E) (\<lambda>_. sthrow e :: (bytes, 'a) ecu_op))"
      by (intro keeps_sbind reinit_handles keeps_pure)
    from keepsD [OF this that] show ?thesis .
  qed
  define t where "t = (case last_pending of Some _ \<Rightarrow> max timeout PENDING_READ_TIMEOUT | None \<Rightarrow> timeout)"
  from Suc.prems obtain x s1 where rd: "ecu_read E n t s = Some (x, s1)"
    by (auto simp: Let_def t_def split: option.splits)
  have h: "handles s1 = handles s" by (rule ecu_read_handles [OF rd])
  obtain now s2 where now: "ecu_now E s1 = (now, s2)" by (metis surj_pair)
  have h2: "handles s2 = handles s" using ecu_now_handles [of E s1] now h by simp
  from Suc.prems [unfolded request_loop.simps Let_def t_def [symmetric] rd option.case prod.case]
  show ?case
    using h h2 now recover give_up Suc.IH
    by (auto split: sum.splits fault.splits error.splits if_splits option.splits)
qed simp

lemma ecu_request_handles:
  assumes "ecu_request E n k req timeout s = Some (r, s')"
  shows "handles s' = handles s"
proof -
  obtain x s1 where c: "on_ecu (kline_clear_periodic E) s = (x, s1)" by (metis surj_pair)
  obtain y s2 where w: "on_ecu (kline_write E (ecu_frame (snd s1) req)) s1 = (y, s2)" by (metis surj_pair)
  obtain now s3 where n: "ecu_now E s2 = (now, s3)" by (metis surj_pair)
  have h: "handles s1 = handles s" "handles s2 = handles s1" "handles s3 = handles s2"
    using keepsD [OF on_ecu_handles [OF kline_handles(1)] c] keepsD [OF on_ecu_handles [OF kline_handles(2)] w]
      ecu_now_handles [of E s2] n by simp_all
  from assms h show ?thesis
    by (auto simp: ecu_request_def c w n split: sum.splits dest: request_loop_handles)
qed

lemma rounds_handles:
  "hvac_rounds E k m watch t = Some (ls, r, t') \<Longrightarrow> handles t' = handles t"
  "damper_rounds E n k m watch s = Some (ds, q, s') \<Longrightarrow> handles s' = handles s"
proof -
  show "hvac_rounds E k m watch t = Some (ls, r, t') \<Longrightarrow> handles t' = handles t"
  proof (induction m arbitrary: t ls)
    case (Suc m)
    from Suc.prems obtain x t1 where x: "isotp_request E k [0x21, LID_AIR_OUTLET_SERVO] (from_secs 2) t = Some (x, t1)"
      by (auto split: option.splits)
    with Suc.prems Suc.IH [of "tp_sleep E (from_millis 500) t1"] isotp_request_handles [OF x]
      tp_clock_handles(2) [of E "from_millis 500" t1] show ?case
      by (auto split: sum.splits if_splits)
  qed simp
  have read: "handles s1 = handles s" if "read_damper E n k lid s = Some (x, s1)" for lid x s s1
    using that by (auto simp: read_damper_def split: option.splits sum.splits dest: ecu_request_handles)
  show "damper_rounds E n k m watch s = Some (ds, q, s') \<Longrightarrow> handles s' = handles s"
  proof (induction m arbitrary: s ds)
    case (Suc m)
    from Suc.prems obtain x s1 where x: "read_damper E n k LID_DAMPER_ACTUAL s = Some (x, s1)"
      by (auto split: option.splits)
    with Suc.prems Suc.IH read show ?case
      by (auto split: sum.splits option.splits if_splits prod.splits dest!: read)
  qed simp
qed

lemma drop_last: "dv_handles d = 1 \<Longrightarrow> dv_handles (dev_drop E d) = 0 \<and> \<not> dv_alive (dev_drop E d)"
  by (simp add: dev_drop_last)

lemma prius_session_releases:
  assumes one: "dv_handles d = 1" and "q \<noteq> panic" and run: "prius_session E n k m watch d = Some (ds, Some q, d')"
  shows "dv_handles d' = 0 \<and> \<not> dv_alive d'"
proof -
  obtain v d1 where v: "firmware_version E d = (v, d1)" by fastforce
  have h1: "dv_handles d1 = 1" using keepsD [OF version_handles v] one by simp
  obtain c d2 where c: "kline_connect E AC_AMP d1 = (c, d2)" by fastforce
  note run = run [unfolded prius_session_def v c prod.case]
  show ?thesis
  proof (cases v)
    case (Inl e)
    with run drop_last [OF h1] show ?thesis by auto
  next
    case v: (Inr v)
    show ?thesis
    proof (cases c)
      case (Inl e)
      with run v assms(2) have "dv_handles d2 = 1"
        using connect_with_handles [OF c [unfolded kline_connect_def]] h1 by auto
      with run v Inl show ?thesis using drop_last by auto
    next
      case (Inr ecu)
      then have h2: "dv_handles d2 = 2"
        using connect_with_handles [OF c [unfolded kline_connect_def]] h1 by simp
      obtain y d3 ecu3 where i: "ecu_fast_init E (d2, ecu) = (y, (d3, ecu3))" by (metis surj_pair)
      have h3: "dv_handles d3 = 2" using keepsD [OF ecu_fast_init_handles i] h2 by simp
      have dropped: "dv_handles (raw_drop E d4 ch) = 1" if "dv_handles d4 = 2" for d4 and ch :: channel
        using that by (simp add: raw_drop_handles)
      show ?thesis
      proof (cases y)
        case (Inl e)
        with run v Inr i drop_last [OF dropped [OF h3]] show ?thesis by auto
      next
        case y: (Inr y)
        with run v Inr i obtain d4 ecu4 ls where rounds: "damper_rounds E n k m watch (d3, ecu3) = Some (ls, Some q, (d4, ecu4))"
          and d': "d' = (if q = Ok () then snd (dev_close E (raw_drop E d4 (ke_chan ecu4))) else dev_drop E (raw_drop E d4 (ke_chan ecu4)))"
          by auto
        have "dv_handles d4 = 2" using rounds_handles(2) [OF rounds] h3 by simp
        with d' drop_last [OF dropped] show ?thesis by (simp add: dev_close_def Let_def)
      qed
    qed
  qed
qed

lemma remote_client_releases:
  assumes one: "dv_handles d = 1" and "q \<noteq> panic" and run: "remote_client E k m a d = Some (ls, Some q, d')"
  shows "dv_handles d' = 0 \<and> \<not> dv_alive d'"
proof -
  obtain v d1 where v: "firmware_version E d = (v, d1)" by fastforce
  have h1: "dv_handles d1 = 1" using keepsD [OF version_handles v] one by simp
  note run = run [unfolded remote_client_def v prod.case]
  show ?thesis
  proof (cases v)
    case (Inl e)
    with run drop_last [OF h1] show ?thesis by auto
  next
    case v: (Inr v)
    show ?thesis
    proof (cases "ra_hvac a")
      case False
      with run v drop_last [OF h1] show ?thesis by auto
    next
      case True
      with run v obtain ls' d2 where hvac: "read_hvac E k m (ra_isotp a) (ra_watch a) d1 = Some (ls', Some q, d2)"
        and d': "d' = dev_drop E d2" by auto
      obtain c d3 where c: "isotp_new E (isotp_config_new (Std ECU_TX) (Std ECU_RX)) (ra_isotp a) d1 = (c, d3)" by fastforce
      have "dv_handles d2 = 1"
      proof (cases c)
        case (Inl e)
        with hvac c assms(2) isotp_new_handles [OF c] h1 show ?thesis by (auto simp: read_hvac_def)
      next
        case (Inr tp)
        with isotp_new_handles [OF c] h1 have h3: "dv_handles d3 = 2" by simp
        from hvac c Inr obtain s where rounds: "hvac_rounds E k m (ra_watch a) (d3, tp) = Some (ls', Some q, s)"
          and d2: "d2 = raw_drop E (fst s) (chan_of (snd s))" by (auto simp: read_hvac_def)
        from rounds_handles(1) [OF rounds] h3 d2 show ?thesis by (simp add: raw_drop_handles)
      qed
      with d' drop_last show ?thesis by auto
    qed
  qed
qed

section \<open>Reading ends\<close>

lemma raw_read_not_panic: "raw_read E k timeout s = Some (r, s') \<Longrightarrow> r \<noteq> panic"
proof -
  have poll: "fst (raw_poll E t s) \<noteq> panic" for t and s :: "'a device \<times> 'b raw_channel_scheme"
    by (simp add: raw_poll_def on_dev_def split_beta)
  have "raw_read_loop E k deadline timeout s = Some (r, s') \<Longrightarrow> r \<noteq> panic" for deadline and s
  proof (induction k arbitrary: s)
    case (Suc k)
    then show ?case
      using poll by (auto simp: chan_now_def Let_def split: prod.splits if_splits sum.splits option.splits) (metis fst_conv)+
  qed simp
  then show "raw_read E k timeout s = Some (r, s') \<Longrightarrow> r \<noteq> panic"
    by (auto simp: raw_read_def chan_now_def split: prod.splits)
qed

lemma version_not_panic: "firmware_version E d \<noteq> (panic, d')"
proof
  assume v: "firmware_version E d = (panic, d')"
  obtain r d1 where t: "dev_transact E read_version (from_millis 1000) d = (r, d1)" by fastforce
  then have "r \<noteq> panic" using dev_calls_not_panic(1) [of E read_version "from_millis 1000" d] by simp
  with v t show False by (cases r) (auto simp: firmware_version_def idx_def split: if_splits)
qed

context session_clock
begin

lemma kraw_listen_ends:
  assumes "1001 \<le> n"
  shows "length got < KRAW_CAP \<Longrightarrow> \<exists>got1 e s'. kraw_listen E n got s = Some ((got @ got1, e), s')
    \<and> length (got @ got1) \<le> KRAW_CAP \<and> (e = Capped \<longleftrightarrow> length (got @ got1) = KRAW_CAP)
    \<and> (\<forall>q. e = Quiet q \<longrightarrow> q = length (got @ got1)) \<and> e \<noteq> Crashed"
proof (induction "KRAW_CAP - length got" arbitrary: got s rule: less_induct)
  case less
  obtain r s1 where rd: "raw_read E n (from_millis 2000) (fst s, ke_chan (snd s)) = Some (r, s1)"
    using raw_read_ends [of "from_millis 2000" n "(fst s, ke_chan (snd s))"] assms by auto
  define s2 where "s2 = (fst s1, (snd s)\<lparr>ke_chan := snd s1\<rparr>)"
  have ecu: "ecu_read E n (from_millis 2000) s = Some (r, s2)"
    using rd by (cases s1) (simp add: ecu_read_def chan_read_def s2_def)
  have np: "r \<noteq> panic" by (rule raw_read_not_panic [OF rd])
  show ?case
  proof (cases r)
    case (Inl f)
    with np obtain e where "f = Fail e" by (cases f) auto
    with Inl ecu less.prems show ?thesis
      by (cases e) (simp_all add: kraw_listen.simps [of E n got])
  next
    case (Inr msg)
    let ?got = "got @ [rx_data msg]"
    show ?thesis
    proof (cases "KRAW_CAP \<le> length ?got")
      case True
      with Inr ecu less.prems show ?thesis by (simp add: kraw_listen.simps [of E n got] Let_def)
    next
      case False
      then have shorter: "KRAW_CAP - length ?got < KRAW_CAP - length got" "length ?got < KRAW_CAP" by simp_all
      from less.hyps [OF shorter, of s2] obtain got1 e s' where "kraw_listen E n ?got s2 = Some ((?got @ got1, e), s')"
        "length (?got @ got1) \<le> KRAW_CAP \<and> (e = Capped \<longleftrightarrow> length (?got @ got1) = KRAW_CAP)
         \<and> (\<forall>q. e = Quiet q \<longrightarrow> q = length (?got @ got1)) \<and> e \<noteq> Crashed"
        by blast
      with False Inr ecu show ?thesis
        by (intro exI [of _ "rx_data msg # got1"] exI [of _ e] exI [of _ s']) (simp add: kraw_listen.simps [of E n got] Let_def)
    qed
  qed
qed

end

section \<open>Properties\<close>

text \<open>However a run of the damper reader or the demo client ends, short of a panic, it leaves nothing
  behind: the channel is dropped before the device, so the device's handle is the last one, and the
  session's thread, which owns the port, has ended.\<close>
theorem programs_release_port:
  assumes "dv_handles d = 1" and "q \<noteq> panic"
    and "prius_session E n k m watch d = Some (ds, Some q, d') \<or> remote_client E k m a d = Some (ls, Some q, d')"
  shows "dv_handles d' = 0 \<and> \<not> dv_alive d'"
  using assms(3)
proof
  assume "prius_session E n k m watch d = Some (ds, Some q, d')"
  then show ?thesis using prius_session_releases [OF assms(1,2)] by blast
next
  assume "remote_client E k m a d = Some (ls, Some q, d')"
  then show ?thesis using remote_client_releases [OF assms(1,2)] by blast
qed

lemma programs_release_port_witness:
  "\<exists>ls q d'. remote_client (mock_env False xor_cipher xor_cipher) 0 0
     \<lparr>ra_addr = ''h:1'', ra_hvac = False, ra_isotp = HostPath, ra_watch = False\<rparr>
     \<lparr>dv_actor = actor_new mock_transport None [1] (mock_new []), dv_alive = True, dv_handles = 1, dv_closed = False\<rparr>
     = Some (ls, Some q, d') \<and> dv_handles d' = 0 \<and> \<not> dv_alive d'" (is "\<exists>ls q d'. remote_client ?E 0 0 ?a ?d = _ \<and> _")
proof -
  obtain v d1 where v: "firmware_version ?E ?d = (v, d1)" by fastforce
  then have "v \<noteq> panic" using version_not_panic by metis
  with v obtain ls q where q: "q \<noteq> panic" "remote_client ?E 0 0 ?a ?d = Some (ls, Some q, dev_drop ?E d1)"
    by (cases v) (auto simp: remote_client_def)
  have "dv_handles ?d = 1" by simp
  from programs_release_port [OF this q(1) disjI2 [OF q(2)]] q(2) show ?thesis by blast
qed

text \<open>Watching a request's replies ends, with any ECU and any adapter: each read ends within its two
  seconds, and after sixty frames the observer stops by itself, so an ECU that sends
  response-pending for ever does not hold it. It is never a panic, the frames are reported in the
  order they came, and the count it prints when the line is quiet is theirs.\<close>
theorem kraw_listen_returns:
  assumes "session_clock E time" and "1001 \<le> n"
  shows "\<exists>got e s'. kraw_listen E n [] s = Some ((got, e), s') \<and> length got \<le> 60
    \<and> (e = Capped \<longleftrightarrow> length got = 60) \<and> (\<forall>q. e = Quiet q \<longrightarrow> q = length got) \<and> e \<noteq> Crashed"
proof -
  have "length ([] :: bytes list) < KRAW_CAP" by (simp add: KRAW_CAP_def)
  from session_clock.kraw_listen_ends [OF assms this, of s] show ?thesis
    by (auto simp: KRAW_CAP_def)
qed

lemma kraw_listen_returns_witness:
  "\<exists>got e s'. kraw_listen (mock_env False xor_cipher xor_cipher) 1001 []
     (\<lparr>dv_actor = actor_new mock_transport None [1] (mock_new []), dv_alive = True, dv_handles = 2, dv_closed = False\<rparr>,
      kline_new (channel_new \<lparr>rc_proto = Iso14230, rc_nfilters = 1\<rparr>) 0x98) = Some ((got, e), s') \<and> length got \<le> 60"
  using kraw_listen_returns [OF mock_timed.session_clock_axioms, of 1001 False xor_cipher xor_cipher] by fastforce

end
