(* ===== verification/Remote_Clients.thy ===== *)
theory Remote_Clients
  imports Remote_Calls Tools
begin

text \<open>
  The programs that reach the cable over the network, \<open>rmvci-remote\<close> and \<open>kraw\<close>, against the same
  programs at the cable: what they print, how they end and the state they leave behind are the same,
  and so is the fuel they need.
\<close>

section \<open>The programs follow\<close>

context remote_session
begin

lemma firmware_version_follows: "follows up_device (firmware_version RE) (firmware_version VE)"
  unfolding firmware_version_def by (intro following dev_calls_follow)

lemma hvac_rounds_follows:
  "hvac_rounds RE k n watch (up_pair s)
     = map_option (\<lambda>(ls, r, s1). (ls, r, up_pair s1)) (hvac_rounds VE k n watch s)"
proof (induction n arbitrary: s)
  case (Suc n)
  note req = follows_fuelD [OF isotp_request_follows, of k "[0x21, LID_AIR_OUTLET_SERVO]" "from_secs 2" s]
  show ?case
  proof (cases "isotp_request VE k [0x21, LID_AIR_OUTLET_SERVO] (from_secs 2) s")
    case None
    with req show ?thesis by simp
  next
    case (Some p)
    obtain r s1 where "p = (r, s1)" by (metis surj_pair)
    with Some req Suc.IH show ?thesis
      by (cases watch) (simp_all add: tp_clock_follows option.map_comp comp_def case_prod_unfold split: sum.split)
  qed
qed simp

lemma read_hvac_follows:
  "read_hvac RE k n path watch (up_device d)
     = map_option (\<lambda>(ls, r, d1). (ls, r, up_device d1)) (read_hvac VE k n path watch d)"
proof -
  let ?cfg = "isotp_config_new (Std ECU_TX) (Std ECU_RX)"
  obtain r d1 where r: "isotp_new VE ?cfg path d = (r, d1)" by fastforce
  with followsD [OF isotp_new_follows, of ?cfg path d]
  have r': "isotp_new RE ?cfg path (up_device d) = (r, up_device d1)" by simp
  show ?thesis
  proof (cases r)
    case (Inr tp)
    with r r' show ?thesis
      by (auto simp: read_hvac_def hvac_rounds_follows option.map_comp comp_def case_prod_unfold raw_drop_follows
          intro!: option.map_cong0 split: option.split)
  qed (use r r' in \<open>simp add: read_hvac_def\<close>)
qed

lemma remote_client_follows:
  "remote_client RE k n a (up_device d)
     = map_option (\<lambda>(ls, r, d1). (ls, r, up_device d1)) (remote_client VE k n a d)"
proof -
  obtain v d1 where v: "firmware_version VE d = (v, d1)" by fastforce
  with followsD [OF firmware_version_follows, of d]
  have v': "firmware_version RE (up_device d) = (v, up_device d1)" by simp
  show ?thesis
    by (cases v) (auto simp: remote_client_def v v' dev_drop_follows read_hvac_follows option.map_comp comp_def case_prod_unfold
        intro!: option.map_cong0 split: option.split)
qed

lemma kraw_listen_follows:
  "kraw_listen RE n got (up_pair s) = map_option (apsnd up_pair) (kraw_listen VE n got s)"
proof (induction "KRAW_CAP - length got" arbitrary: got s rule: less_induct)
  case less
  note read = ecu_read_follows [of n "from_millis 2000" s]
  show ?case
  proof (cases "ecu_read VE n (from_millis 2000) s")
    case None
    with read show ?thesis by (simp add: kraw_listen.simps [of _ n got])
  next
    case (Some p)
    obtain r s1 where p: "p = (r, s1)" by (metis surj_pair)
    show ?thesis
    proof (cases r)
      case (Inl f)
      with Some p read show ?thesis
        by (simp add: kraw_listen.simps [of _ n got] split: fault.split error.split)
    next
      case (Inr m)
      have "KRAW_CAP - length (got @ [rx_data m]) < KRAW_CAP - length got" if "length (got @ [rx_data m]) < KRAW_CAP"
        using that by simp
      with Inr Some p read less.hyps [of "got @ [rx_data m]" s1] show ?thesis
        by (simp add: kraw_listen.simps [of _ n got] Let_def)
    qed
  qed
qed

lemma kraw_requests_follows:
  "kraw_requests RE n reqs (up_pair s)
     = map_option (\<lambda>(logs, ok, s1). (logs, ok, up_pair s1)) (kraw_requests VE n reqs s)"
proof (induction reqs arbitrary: s)
  case (Cons req reqs)
  obtain r s1 where c: "on_ecu (kline_clear_periodic VE) s = (r, s1)" by (metis surj_pair)
  let ?f = "kraw_frame (ke_ecu (snd s)) req"
  obtain q s2 where w: "on_ecu (kline_write VE ?f) s1 = (q, s2)" by (metis surj_pair)
  note calls = c w followsD [OF on_ecu_follows [OF channel_follow(5)], of s]
    followsD [OF on_ecu_follows [OF channel_follow(6)], of ?f s1] kraw_listen_follows [of n "[]" s2]
  show ?case
  proof (cases "kraw_listen VE n [] s2")
    case None
    with calls show ?thesis by (simp split: sum.split)
  next
    case (Some p)
    obtain log s3 where "p = (log, s3)" by (metis surj_pair)
    with Some calls Cons.IH show ?thesis
      by (cases log) (simp add: option.map_comp comp_def case_prod_unfold split: sum.split)
  qed
qed simp

lemma kraw_session_follows: "kraw_session RE n a (up_device d) = kraw_session VE n a d"
proof -
  obtain v d1 where v: "firmware_version VE d = (v, d1)" by fastforce
  obtain c d2 where c: "connect_with VE (ka_ecu a) (kraw_timing (ka_rate a)) d1 = (c, d2)" by fastforce
  note up = v c followsD [OF firmware_version_follows, of d]
    followsD [OF connect_with_follows, of "ka_ecu a" "kraw_timing (ka_rate a)" d1]
  show ?thesis
  proof (cases c)
    case (Inl e)
    with up show ?thesis by (simp add: kraw_session_def split: sum.split)
  next
    case (Inr ecu)
    obtain i s where "ecu_fast_init VE (d2, ecu) = (i, s)" by (metis surj_pair)
    with up Inr followsD [OF fast_init_follows, of "(d2, ecu)"] show ?thesis
      by (simp add: kraw_session_def kraw_requests_follows option.map_comp comp_def case_prod_unfold split: sum.split)
  qed
qed

end

section \<open>The programs at the cable\<close>

text \<open>The two programs with the cable in hand: the same runs without the connection.\<close>

definition remote_at_cable :: "'s env \<Rightarrow> nat \<Rightarrow> nat \<Rightarrow> remote_args \<Rightarrow> 's
    \<Rightarrow> (remote_line list \<times> (unit, error) res option \<times> 's device option) option" where
  "remote_at_cable E k n a s =
     (case fst (open_transport E None s) of
        Inl e \<Rightarrow> Some ([ConnectingTo (ra_addr a)], Some (Inl e), None)
      | Inr d \<Rightarrow> map_option (\<lambda>(ls, r, d1). (ConnectingTo (ra_addr a) # ls, r, Some d1)) (remote_client E k n a d))"

definition kraw_on :: "'s env \<Rightarrow> nat \<Rightarrow> kraw_args \<Rightarrow> 's \<Rightarrow> ((bytes \<times> bytes list \<times> kraw_end) list \<times> bool) option" where
  "kraw_on E n a s =
     (case fst (open_transport E None s) of Inl e \<Rightarrow> Some ([], False) | Inr d \<Rightarrow> kraw_session E n a d)"

end
