(* ===== verification/Programs.thy ===== *)
theory Programs
  imports Tools
begin

text \<open>
  The command line programs from their arguments to their exit code: \<open>run\<close> and \<open>main\<close> of
  \<open>rmvci-remote\<close>, \<open>rmvci-bridge\<close> and \<open>prius-hvac\<close>. What \<open>main\<close> writes to standard error is a list of
  lines; the set-up of logging before it has no effect on either. \<open>show\<close> is an error's \<open>Display\<close>.
\<close>

datatype program_end = StillRunning | Exited nat "string list"

text \<open>The code of a process that panics is 101; its message is the runtime's.\<close>

definition program_exit :: "('e \<Rightarrow> string) \<Rightarrow> (unit, 'e) res \<Rightarrow> program_end" where
  "program_exit show r =
     (case r of
        Inr _ \<Rightarrow> Exited 0 []
      | Inl (Fail e) \<Rightarrow> Exited 1 [''error: '' @ show e]
      | Inl Panic \<Rightarrow> Exited 101 [])"

definition run_end :: "('e \<Rightarrow> string) \<Rightarrow> (unit, 'e) res option \<Rightarrow> program_end" where
  "run_end show r = (case r of None \<Rightarrow> StillRunning | Some q \<Rightarrow> program_exit show q)"

text \<open>\<open>dial\<close> is the outcome of connecting to an address.\<close>

definition remote_main :: "(string \<Rightarrow> string) \<Rightarrow> (error \<Rightarrow> string) \<Rightarrow> net_env \<Rightarrow> ('s transport \<Rightarrow> 's bridge env) \<Rightarrow> 's transport
    \<Rightarrow> nat \<Rightarrow> nat \<Rightarrow> (string \<Rightarrow> io_error_kind \<times> string + 's) \<Rightarrow> string list \<Rightarrow> (remote_line list \<times> program_end) option" where
  "remote_main q show N env T k n dial args =
     (case remote_parse_args q args of
        Inl e \<Rightarrow> Some ([], Exited 2 [e])
      | Inr a \<Rightarrow> map_option (\<lambda>(ls, r, _). (ls, run_end show r)) (remote_run N env T k n a (dial (ra_addr a))))"

definition bridge_main :: "(string \<Rightarrow> string) \<Rightarrow> net_env \<Rightarrow> ('u, 's) bridge_world \<Rightarrow> string list \<Rightarrow> bytes list \<times> program_end" where
  "bridge_main q N W args = apsnd (program_exit (\<lambda>e. e)) (bridge_run q N W args)"

text \<open>\<open>resolve_port\<close> is applied by the program and, to its result, by \<open>open_with\<close>.\<close>

definition prius_run :: "('d serial_dev \<Rightarrow> 'd env) \<Rightarrow> (string \<Rightarrow> nat \<Rightarrow> duration \<Rightarrow> string + 'd serial_dev \<times> 'd)
    \<Rightarrow> string option \<Rightarrow> nat \<Rightarrow> nat \<Rightarrow> nat \<Rightarrow> string option \<times> bool
    \<Rightarrow> (prius_line list \<times> (unit, error) res option \<times> 'd device option) option" where
  "prius_run env opener mvci_port n k m a =
     (let port = resolve_port (fst a) mvci_port in
      case device_open_with env opener mvci_port (Some port) None of
        Inl e \<Rightarrow> Some ([OpeningLine port], Some (Inl e), None)
      | Inr (D, dev) \<Rightarrow> map_option (\<lambda>(ls, r, d). (OpeningLine port # ls, r, Some d))
          (prius_session (env D) n k m (snd a) dev))"

definition prius_main :: "(string \<Rightarrow> string) \<Rightarrow> (error \<Rightarrow> string) \<Rightarrow> ('d serial_dev \<Rightarrow> 'd env)
    \<Rightarrow> (string \<Rightarrow> nat \<Rightarrow> duration \<Rightarrow> string + 'd serial_dev \<times> 'd) \<Rightarrow> string option \<Rightarrow> nat \<Rightarrow> nat \<Rightarrow> nat \<Rightarrow> string list
    \<Rightarrow> (prius_line list \<times> program_end) option" where
  "prius_main q show env opener mvci_port n k m args =
     (case prius_parse_args q args of
        Inl e \<Rightarrow> Some ([], Exited 2 [e])
      | Inr a \<Rightarrow> map_option (\<lambda>(ls, r, _). (ls, run_end show r)) (prius_run env opener mvci_port n k m a))"

section \<open>Exit codes\<close>

lemma run_end_code:
  "run_end show r = Exited 0 out \<longleftrightarrow> r = Some (Ok ()) \<and> out = []"
  "run_end show r \<noteq> Exited 2 out"
  by (auto simp: run_end_def program_exit_def split: option.split sum.split fault.split)

text \<open>Two is the code of arguments that were refused, before anything is opened; the bridge answers
  them with one, like any other failure.\<close>

lemma exit_two_is_usage:
  "remote_main q show N env T k n dial args = Some (ls, Exited 2 out)
     \<longleftrightarrow> ls = [] \<and> (\<exists>e. remote_parse_args q args = Inl e \<and> out = [e])"
  "prius_main q show env' opener mvci_port n k m args = Some (ps, Exited 2 out)
     \<longleftrightarrow> ps = [] \<and> (\<exists>e. prius_parse_args q args = Inl e \<and> out = [e])"
  "bridge_parse_args q args = Inl e \<Longrightarrow> bridge_main q N W args = ([], Exited 1 [''error: '' @ e])"
  by (auto simp: remote_main_def prius_main_def bridge_main_def bridge_run_def program_exit_def run_end_code split: sum.split)

text \<open>The reader tells the port it has resolved before it tries to open it.\<close>

lemma prius_opening_line:
  "prius_run env opener mvci_port n k m a = Some (ls, r, d) \<Longrightarrow> hd ls = OpeningLine (resolve_port (fst a) mvci_port)"
  by (auto simp: prius_run_def Let_def split: sum.splits)

end
