(* ===== verification/Spec2Isabelle.thy ===== *)
theory Spec2Isabelle
  imports Inner Deframe IsoTp_Delivery KLine Toyota_Can PassThru Android Remote_Clients Programs
begin

text \<open>
  A verification of rmvci, a Rust driver for Mini-VCI J2534 diagnostic cables.

  \<^bold>\<open>The program.\<close> The cable speaks a framed, encrypted request/response protocol over a serial byte
  stream. \<open>rmvci-core\<close> has the frame codec, the session (an actor that owns the port and answers
  requests in order), channels for the vehicle protocols, a host-side ISO 15765-2 and an ISO 14230
  (K-line) layer. \<open>rmvci-diag\<close> puts diagnostic clients on them, \<open>rmvci-j2534\<close> a C library of PassThru
  exports, and \<open>rmvci-net\<close> forwards the byte transport over TCP, so that all of it can run on another
  machine than the cable. The transport has three backends, a tty, raw USB and a Java port on
  Android, where \<open>rmvci-android\<close> is the library of an app; a few programs use the driver.

  \<^bold>\<open>How it is modelled.\<close> A fallible function returns \<open>('a, 'e) res\<close>: a value, \<open>Fail\<close> of a returned
  error, or \<open>Panic\<close>. A method on \<open>&mut self\<close> is an \<open>op\<close>, a function from the state to outcome and new
  state. Machine integers are words; arithmetic that a debug build checks takes the flag \<open>dbg\<close> and
  panics there on overflow. Times are natural numbers of nanoseconds. The transport is a record of
  primitives on an abstract state \<open>'s\<close>; what a proof needs of it is a locale (\<open>byte_stream\<close>,
  \<open>ordered_stream\<close>, \<open>write_log\<close>, \<open>world_clock\<close>, \<open>paced_clock\<close>), interpreted on the scripted transport
  of the source (\<open>mock.rs\<close>), and on the backends and the network bridge under a contract of what lies
  below them. What lies below, the crates serialport, nusb and jni and the socket calls, is a record
  of functions on the state of the device (\<open>serial_dev\<close>, \<open>usb_dev\<close>, \<open>java\<close>); its documented
  behaviour is a locale (\<open>tty\<close>, \<open>ftdi\<close>, \<open>usb_clock\<close>, \<open>java_exceptions\<close>, \<open>java_stream\<close>) with a scripted
  instance. The block cipher is a parameter that permutes blocks of eight bytes per key.

  \<^bold>\<open>Theories and sources.\<close>
  \<^item> \<open>Prelude\<close>: outcomes, state passing, bytes, arithmetic; \<open>Wire_Types\<close>: \<open>types.rs\<close>, \<open>error.rs\<close>.
  \<^item> \<open>Frame\<close>: \<open>codec/frame.rs\<close>, \<open>codec/crypto.rs\<close>; \<open>Deframe\<close>: \<open>codec/deframe.rs\<close>; \<open>Inner\<close>:
    \<open>codec/inner.rs\<close>. Round trips, the exact acceptance condition of the decoder, independence of the
    deframer from how the stream is cut, its bound under noise, the lengths and fields of commands and replies.
  \<^item> \<open>Byte_Transport\<close>: \<open>transport/mod.rs\<close>, \<open>transport/mock.rs\<close>; \<open>Wire_Read\<close>: \<open>session/wire.rs\<close>;
    \<open>Link\<close>: \<open>session/link.rs\<close> and the actor's exchange. The blocking reader refines the deframer; an
    exchange writes its command and returns the decrypted reply; the reset dance and the handshake.
  \<^item> \<open>Actor\<close>: \<open>session/actor.rs\<close>. Each request is one function, the loop the relation \<open>actor_run\<close>
    (\<open>actor_step\<close> is one request or one idle poll). Invariants of the bookkeeping, the guard on the
    handshake's writes, the wedge verdict, queues and teardown; the locale \<open>actor_invariant\<close> turns
    preservation by an exchange into preservation by the loop.
  \<^item> \<open>Protocols\<close>, \<open>Device\<close>, \<open>Raw_Channel\<close>, \<open>Channel\<close>: the files of these names in \<open>session/\<close>. Filters,
    bounds of messages, termination of reads, one live filter per typed channel.
  \<^item> \<open>IsoTp_Machine\<close>, \<open>IsoTp_Transfer\<close>: \<open>isotp/machine.rs\<close>. The machines against the reference
    segmentation \<open>segments\<close>, against each other (\<open>pipe\<close>) and against an arbitrary peer (\<open>tx_run\<close>).
  \<^item> \<open>IsoTp\<close>, \<open>IsoTp_Paths\<close>: \<open>isotp/mod.rs\<close>; \<open>Exchanges\<close> has what a channel's calls do to the session.
    \<open>IsoTp_Delivery\<close>: the standard's reading \<open>message\<close> of a sequence of frames, and that the receive
    machine and the host path deliver exactly by it (\<open>host_reads\<close> is what a reception took).
  \<^item> \<open>KLine\<close>: \<open>kline.rs\<close>; \<open>Diag\<close>: \<open>common.rs\<close>, \<open>error.rs\<close>, \<open>kwp2000.rs\<close>, \<open>uds.rs\<close>, \<open>toyota.rs\<close>;
    \<open>Toyota_Can\<close>: \<open>toyota_can.rs\<close>.
  \<^item> \<open>J2534\<close>, \<open>J2534_Calls\<close>, \<open>J2534_Ioctl\<close>: \<open>rmvci-j2534/src/lib.rs\<close>, its statics as the record
    \<open>shim\<close>, every export a function on it and the caller's memory; \<open>J2534_Shim\<close> has the relation
    \<open>shim_run\<close> of states reached by calls and its invariant, \<open>Error_Codes\<close> the codes of errors,
    \<open>PassThru\<close> the properties of the exports.
  \<^item> \<open>Net\<close>: \<open>wire.rs\<close>, \<open>server.rs\<close>, \<open>client.rs\<close> of \<open>rmvci-net\<close>; a bridged cable is a transport again.
    \<open>Bridge\<close>: connecting, the accept loop, \<open>bin/rmvci-bridge.rs\<close>. \<open>Remote_Session\<close>: a session over the
    bridge is, step by step, the session at the cable (\<open>follows\<close>, from the primitives to the device);
    \<open>Remote_Calls\<close> carries that on to channels, ISO-TP and K-line, \<open>Remote_Clients\<close> to the programs.
  \<^item> \<open>Streams\<close>: what any backend's bytes promise; \<open>Serial\<close>, \<open>Usb\<close>, \<open>Jni\<close>: \<open>transport/serial.rs\<close>,
    \<open>usb.rs\<close>, \<open>jni.rs\<close>. Frames come in order over each; the USB read returns; no Java exception stays
    pending. \<open>Texts\<close> has numbers as \<open>format!\<close> prints them.
  \<^item> \<open>Handles\<close>: the number of handles on a session under every call of the driver. \<open>Android\<close>:
    \<open>rmvci-android/src/lib.rs\<close>, its boxes as the record \<open>android\<close>, \<open>android_run\<close> the states reached by
    calls, the bridge's accept loop. \<open>Tools\<close>: \<open>Device::open_with\<close> and \<open>open_usb\<close>,
    \<open>bin/rmvci-remote.rs\<close>, \<open>bin/kraw.rs\<close>, \<open>examples/prius-hvac\<close>; \<open>Programs\<close>: their \<open>run\<close> and \<open>main\<close>,
    from the arguments to the exit code.

  \<^bold>\<open>Loops.\<close> A loop that consumes its input is a terminating function. A loop that waits takes fuel,
  and running out is \<open>None\<close> (inside a PassThru body, \<open>OutOfFuel\<close>); that enough fuel gives a result is
  proved: by the payload for a transfer; by the timeout in steps of the two milliseconds a channel
  read sleeps, or the five that \<open>PassThruReadMsgs\<close> sleeps plus one round per message; by the time a
  write takes for the ISO-TP drivers and a transfer for a USB read, whose transport gives each read
  one round per nanosecond of its timeout and one more. The K-line request and flush loops are
  bounded by the code, and so is the watching of \<open>kraw\<close>; a program that polls for ever has the
  number of its rounds as an argument.

  \<^bold>\<open>Not modelled.\<close> Threads are modelled by the order in which the actor takes requests and the
  library's mutex admits calls, and by what each round of an accept loop meets. Over an established
  connection TCP delivers: socket errors there and the client's socket timeout are left out. The
  texts of errors are parameters, and so are allocation and the calls of the JNI environment.
  \<open>Device::des_key\<close> only reads a field. Tracing has no effect on state; the set-up of logging in the
  programs, re-exports, tests and fuzz targets are left out.
\<close>

section \<open>Across the parts\<close>







text \<open>An application on one machine reads through a cable on another: when the session of a
  slot runs over the bridge, \<open>PassThruReadMsgs\<close> on its raw channel returns within one round per
  message and one per five milliseconds of the timeout, with the number of messages it delivered,
  whatever the adapter sends and whether the connection stands or has broken. The clock of the
  cable's world running forward is all that is needed of it.\<close>
theorem bridged_read_returns:
  assumes "world_clock T time" and "ev_io (je_env J) = remote_transport N T"
    and "\<not> sh_poisoned sh" and "host_index ch sh = None" and "chan_index ch sh = Some i"
    and "get_slot i sh = Some sl" and "sl_chan sl = Some c"
    and "mm_msgs mm = Some ms" and "mm_num mm = Some n" and "n \<noteq> 0"
    and "unat n + max (unat timeout) 1 div 5 + 2 \<le> k"
  shows "\<exists>code sh' m' got. pass_thru_read_msgs J f k ch timeout (sh, mm) = Some (code, (sh', m'))
    \<and> mm_num m' = Some (of_nat got) \<and> got \<le> unat n \<and> (code = STATUS_NOERROR \<longrightarrow> 0 < got)"
proof -
  have "shim_clock J (\<lambda>b. time (br_cable b))"
    using world_clock.remote_clock [OF assms(1)] assms(2) by (simp add: shim_clock_def session_clock_def)
  from shim_clock.read_msgs_end [OF this assms(3-)] show ?thesis by blast
qed

definition bridged_env :: "mock bridge shim_env" where
  "bridged_env = \<lparr>je_env = \<lparr>ev_dbg = False, ev_enc = xor_cipher, ev_dec = xor_cipher,
       ev_io = remote_transport plain_net mock_transport\<rparr>,
     je_show = (\<lambda>e. []), je_mvci_port = None, je_factory = None\<rparr>"

definition bridged_slot :: "mock bridge slot" where
  "bridged_slot = \<lparr>sl_device = \<lparr>dv_actor = actor_new (remote_transport plain_net mock_transport) None [1]
       \<lparr>br_cable = mock_new [], br_up = False\<rparr>, dv_alive = True, dv_handles = 2, dv_closed = False\<rparr>,
     sl_chan = Some \<lparr>rc_proto = Can, rc_nfilters = 0\<rparr>, sl_host = None, sl_next_id = 1\<rparr>"

definition bridged_shim :: "mock bridge shim" where
  "bridged_shim = \<lparr>sh_slots = [Some bridged_slot, None, None, None], sh_error = [], sh_epoch = Some 0,
     sh_poisoned = False\<rparr>"

lemma bridged_shim_simps:
  "\<not> sh_poisoned bridged_shim" "host_index 0x100 bridged_shim = None" "chan_index 0x100 bridged_shim = Some 0"
  "get_slot 0 bridged_shim = Some bridged_slot" "sl_chan bridged_slot = Some \<lparr>rc_proto = Can, rc_nfilters = 0\<rparr>"
  by (simp_all add: bridged_shim_def bridged_slot_def host_index_def chan_index_def slot_from_ch_def get_slot_def
      MAX_SLOTS_def)

lemma bridged_read_returns_witness:
  "\<exists>code sh' m'. pass_thru_read_msgs bridged_env 1 9 0x100 30
     (bridged_shim, \<lparr>mm_msgs = Some [can_message], mm_num = Some 1\<rparr>) = Some (code, (sh', m'))"
proof -
  let ?mm = "\<lparr>mm_msgs = Some [can_message], mm_num = Some 1\<rparr>"
  have "ev_io (je_env bridged_env) = remote_transport plain_net mock_transport" by (simp add: bridged_env_def)
  moreover have "mm_msgs ?mm = Some [can_message]" "mm_num ?mm = Some 1" "(1 :: c_ulong) \<noteq> 0"
    "unat (1 :: c_ulong) + max (unat (30 :: c_ulong)) 1 div 5 + 2 \<le> 9"
    by simp_all
  ultimately show ?thesis
    using bridged_read_returns [OF mock_clock.world_clock_axioms _ bridged_shim_simps, where f = 1] by blast
qed

end
